(* ===== verification/Codex_Prelude.thy ===== *)
theory Codex_Prelude
  imports Main "HOL-Library.Sublist"
begin

text \<open>
  Shared vocabulary of the development: Rust's \<open>Result\<close>, Rust's \<open>str\<close> as a list of Unicode
  scalar values with the methods of \<open>str\<close> that the modelled crates call (\<open>trim\<close>, \<open>lines\<close>,
  \<open>split\<close>, \<open>join\<close>, \<open>strip_prefix\<close>, \<dots>), saturating machine integers, and the generic list
  lemmas that the component theories use. The named collections are:
  \<^item> \<open>text_eval\<close>: unfolds text operations on literals, for evaluating concrete inputs;
  \<^item> \<open>result_simps\<close>: eliminates \<open>result_bind\<close> in hypotheses.
\<close>

named_theorems text_eval \<open>unfolding of text operations on concrete literals\<close>
named_theorems result_simps \<open>elimination rules for sequenced fallible computations\<close>

section \<open>Results\<close>

text \<open>Rust's \<open>Result<T, E>\<close>; \<open>result_bind\<close> is the \<open>?\<close> operator.\<close>

datatype ('a, 'e) result = Ok 'a | Err 'e

fun result_bind :: "('a, 'e) result \<Rightarrow> ('a \<Rightarrow> ('b, 'e) result) \<Rightarrow> ('b, 'e) result" where
  "result_bind (Ok x) f = f x"
| "result_bind (Err e) f = Err e"

fun is_ok :: "('a, 'e) result \<Rightarrow> bool" where
  "is_ok (Ok _) = True"
| "is_ok (Err _) = False"

fun ok :: "('a, 'e) result \<Rightarrow> 'a option" where
  "ok (Ok x) = Some x"
| "ok (Err _) = None"

fun map_err :: "('e \<Rightarrow> 'f) \<Rightarrow> ('a, 'e) result \<Rightarrow> ('a, 'f) result" where
  "map_err f (Ok x) = Ok x"
| "map_err f (Err e) = Err (f e)"

text \<open>\<open>Iterator::collect::<Result<Vec<_>, _>>\<close>: the first error wins.\<close>

fun collect_results :: "('a, 'e) result list \<Rightarrow> ('a list, 'e) result" where
  "collect_results [] = Ok []"
| "collect_results (r # rs) =
     result_bind r (\<lambda>x. result_bind (collect_results rs) (\<lambda>xs. Ok (x # xs)))"

lemma result_bind_Ok_iff [result_simps]:
  "result_bind r f = Ok y \<longleftrightarrow> (\<exists>x. r = Ok x \<and> f x = Ok y)"
  by (cases r) auto

lemma result_bind_Err_iff [result_simps]:
  "result_bind r f = Err e \<longleftrightarrow> r = Err e \<or> (\<exists>x. r = Ok x \<and> f x = Err e)"
  by (cases r) auto

lemma map_err_Ok_iff [result_simps]: "map_err f r = Ok x \<longleftrightarrow> r = Ok x"
  by (cases r) auto

lemma collect_results_Ok [result_simps]:
  "collect_results rs = Ok xs \<longleftrightarrow> rs = map Ok xs"
  by (induction rs arbitrary: xs) (auto simp: result_bind_Ok_iff Cons_eq_map_conv)

section \<open>Text\<close>

text \<open>
  A Rust \<open>char\<close> is a Unicode scalar value, a \<open>str\<close> a sequence of them. Literals of the source
  are ASCII and are written \<open>lit ''...''\<close>.
\<close>

type_synonym uchar = nat
type_synonym str = "uchar list"

definition lit :: "string \<Rightarrow> str" where
  [text_eval]: "lit s = map of_char s"

abbreviation newline :: uchar where "newline \<equiv> 10"
abbreviation carriage_return :: uchar where "carriage_return \<equiv> 13"

text \<open>\<open>char::is_whitespace\<close>: the Unicode property \<open>White_Space\<close>.\<close>

definition is_whitespace :: "uchar \<Rightarrow> bool" where
  [text_eval]: "is_whitespace c \<longleftrightarrow>
     (9 \<le> c \<and> c \<le> 13) \<or> c = 32 \<or> c = 133 \<or> c = 160 \<or> c = 5760 \<or> (8192 \<le> c \<and> c \<le> 8202)
     \<or> c = 8232 \<or> c = 8233 \<or> c = 8239 \<or> c = 8287 \<or> c = 12288"

definition trim_start :: "str \<Rightarrow> str" where
  [text_eval]: "trim_start s = dropWhile is_whitespace s"

definition trim_end :: "str \<Rightarrow> str" where
  [text_eval]: "trim_end s = rev (dropWhile is_whitespace (rev s))"

definition trim :: "str \<Rightarrow> str" where
  [text_eval]: "trim s = trim_end (trim_start s)"

fun strip_prefix :: "'a list \<Rightarrow> 'a list \<Rightarrow> 'a list option" where
  "strip_prefix [] s = Some s"
| "strip_prefix (p # ps) [] = None"
| "strip_prefix (p # ps) (c # cs) = (if p = c then strip_prefix ps cs else None)"

definition strip_suffix :: "'a list \<Rightarrow> 'a list \<Rightarrow> 'a list option" where
  [text_eval]: "strip_suffix p s = map_option rev (strip_prefix (rev p) (rev s))"

definition starts_with :: "'a list \<Rightarrow> 'a list \<Rightarrow> bool" where
  [text_eval]: "starts_with p s \<longleftrightarrow> strip_prefix p s \<noteq> None"

definition ends_with :: "'a list \<Rightarrow> 'a list \<Rightarrow> bool" where
  [text_eval]: "ends_with p s \<longleftrightarrow> strip_suffix p s \<noteq> None"

text \<open>\<open>str::split\<close> and \<open>str::split_inclusive\<close> at one character, \<open>[str]::join\<close> and \<open>str::lines\<close>.\<close>

fun split_on :: "'a \<Rightarrow> 'a list \<Rightarrow> 'a list list" where
  "split_on d [] = [[]]"
| "split_on d (c # cs) =
     (if c = d then [] # split_on d cs
      else case split_on d cs of [] \<Rightarrow> [[c]] | w # ws \<Rightarrow> (c # w) # ws)"

fun split_inclusive :: "'a \<Rightarrow> 'a list \<Rightarrow> 'a list list" where
  "split_inclusive d [] = []"
| "split_inclusive d (c # cs) =
     (if c = d then [c] # split_inclusive d cs
      else case split_inclusive d cs of [] \<Rightarrow> [[c]] | w # ws \<Rightarrow> (c # w) # ws)"

fun join :: "'a list \<Rightarrow> 'a list list \<Rightarrow> 'a list" where
  "join sep [] = []"
| "join sep [w] = w"
| "join sep (w # v # ws) = w @ sep @ join sep (v # ws)"

definition strip_line_ending :: "str \<Rightarrow> str" where
  [text_eval]: "strip_line_ending l =
     (case strip_suffix [newline] l of
        None \<Rightarrow> l
      | Some l' \<Rightarrow> (case strip_suffix [carriage_return] l' of None \<Rightarrow> l' | Some l'' \<Rightarrow> l''))"

definition str_lines :: "str \<Rightarrow> str list" where
  [text_eval]: "str_lines s = map strip_line_ending (split_inclusive newline s)"

definition to_ascii_lowercase :: "str \<Rightarrow> str" where
  [text_eval]: "to_ascii_lowercase s = map (\<lambda>c. if 65 \<le> c \<and> c \<le> 90 then c + 32 else c) s"

definition is_ascii_digit :: "uchar \<Rightarrow> bool" where
  [text_eval]: "is_ascii_digit c \<longleftrightarrow> 48 \<le> c \<and> c \<le> 57"

text \<open>\<open>str::contains\<close> for a string pattern.\<close>

fun contains_str :: "'a list \<Rightarrow> 'a list \<Rightarrow> bool" where
  "contains_str p [] = (p = [])"
| "contains_str p (c # cs) = (starts_with p (c # cs) \<or> contains_str p cs)"

text \<open>\<open>str::split_once\<close> at one character.\<close>

definition split_once :: "'a \<Rightarrow> 'a list \<Rightarrow> ('a list \<times> 'a list) option" where
  [text_eval]: "split_once d s =
     (if d \<in> set s then Some (takeWhile (\<lambda>c. c \<noteq> d) s, tl (dropWhile (\<lambda>c. c \<noteq> d) s)) else None)"

text \<open>\<open>str::len\<close> counts UTF-8 bytes.\<close>

definition utf8_width :: "uchar \<Rightarrow> nat" where
  [text_eval]: "utf8_width c = (if c < 128 then 1 else if c < 2048 then 2 else if c < 65536 then 3 else 4)"

definition str_len :: "str \<Rightarrow> nat" where
  [text_eval]: "str_len s = sum_list (map utf8_width s)"

text \<open>\<open>Display\<close> of an unsigned integer.\<close>

fun show_nat :: "nat \<Rightarrow> str" where
  "show_nat n = (if n < 10 then [48 + n] else show_nat (n div 10) @ [48 + n mod 10])"

declare show_nat.simps [simp del]

subsection \<open>Laws of the text operations\<close>

lemma strip_prefix_Some_iff: "strip_prefix p s = Some r \<longleftrightarrow> s = p @ r"
  by (induction p s rule: strip_prefix.induct) auto

lemma strip_prefix_append [simp]: "strip_prefix p (p @ r) = Some r"
  by (simp add: strip_prefix_Some_iff)

lemma starts_with_iff: "starts_with p s \<longleftrightarrow> (\<exists>r. s = p @ r)"
  by (auto simp: starts_with_def strip_prefix_Some_iff simp flip: not_None_eq)

lemma starts_with_append [simp]: "starts_with p (p @ r)"
  by (auto simp: starts_with_iff)

lemma strip_suffix_Some_iff: "strip_suffix p s = Some r \<longleftrightarrow> s = r @ p"
proof -
  have "strip_suffix p s = Some r \<longleftrightarrow> rev s = rev p @ rev r"
    by (auto simp: strip_suffix_def strip_prefix_Some_iff)
  also have "\<dots> \<longleftrightarrow> s = r @ p"
    by (metis rev_append rev_rev_ident)
  finally show ?thesis .
qed

lemma ends_with_iff: "ends_with p s \<longleftrightarrow> (\<exists>r. s = r @ p)"
  by (auto simp: ends_with_def strip_suffix_Some_iff simp flip: not_None_eq)

lemma lit_Nil [simp]: "lit [] = []"
  by (simp add: lit_def)

lemma lit_eq_Nil [simp]: "lit s = [] \<longleftrightarrow> s = []"
  by (simp add: lit_def)

lemma trim_start_idem [simp]: "trim_start (trim_start s) = trim_start s"
  by (induction s) (auto simp: trim_start_def)

lemma trim_end_idem [simp]: "trim_end (trim_end s) = trim_end s"
proof -
  have "dropWhile is_whitespace (dropWhile is_whitespace (rev s)) = dropWhile is_whitespace (rev s)"
    by (induction "rev s") (auto simp: dropWhile_idem)
  then show ?thesis by (simp add: trim_end_def)
qed

lemma trim_start_fix: "s \<noteq> [] \<Longrightarrow> \<not> is_whitespace (hd s) \<Longrightarrow> trim_start s = s"
  by (cases s) (auto simp: trim_start_def)

lemma trim_end_fix: "s \<noteq> [] \<Longrightarrow> \<not> is_whitespace (last s) \<Longrightarrow> trim_end s = s"
  by (cases s rule: rev_cases) (auto simp: trim_end_def)

lemma trim_fix:
  "s \<noteq> [] \<Longrightarrow> \<not> is_whitespace (hd s) \<Longrightarrow> \<not> is_whitespace (last s) \<Longrightarrow> trim s = s"
  by (simp add: trim_def trim_start_fix trim_end_fix)

lemma trim_end_last: "trim_end s \<noteq> [] \<Longrightarrow> \<not> is_whitespace (last (trim_end s))"
  by (simp add: trim_end_def last_rev hd_dropWhile)

lemma trim_last: "trim s \<noteq> [] \<Longrightarrow> \<not> is_whitespace (last (trim s))"
  by (simp add: trim_def trim_end_last)

lemma set_trim_start: "set (trim_start s) \<subseteq> set s"
  by (auto simp: trim_start_def dest: set_dropWhileD)

lemma set_trim_end: "set (trim_end s) \<subseteq> set s"
  by (auto simp: trim_end_def dest: set_dropWhileD)

lemma set_trim: "set (trim s) \<subseteq> set s"
  using set_trim_start set_trim_end by (fastforce simp: trim_def)

lemma trim_end_append_ws:
  "list_all is_whitespace w \<Longrightarrow> trim_end (s @ w) = trim_end s"
  by (induction w rule: rev_induct) (auto simp: trim_end_def)

lemma trim_end_decomp: obtains w where "s = trim_end s @ w" "list_all is_whitespace w"
proof
  show "s = trim_end s @ rev (takeWhile is_whitespace (rev s))"
    by (metis rev_append rev_rev_ident takeWhile_dropWhile_id trim_end_def)
  show "list_all is_whitespace (rev (takeWhile is_whitespace (rev s)))"
    by (auto simp: list_all_iff dest: set_takeWhileD)
qed

text \<open>Trimming the end first and then the start gives the same text.\<close>

lemma trim_trim_end: "trim (trim_end s) = trim s"
proof -
  obtain w where s: "s = trim_end s @ w" and w: "list_all is_whitespace w"
    by (rule trim_end_decomp)
  have ws: "dropWhile is_whitespace w = []"
    using w by (simp add: dropWhile_eq_Nil_conv list_all_iff)
  have "trim_start s = trim_start (trim_end s) @ w \<or> (trim_start s = [] \<and> trim_start (trim_end s) = [])"
    using ws by (subst (1 3) s) (auto simp: trim_start_def dropWhile_append dropWhile_eq_Nil_conv)
  then show ?thesis
    using w by (auto simp: trim_def trim_end_append_ws)
qed

lemma split_on_nonempty [simp]: "split_on d s \<noteq> []"
  by (induction s) (auto split: list.splits)

lemma join_Cons: "ws \<noteq> [] \<Longrightarrow> join sep (w # ws) = w @ sep @ join sep ws"
  by (cases ws) auto

lemma join_split_on: "join [d] (split_on d s) = s"
proof (induction s)
  case (Cons c cs)
  then show ?case
    by (cases "split_on d cs"; cases "tl (split_on d cs)") (auto simp: join_Cons)
qed simp

lemma split_on_append:
  "d \<notin> set w \<Longrightarrow> split_on d (w @ d # s) = w # split_on d s"
  by (induction w) auto

lemma split_on_no_sep: "d \<notin> set w \<Longrightarrow> split_on d w = [w]"
  by (induction w) auto

lemma split_on_join:
  "ws \<noteq> [] \<Longrightarrow> \<forall>w\<in>set ws. d \<notin> set w \<Longrightarrow> split_on d (join [d] ws) = ws"
  by (induction "[d]" ws rule: join.induct) (auto simp: split_on_append split_on_no_sep)

lemma split_on_parts: "w \<in> set (split_on d s) \<Longrightarrow> d \<notin> set w"
proof (induction s arbitrary: w)
  case (Cons c cs)
  then show ?case
    by (cases "split_on d cs") (auto split: if_splits)
qed simp

lemma split_inclusive_append:
  "d \<notin> set w \<Longrightarrow> split_inclusive d (w @ d # s) = (w @ [d]) # split_inclusive d s"
  by (induction w) auto

lemma split_inclusive_no_sep: "d \<notin> set w \<Longrightarrow> w \<noteq> [] \<Longrightarrow> split_inclusive d w = [w]"
proof (induction w)
  case (Cons c w)
  then show ?case by (cases "w = []") auto
qed simp

text \<open>A text line that \<open>str::lines\<close> gives back unchanged.\<close>

definition plain_line :: "str \<Rightarrow> bool" where
  "plain_line l \<longleftrightarrow> newline \<notin> set l \<and> (l = [] \<or> last l \<noteq> carriage_return)"

lemma strip_line_ending_newline:
  "plain_line l \<Longrightarrow> strip_line_ending (l @ [newline]) = l"
proof -
  assume l: "plain_line l"
  have "strip_suffix [newline] (l @ [newline]) = Some l"
    by (simp add: strip_suffix_Some_iff)
  moreover have "strip_suffix [carriage_return] l = None"
  proof (rule ccontr)
    assume "strip_suffix [carriage_return] l \<noteq> None"
    then obtain r where "l = r @ [carriage_return]"
      by (auto simp: strip_suffix_Some_iff simp flip: not_None_eq)
    with l show False by (simp add: plain_line_def)
  qed
  ultimately show ?thesis by (simp add: strip_line_ending_def)
qed

lemma strip_line_ending_no_newline:
  "newline \<notin> set l \<Longrightarrow> strip_line_ending l = l"
proof -
  assume l: "newline \<notin> set l"
  have "strip_suffix [newline] l = None"
  proof (rule ccontr)
    assume "strip_suffix [newline] l \<noteq> None"
    then obtain r where "l = r @ [newline]"
      by (auto simp: strip_suffix_Some_iff simp flip: not_None_eq)
    with l show False by simp
  qed
  then show ?thesis by (simp add: strip_line_ending_def)
qed

lemma lines_append: "plain_line l \<Longrightarrow> str_lines (l @ newline # s) = l # str_lines s"
  by (simp add: str_lines_def split_inclusive_append strip_line_ending_newline plain_line_def)

lemma lines_last: "newline \<notin> set l \<Longrightarrow> l \<noteq> [] \<Longrightarrow> str_lines l = [l]"
  by (simp add: str_lines_def split_inclusive_no_sep strip_line_ending_no_newline)

lemma split_inclusive_append_closed:
  "c = [] \<or> last c = d \<Longrightarrow> split_inclusive d (c @ s) = split_inclusive d c @ split_inclusive d s"
proof (induction c)
  case (Cons x c)
  show ?case
  proof (cases "c = []")
    case False
    then have ih: "split_inclusive d (c @ s) = split_inclusive d c @ split_inclusive d s"
      and ne: "split_inclusive d c \<noteq> []" using Cons by (auto simp: neq_Nil_conv split: list.splits)
    then show ?thesis by (cases "split_inclusive d c") auto
  qed (use Cons in simp)
qed simp

lemma str_lines_append_closed:
  "c = [] \<or> last c = newline \<Longrightarrow> str_lines (c @ s) = str_lines c @ str_lines s"
  by (simp add: str_lines_def split_inclusive_append_closed)

lemma str_lines_close:
  assumes "c \<noteq> []" "last c \<noteq> newline" "last c \<noteq> carriage_return"
  shows "str_lines (c @ [newline]) = str_lines c"
proof -
  define w where "w = rev (takeWhile (\<lambda>x. x \<noteq> newline) (rev c))"
  define pre where "pre = rev (dropWhile (\<lambda>x. x \<noteq> newline) (rev c))"
  have c: "c = pre @ w" by (simp add: pre_def w_def flip: rev_append)
  have pre: "pre = [] \<or> last pre = newline"
    using hd_dropWhile [of "\<lambda>x. x \<noteq> newline" "rev c"] by (auto simp: pre_def last_rev)
  have w: "newline \<notin> set w" by (auto simp: w_def dest: set_takeWhileD)
  have ne: "w \<noteq> []" using c pre assms by auto
  have "plain_line w" using w ne c assms(3) by (simp add: plain_line_def)
  then have "str_lines (w @ [newline]) = [w]" using lines_append [of w "[]"] by (simp add: str_lines_def)
  then show ?thesis using str_lines_append_closed [OF pre] lines_last [OF w ne] by (simp add: c)
qed

lemma lines_join:
  "\<forall>l\<in>set ls. plain_line l \<Longrightarrow> ls \<noteq> [] \<Longrightarrow> last ls \<noteq> [] \<Longrightarrow> str_lines (join [newline] ls) = ls"
  by (induction "[newline]" ls rule: join.induct)
    (auto simp: lines_append lines_last plain_line_def)

section \<open>Saturating machine integers\<close>

text \<open>\<open>i64\<close> values are integers in \<open>[i64_min, i64_max]\<close>; \<open>usize\<close> values are naturals up to \<open>usize_max\<close>.\<close>

definition i64_max :: int where "i64_max = 2 ^ 63 - 1"
definition i64_min :: int where "i64_min = - (2 ^ 63)"
definition usize_max :: nat where "usize_max = 2 ^ 64 - 1"

text \<open>No Rust allocation, hence no string and no vector, is longer than \<open>isize::MAX\<close> bytes.\<close>

definition isize_max :: nat where "isize_max = 2 ^ 63 - 1"

definition sat_i64 :: "int \<Rightarrow> int" where
  "sat_i64 x = max i64_min (min i64_max x)"

definition saturating_add_i64 :: "int \<Rightarrow> int \<Rightarrow> int" where
  "saturating_add_i64 a b = sat_i64 (a + b)"

definition saturating_sub_i64 :: "int \<Rightarrow> int \<Rightarrow> int" where
  "saturating_sub_i64 a b = sat_i64 (a - b)"

definition saturating_mul_i64 :: "int \<Rightarrow> int \<Rightarrow> int" where
  "saturating_mul_i64 a b = sat_i64 (a * b)"

text \<open>
  Plain \<open>+\<close> and \<open>-\<close>: an overflow panics in a debug build (\<open>None\<close>) and wraps in a release build.
\<close>

definition wrap_i64 :: "int \<Rightarrow> int" where
  "wrap_i64 x = (x + 2 ^ 63) mod 2 ^ 64 - 2 ^ 63"

definition plain_i64 :: "bool \<Rightarrow> int \<Rightarrow> int option" where
  "plain_i64 debug x = (if i64_min \<le> x \<and> x \<le> i64_max then Some x else if debug then None else Some (wrap_i64 x))"

definition saturating_add_usize :: "nat \<Rightarrow> nat \<Rightarrow> nat" where
  "saturating_add_usize a b = min usize_max (a + b)"

definition saturating_mul_usize :: "nat \<Rightarrow> nat \<Rightarrow> nat" where
  "saturating_mul_usize a b = min usize_max (a * b)"

text \<open>\<open>i64::try_from(n).unwrap_or(i64::MAX)\<close> for a \<open>usize\<close>.\<close>

definition i64_of_usize :: "nat \<Rightarrow> int" where
  "i64_of_usize n = (if int n \<le> i64_max then int n else i64_max)"

definition in_i64 :: "int \<Rightarrow> bool" where
  "in_i64 x \<longleftrightarrow> i64_min \<le> x \<and> x \<le> i64_max"

lemma i64_bounds_order [simp]: "i64_min \<le> i64_max" "0 \<le> i64_max" "i64_min \<le> 0"
  by (simp_all add: i64_min_def i64_max_def)

lemma saturating_add_usize_min [simp]:
  "saturating_add_usize (min usize_max a) b = min usize_max (a + b)"
  by (simp add: saturating_add_usize_def)

lemma in_i64_sat [simp]: "in_i64 (sat_i64 x)"
  by (auto simp: in_i64_def sat_i64_def min_def max_def)

lemma in_i64_saturating_add [simp]: "in_i64 (saturating_add_i64 a b)"
  by (simp add: saturating_add_i64_def)

lemma in_i64_saturating_sub [simp]: "in_i64 (saturating_sub_i64 a b)"
  by (simp add: saturating_sub_i64_def)

lemma in_i64_of_usize [simp]: "in_i64 (i64_of_usize n)"
  by (auto simp: in_i64_def i64_of_usize_def intro: order_trans [OF i64_bounds_order(3)])

section \<open>Lists\<close>

text \<open>\<open>Iterator::position\<close> and \<open>Iterator::rposition\<close>.\<close>

fun position :: "('a \<Rightarrow> bool) \<Rightarrow> 'a list \<Rightarrow> nat option" where
  "position P [] = None"
| "position P (x # xs) = (if P x then Some 0 else map_option Suc (position P xs))"

fun rposition :: "('a \<Rightarrow> bool) \<Rightarrow> 'a list \<Rightarrow> nat option" where
  "rposition P [] = None"
| "rposition P (x # xs) =
     (case rposition P xs of Some i \<Rightarrow> Some (Suc i) | None \<Rightarrow> if P x then Some 0 else None)"

text \<open>Indexing: out of range panics, which is \<open>None\<close>.\<close>

definition index_at :: "'a list \<Rightarrow> nat \<Rightarrow> 'a option" where
  "index_at xs i = (if i < length xs then Some (xs ! i) else None)"

text \<open>\<open>Vec::remove\<close> and \<open>Vec::insert\<close> at a valid index.\<close>

definition remove_at :: "nat \<Rightarrow> 'a list \<Rightarrow> 'a list" where
  "remove_at i xs = take i xs @ drop (Suc i) xs"

definition insert_at :: "nat \<Rightarrow> 'a \<Rightarrow> 'a list \<Rightarrow> 'a list" where
  "insert_at i x xs = take i xs @ x # drop i xs"

lemma map_eq_coarser:
  assumes "map f xs = map f ys" and coarser: "\<And>x y. f x = f y \<Longrightarrow> g x = g y"
  shows "map g xs = map g ys"
proof (rule nth_equalityI)
  show len: "length (map g xs) = length (map g ys)"
    using map_eq_imp_length_eq [OF assms(1)] by simp
  fix i
  assume "i < length (map g xs)"
  then have i: "i < length xs" "i < length ys" using len by simp_all
  have "f (xs ! i) = f (ys ! i)" using i assms(1) by (metis nth_map)
  then have "g (xs ! i) = g (ys ! i)" by (rule coarser)
  then show "map g xs ! i = map g ys ! i" using i by simp
qed

lemma position_None: "position P xs = None \<longleftrightarrow> (\<forall>x\<in>set xs. \<not> P x)"
  by (induction xs) auto

lemma position_Some:
  "position P xs = Some i \<Longrightarrow> i < length xs \<and> P (xs ! i) \<and> (\<forall>j<i. \<not> P (xs ! j))"
proof (induction xs arbitrary: i)
  case (Cons x xs)
  then show ?case
    by (auto split: if_splits simp: less_Suc_eq_0_disj nth_Cons')
qed simp

lemma rposition_None: "rposition P xs = None \<longleftrightarrow> (\<forall>x\<in>set xs. \<not> P x)"
  by (induction xs) (auto split: option.splits)

lemma rposition_Some:
  "rposition P xs = Some i \<Longrightarrow>
     i < length xs \<and> P (xs ! i) \<and> (\<forall>j. i < j \<longrightarrow> j < length xs \<longrightarrow> \<not> P (xs ! j))"
proof (induction xs arbitrary: i)
  case (Cons x xs)
  show ?case
  proof (cases "rposition P xs")
    case None
    with Cons.prems have "i = 0" "P x" by (auto split: if_splits)
    moreover have "\<not> P (xs ! k)" if "k < length xs" for k
      using None that by (simp add: rposition_None)
    ultimately show ?thesis by (auto simp: nth_Cons')
  next
    case (Some k)
    with Cons.prems have i: "i = Suc k" by simp
    have "k < length xs \<and> P (xs ! k) \<and> (\<forall>j. k < j \<longrightarrow> j < length xs \<longrightarrow> \<not> P (xs ! j))"
      by (rule Cons.IH [OF Some])
    then show ?thesis
      by (auto simp: i nth_Cons')
  qed
qed simp

lemma remove_at_position_filter:
  assumes "position P xs = Some i"
  shows "\<exists>ys x zs. xs = ys @ x # zs \<and> P x \<and> (\<forall>y\<in>set ys. \<not> P y) \<and> remove_at i xs = ys @ zs"
proof -
  from position_Some [OF assms] have i: "i < length xs" "P (xs ! i)" "\<forall>j<i. \<not> P (xs ! j)"
    by auto
  have "xs = take i xs @ xs ! i # drop (Suc i) xs"
    using i(1) by (rule id_take_nth_drop)
  moreover have "\<forall>y\<in>set (take i xs). \<not> P y"
    using i(1,3) by (auto simp: in_set_conv_nth)
  ultimately show ?thesis
    using i(2) by (auto simp: remove_at_def)
qed

section \<open>I/O errors\<close>

text \<open>\<open>std::io::Error\<close>: the kinds the code distinguishes, and the message.\<close>

datatype io_error_kind = NotFound | InvalidInput | AlreadyExists | OtherKind

datatype io_error = Io_Error (io_kind: io_error_kind) (io_message: str)

section \<open>Filtering with an option\<close>

text \<open>\<open>Iterator::filter_map\<close>\<close>

fun filter_map :: "('a \<Rightarrow> 'b option) \<Rightarrow> 'a list \<Rightarrow> 'b list" where
  "filter_map f [] = []"
| "filter_map f (x # xs) = (case f x of Some y \<Rightarrow> y # filter_map f xs | None \<Rightarrow> filter_map f xs)"

lemma set_filter_map: "y \<in> set (filter_map f xs) \<longleftrightarrow> (\<exists>x\<in>set xs. f x = Some y)"
  by (induction xs) (auto split: option.splits)

lemma filter_map_append [simp]: "filter_map f (xs @ ys) = filter_map f xs @ filter_map f ys"
  by (induction xs) (auto split: option.splits)

lemma filter_map_empty: "filter_map f xs = [] \<longleftrightarrow> (\<forall>x\<in>set xs. f x = None)"
  by (induction xs) (auto split: option.splits)

end
