(* ===== verification/Patch_Parser.thy ===== *)
theory Patch_Parser
  imports Codex_Prelude
begin

text \<open>
  Model of \<^verbatim>\<open>apply-patch/src/parser.rs\<close>: the patch grammar, its strict and lenient entry points,
  and the loops that split a patch into hunks and hunks into chunks. The reference printer
  \<open>render_patch\<close> states what the textual form of a list of hunks is; parsing is shown to invert it.
\<close>

section \<open>Data\<close>

definition BEGIN_PATCH_MARKER :: str where
  [text_eval]: "BEGIN_PATCH_MARKER = lit ''*** Begin Patch''"
definition ENVIRONMENT_ID_MARKER :: str where
  [text_eval]: "ENVIRONMENT_ID_MARKER = lit ''*** Environment ID: ''"
definition END_PATCH_MARKER :: str where
  [text_eval]: "END_PATCH_MARKER = lit ''*** End Patch''"
definition ADD_FILE_MARKER :: str where
  [text_eval]: "ADD_FILE_MARKER = lit ''*** Add File: ''"
definition DELETE_FILE_MARKER :: str where
  [text_eval]: "DELETE_FILE_MARKER = lit ''*** Delete File: ''"
definition UPDATE_FILE_MARKER :: str where
  [text_eval]: "UPDATE_FILE_MARKER = lit ''*** Update File: ''"
definition MOVE_TO_MARKER :: str where
  [text_eval]: "MOVE_TO_MARKER = lit ''*** Move to: ''"
definition EOF_MARKER :: str where
  [text_eval]: "EOF_MARKER = lit ''*** End of File''"
definition CHANGE_CONTEXT_MARKER :: str where
  [text_eval]: "CHANGE_CONTEXT_MARKER = lit ''@@ ''"
definition EMPTY_CHANGE_CONTEXT_MARKER :: str where
  [text_eval]: "EMPTY_CHANGE_CONTEXT_MARKER = lit ''@@''"

abbreviation quote :: uchar where "quote \<equiv> 39"
abbreviation plus_char :: uchar where "plus_char \<equiv> 43"
abbreviation minus_char :: uchar where "minus_char \<equiv> 45"
abbreviation space_char :: uchar where "space_char \<equiv> 32"
abbreviation star_char :: uchar where "star_char \<equiv> 42"

text \<open>\<open>InvalidHunkError\<close> carries its message and its line number.\<close>

datatype parse_error = InvalidPatchError str | InvalidHunkError str nat

record update_file_chunk =
  change_context :: "str option"
  old_lines :: "str list"
  new_lines :: "str list"
  is_end_of_file :: bool

datatype hunk =
    AddFile str str
  | DeleteFile str
  | UpdateFile str "str option" "update_file_chunk list"

record apply_patch_args =
  args_patch :: str
  args_hunks :: "hunk list"
  args_workdir :: "str option"
  args_environment_id :: "str option"

datatype parse_mode = Strict | Lenient

definition PARSE_IN_STRICT_MODE :: bool where "PARSE_IN_STRICT_MODE = False"

text \<open>\<open>Hunk::path\<close>: the move destination for rename hunks.\<close>

fun hunk_path :: "hunk \<Rightarrow> str" where
  "hunk_path (AddFile path contents) = path"
| "hunk_path (DeleteFile path) = path"
| "hunk_path (UpdateFile path (Some move_path) chunks) = move_path"
| "hunk_path (UpdateFile path None chunks) = path"

text \<open>The path \<open>Hunk::resolve_path\<close> resolves: the source of an update, not its destination.\<close>

fun hunk_source_path :: "hunk \<Rightarrow> str" where
  "hunk_source_path (UpdateFile path move_path chunks) = path"
| "hunk_source_path h = hunk_path h"

section \<open>Error messages\<close>

definition invalid_header_message :: "str \<Rightarrow> str" where
  "invalid_header_message first_line =
     [quote] @ first_line @ [quote] @
     lit '' is not a valid hunk header. Valid hunk headers: '' @
     [quote] @ lit ''*** Add File: {path}'' @ [quote] @ lit '', '' @
     [quote] @ lit ''*** Delete File: {path}'' @ [quote] @ lit '', '' @
     [quote] @ lit ''*** Update File: {path}'' @ [quote]"

definition empty_update_message :: "str \<Rightarrow> str" where
  "empty_update_message path =
     lit ''Update file hunk for path '' @ [quote] @ path @ [quote] @ lit '' is empty''"

definition no_lines_message :: str where
  "no_lines_message = lit ''Update hunk does not contain any lines''"

definition unexpected_line_message :: "str \<Rightarrow> str" where
  "unexpected_line_message line =
     lit ''Unexpected line found in update hunk: '' @ [quote] @ line @ [quote] @
     lit ''. Every line should start with '' @ [quote] @ lit '' '' @ [quote] @
     lit '' (context line), '' @ [quote] @ lit ''+'' @ [quote] @ lit '' (added line), or '' @
     [quote] @ lit ''-'' @ [quote] @ lit '' (removed line)''"

definition expected_context_message :: "str \<Rightarrow> str" where
  "expected_context_message line =
     lit ''Expected update hunk to start with a @@ context marker, got: '' @ [quote] @ line @ [quote]"

definition first_line_message :: str where
  "first_line_message =
     lit ''The first line of the patch must be '' @ [quote] @ lit ''*** Begin Patch'' @ [quote]"

definition last_line_message :: str where
  "last_line_message =
     lit ''The last line of the patch must be '' @ [quote] @ lit ''*** End Patch'' @ [quote]"

section \<open>Chunks\<close>

definition push_old :: "str \<Rightarrow> update_file_chunk \<Rightarrow> update_file_chunk" where
  "push_old l chunk = chunk\<lparr>old_lines := old_lines chunk @ [l]\<rparr>"

definition push_new :: "str \<Rightarrow> update_file_chunk \<Rightarrow> update_file_chunk" where
  "push_new l chunk = chunk\<lparr>new_lines := new_lines chunk @ [l]\<rparr>"

text \<open>
  The loop over \<open>lines[start_index..]\<close> of \<open>parse_update_file_chunk\<close>, with the mutable chunk and the
  counter \<open>parsed_lines\<close> as arguments.
\<close>

fun chunk_lines_loop ::
  "nat \<Rightarrow> update_file_chunk \<Rightarrow> nat \<Rightarrow> str list \<Rightarrow> (update_file_chunk \<times> nat, parse_error) result" where
  "chunk_lines_loop line_number chunk parsed_lines [] = Ok (chunk, parsed_lines)"
| "chunk_lines_loop line_number chunk parsed_lines (line # rest) =
     (if line = EOF_MARKER then
        (if parsed_lines = 0 then Err (InvalidHunkError no_lines_message (line_number + 1))
         else Ok (chunk\<lparr>is_end_of_file := True\<rparr>, parsed_lines + 1))
      else
        (case line of
           [] \<Rightarrow> chunk_lines_loop line_number (push_new [] (push_old [] chunk)) (parsed_lines + 1) rest
         | c # text \<Rightarrow>
             if c = space_char then
               chunk_lines_loop line_number (push_new text (push_old text chunk)) (parsed_lines + 1) rest
             else if c = plus_char then
               chunk_lines_loop line_number (push_new text chunk) (parsed_lines + 1) rest
             else if c = minus_char then
               chunk_lines_loop line_number (push_old text chunk) (parsed_lines + 1) rest
             else if parsed_lines = 0 then
               Err (InvalidHunkError (unexpected_line_message line) (line_number + 1))
             else Ok (chunk, parsed_lines)))"

definition chunk_header :: "str \<Rightarrow> nat \<Rightarrow> bool \<Rightarrow> (str option \<times> nat, parse_error) result" where
  "chunk_header first line_number allow_missing_context =
     (if first = EMPTY_CHANGE_CONTEXT_MARKER then Ok (None, 1)
      else case strip_prefix CHANGE_CONTEXT_MARKER first of
        Some context \<Rightarrow> Ok (Some context, 1)
      | None \<Rightarrow>
          if \<not> allow_missing_context
          then Err (InvalidHunkError (expected_context_message first) line_number)
          else Ok (None, 0))"

definition parse_update_file_chunk ::
  "str list \<Rightarrow> nat \<Rightarrow> bool \<Rightarrow> (update_file_chunk \<times> nat, parse_error) result" where
  "parse_update_file_chunk lines line_number allow_missing_context =
     (case lines of
        [] \<Rightarrow> Err (InvalidHunkError no_lines_message line_number)
      | first # _ \<Rightarrow>
          result_bind (chunk_header first line_number allow_missing_context)
            (\<lambda>(ctx, start_index).
               if start_index \<ge> length lines
               then Err (InvalidHunkError no_lines_message (line_number + 1))
               else
                 result_bind
                   (chunk_lines_loop line_number
                      \<lparr>change_context = ctx, old_lines = [], new_lines = [], is_end_of_file = False\<rparr>
                      0 (drop start_index lines))
                   (\<lambda>(chunk, parsed_lines). Ok (chunk, parsed_lines + start_index))))"

text \<open>Every parsed chunk takes at least one line: the loops of the parser make progress.\<close>

lemma chunk_lines_loop_bounds:
  "chunk_lines_loop ln ch n ls = Ok (ch', m) \<Longrightarrow> n \<le> m \<and> m \<le> n + length ls"
  by (induction ln ch n ls rule: chunk_lines_loop.induct)
    (fastforce split: if_splits list.splits)+

lemma chunk_lines_loop_progress:
  "chunk_lines_loop ln ch 0 ls = Ok (ch', m) \<Longrightarrow> ls \<noteq> [] \<Longrightarrow> 0 < m"
  by (cases ls) (auto split: if_splits list.splits dest!: chunk_lines_loop_bounds)

lemma parse_update_file_chunk_bounds:
  assumes "parse_update_file_chunk lines ln b = Ok (ch, n)"
  shows "0 < n \<and> n \<le> length lines"
proof -
  from assms obtain first rest where lines: "lines = first # rest"
    by (cases lines) (auto simp: parse_update_file_chunk_def)
  from assms obtain ctx start m where
      st: "start < length lines" and
      loop: "chunk_lines_loop ln
        \<lparr>change_context = ctx, old_lines = [], new_lines = [], is_end_of_file = False\<rparr>
        0 (drop start lines) = Ok (ch, m)" and n: "n = m + start"
    by (fastforce simp: parse_update_file_chunk_def lines result_simps not_le split: if_splits)
  have "0 < m" by (rule chunk_lines_loop_progress [OF loop]) (use st in simp)
  moreover have "m \<le> length (drop start lines)"
    using chunk_lines_loop_bounds [OF loop] by simp
  ultimately show ?thesis using st n by simp
qed

section \<open>Hunks\<close>

fun add_lines_loop :: "str list \<Rightarrow> str \<Rightarrow> nat \<Rightarrow> str \<times> nat" where
  "add_lines_loop [] contents parsed_lines = (contents, parsed_lines)"
| "add_lines_loop (add_line # rest) contents parsed_lines =
     (case strip_prefix [plus_char] add_line of
        Some line_to_add \<Rightarrow> add_lines_loop rest (contents @ line_to_add @ [newline]) (parsed_lines + 1)
      | None \<Rightarrow> (contents, parsed_lines))"

text \<open>The \<open>while !remaining_lines.is_empty()\<close> loop over the chunks of an update hunk.\<close>

function update_chunks_loop ::
  "nat \<Rightarrow> str list \<Rightarrow> nat \<Rightarrow> update_file_chunk list
     \<Rightarrow> (update_file_chunk list \<times> nat, parse_error) result" where
  "update_chunks_loop line_number [] parsed_lines chunks = Ok (chunks, parsed_lines)"
| "update_chunks_loop line_number (first # rest) parsed_lines chunks =
     (if trim first = [] then update_chunks_loop line_number rest (parsed_lines + 1) chunks
      else if starts_with [star_char] first then Ok (chunks, parsed_lines)
      else
        (case parse_update_file_chunk (first # rest) (line_number + parsed_lines) (chunks = []) of
           Err e \<Rightarrow> Err e
         | Ok (chunk, chunk_lines) \<Rightarrow>
             update_chunks_loop line_number (drop chunk_lines (first # rest))
               (parsed_lines + chunk_lines) (chunks @ [chunk])))"
  by pat_completeness auto
termination
proof (relation "measure (\<lambda>(ln, ls, n, cs). length ls)", goal_cases)
  case (3 ln first rest n cs res chunk m)
  then have "parse_update_file_chunk (first # rest) (ln + n) (cs = []) = Ok (chunk, m)"
    by simp
  from parse_update_file_chunk_bounds [OF this] show ?case by simp
qed auto

text \<open>
  \<open>parse_one_hunk\<close> is only called on a non-empty slice; the slice is given as its first line and the
  rest, so that \<open>lines[0]\<close> cannot fail.
\<close>

definition parse_one_hunk :: "str \<Rightarrow> str list \<Rightarrow> nat \<Rightarrow> (hunk \<times> nat, parse_error) result" where
  "parse_one_hunk first rest line_number =
     (let first_line = trim first in
      case strip_prefix ADD_FILE_MARKER first_line of
        Some path \<Rightarrow>
          (let (contents, parsed_lines) = add_lines_loop rest [] 1
           in Ok (AddFile path contents, parsed_lines))
      | None \<Rightarrow>
        (case strip_prefix DELETE_FILE_MARKER first_line of
           Some path \<Rightarrow> Ok (DeleteFile path, 1)
         | None \<Rightarrow>
           (case strip_prefix UPDATE_FILE_MARKER first_line of
              Some path \<Rightarrow>
                (let move_path = (case rest of [] \<Rightarrow> None | x # _ \<Rightarrow> strip_prefix MOVE_TO_MARKER x);
                     remaining_lines = (if move_path \<noteq> None then tl rest else rest);
                     parsed_lines = (if move_path \<noteq> None then 2 else 1)
                 in result_bind (update_chunks_loop line_number remaining_lines parsed_lines [])
                      (\<lambda>(chunks, parsed_lines).
                         if chunks = []
                         then Err (InvalidHunkError (empty_update_message path) line_number)
                         else Ok (UpdateFile path move_path chunks, parsed_lines)))
            | None \<Rightarrow> Err (InvalidHunkError (invalid_header_message first_line) line_number))))"

lemma add_lines_loop_bounds:
  "add_lines_loop ls c n = (c', m) \<Longrightarrow> n \<le> m \<and> m \<le> n + length ls"
  by (induction ls c n rule: add_lines_loop.induct) (fastforce split: option.splits)+

lemma update_chunks_loop_bounds:
  "update_chunks_loop ln ls n cs = Ok (cs', m) \<Longrightarrow> n \<le> m \<and> m \<le> n + length ls"
proof (induction ln ls n cs arbitrary: cs' m rule: update_chunks_loop.induct)
  case (2 ln first rest n cs)
  show ?case
  proof (cases "trim first = [] \<or> starts_with [star_char] first")
    case True
    then show ?thesis using 2 by (force split: if_splits)
  next
    case False
    with 2(3) obtain ch k where
        ch: "parse_update_file_chunk (first # rest) (ln + n) (cs = []) = Ok (ch, k)" and
        rec: "update_chunks_loop ln (drop k (first # rest)) (n + k) (cs @ [ch]) = Ok (cs', m)"
      by (auto split: result.splits if_splits)
    from parse_update_file_chunk_bounds [OF ch] have k: "0 < k" "k \<le> length (first # rest)" by auto
    have "n + k \<le> m \<and> m \<le> n + k + length (drop k (first # rest))"
      using 2(2) [OF _ _ ch] False rec by blast
    then show ?thesis using k by simp
  qed
qed auto

lemma parse_one_hunk_cases:
  assumes "parse_one_hunk first rest ln = Ok (h, n)"
  obtains (add) path contents where "h = AddFile path contents" "add_lines_loop rest [] 1 = (contents, n)"
    | (delete) path where "h = DeleteFile path" "n = 1"
    | (update) path move_path remaining k chunks where "h = UpdateFile path move_path chunks"
        "chunks \<noteq> []" "update_chunks_loop ln remaining k [] = Ok (chunks, n)"
        "0 < k" "k + length remaining = length (first # rest)"
proof (cases "strip_prefix ADD_FILE_MARKER (trim first)")
  case (Some path)
  with assms show ?thesis
    by (intro add [of path "fst (add_lines_loop rest [] 1)"])
      (auto simp: parse_one_hunk_def split: prod.splits)
next
  case no_add: None
  show ?thesis
  proof (cases "strip_prefix DELETE_FILE_MARKER (trim first)")
    case (Some path)
    with no_add assms show ?thesis by (intro delete) (auto simp: parse_one_hunk_def)
  next
    case no_delete: None
    define mv where "mv = (case rest of [] \<Rightarrow> None | x # _ \<Rightarrow> strip_prefix MOVE_TO_MARKER x)"
    define rem where "rem = (if mv \<noteq> None then tl rest else rest)"
    define k where "k = (if mv \<noteq> None then 2 else 1 :: nat)"
    from assms no_add no_delete obtain path chunks where
        "h = UpdateFile path mv chunks" "chunks \<noteq> []" "update_chunks_loop ln rem k [] = Ok (chunks, n)"
      by (auto simp: parse_one_hunk_def Let_def result_simps mv_def [symmetric] rem_def k_def
          split: option.splits if_splits)
    moreover have "k + length rem = length (first # rest)"
      by (cases rest) (auto simp: k_def rem_def mv_def)
    ultimately show ?thesis by (intro update) (auto simp: k_def)
  qed
qed

text \<open>A hunk takes at least its header line and never more lines than there are.\<close>

lemma parse_one_hunk_bounds:
  assumes "parse_one_hunk first rest ln = Ok (h, n)"
  shows "0 < n \<and> n \<le> length (first # rest)"
  using assms
  by (cases rule: parse_one_hunk_cases)
    (force dest: add_lines_loop_bounds update_chunks_loop_bounds)+

function parse_hunks_loop :: "str list \<Rightarrow> nat \<Rightarrow> hunk list \<Rightarrow> (hunk list, parse_error) result" where
  "parse_hunks_loop [] line_number hunks = Ok hunks"
| "parse_hunks_loop (first # rest) line_number hunks =
     (case parse_one_hunk first rest line_number of
        Err e \<Rightarrow> Err e
      | Ok (hunk, hunk_lines) \<Rightarrow>
          parse_hunks_loop (drop hunk_lines (first # rest)) (line_number + hunk_lines) (hunks @ [hunk]))"
  by pat_completeness auto
termination
proof (relation "measure (\<lambda>(ls, ln, hs). length ls)", goal_cases)
  case (2 first rest ln hs res h n)
  then have "parse_one_hunk first rest ln = Ok (h, n)" by simp
  from parse_one_hunk_bounds [OF this] show ?case by simp
qed auto

section \<open>Patches\<close>

definition check_start_and_end_lines_strict ::
  "str option \<Rightarrow> str option \<Rightarrow> (unit, parse_error) result" where
  "check_start_and_end_lines_strict first_line last_line =
     (case (map_option trim first_line, map_option trim last_line) of
        (Some first, Some final) \<Rightarrow>
          if first = BEGIN_PATCH_MARKER \<and> final = END_PATCH_MARKER then Ok ()
          else if first \<noteq> BEGIN_PATCH_MARKER then Err (InvalidPatchError first_line_message)
          else Err (InvalidPatchError last_line_message)
      | (Some first, None) \<Rightarrow>
          if first \<noteq> BEGIN_PATCH_MARKER then Err (InvalidPatchError first_line_message)
          else Err (InvalidPatchError last_line_message)
      | (None, _) \<Rightarrow> Err (InvalidPatchError last_line_message))"

definition check_patch_boundaries_strict ::
  "str list \<Rightarrow> (str list \<times> str list, parse_error) result" where
  "check_patch_boundaries_strict lines =
     (let (first_line, last_line) =
        (case lines of [] \<Rightarrow> (None, None) | first # _ \<Rightarrow> (Some first, Some (last lines)))
      in result_bind (check_start_and_end_lines_strict first_line last_line)
           (\<lambda>_. Ok (lines, take (length lines - 2) (drop 1 lines))))"

definition heredoc_openers :: "str list" where
  [text_eval]: "heredoc_openers =
     [lit ''<<EOF'', lit ''<<'' @ [quote] @ lit ''EOF'' @ [quote], lit ''<<'' @ [34] @ lit ''EOF'' @ [34]]"

definition check_patch_boundaries_lenient ::
  "str list \<Rightarrow> (str list \<times> str list, parse_error) result" where
  "check_patch_boundaries_lenient original_lines =
     (case check_patch_boundaries_strict original_lines of
        Ok lines \<Rightarrow> Ok lines
      | Err original_parse_error \<Rightarrow>
          if length original_lines \<ge> 2
          then
            (if hd original_lines \<in> set heredoc_openers \<and>
                ends_with (lit ''EOF'') (last original_lines) \<and> length original_lines \<ge> 4
             then check_patch_boundaries_strict
                    (take (length original_lines - 2) (drop 1 original_lines))
             else Err original_parse_error)
          else Err original_parse_error)"

definition parse_environment_id_preamble ::
  "str list \<Rightarrow> (str option \<times> str list \<times> nat, parse_error) result" where
  "parse_environment_id_preamble hunk_lines =
     (case hunk_lines of
        [] \<Rightarrow> Ok (None, hunk_lines, 2)
      | first_line # rest \<Rightarrow>
          (case strip_prefix ENVIRONMENT_ID_MARKER (trim_start first_line) of
             None \<Rightarrow> Ok (None, hunk_lines, 2)
           | Some environment_id \<Rightarrow>
               if trim environment_id = []
               then Err (InvalidPatchError (lit ''apply_patch environment_id cannot be empty''))
               else Ok (Some (trim environment_id), rest, 3)))"

definition parse_patch_text :: "str \<Rightarrow> parse_mode \<Rightarrow> (apply_patch_args, parse_error) result" where
  "parse_patch_text patch mode =
     (let lines = str_lines (trim patch) in
      result_bind
        (case mode of
           Strict \<Rightarrow> check_patch_boundaries_strict lines
         | Lenient \<Rightarrow> check_patch_boundaries_lenient lines)
        (\<lambda>(patch_lines, hunk_lines).
           result_bind (parse_environment_id_preamble hunk_lines)
             (\<lambda>(environment_id, remaining_lines, line_number).
                result_bind (parse_hunks_loop remaining_lines line_number [])
                  (\<lambda>hunks. Ok \<lparr>args_patch = join [newline] patch_lines, args_hunks = hunks,
                              args_workdir = None, args_environment_id = environment_id\<rparr>))))"

definition parse_patch :: "str \<Rightarrow> (apply_patch_args, parse_error) result" where
  "parse_patch patch = parse_patch_text patch (if PARSE_IN_STRICT_MODE then Strict else Lenient)"


section \<open>What every parsed patch satisfies\<close>

definition wf_file_name :: "str \<Rightarrow> bool" where
  "wf_file_name p \<longleftrightarrow> p \<noteq> [] \<and> \<not> is_whitespace (last p)"

definition wf_chunk :: "update_file_chunk \<Rightarrow> bool" where
  "wf_chunk c \<longleftrightarrow> old_lines c \<noteq> [] \<or> new_lines c \<noteq> []"

fun wf_hunk :: "hunk \<Rightarrow> bool" where
  "wf_hunk (AddFile path contents) \<longleftrightarrow>
     wf_file_name path \<and> (contents = [] \<or> last contents = newline)"
| "wf_hunk (DeleteFile path) \<longleftrightarrow> wf_file_name path"
| "wf_hunk (UpdateFile path move_path chunks) \<longleftrightarrow>
     wf_file_name path \<and> chunks \<noteq> [] \<and> (\<forall>c\<in>set chunks. wf_chunk c)"

lemma chunk_lines_loop_wf:
  "chunk_lines_loop ln ch n ls = Ok (ch', m) \<Longrightarrow> (0 < n \<longrightarrow> wf_chunk ch) \<Longrightarrow> 0 < m \<Longrightarrow> wf_chunk ch'"
proof (induction ln ch n ls rule: chunk_lines_loop.induct)
  case (2 ln ch n line rest)
  then show ?case
    by (auto simp: wf_chunk_def push_old_def push_new_def split: if_splits list.splits)
qed auto

lemma parse_update_file_chunk_wf:
  assumes "parse_update_file_chunk ls ln b = Ok (ch, n)"
  shows "wf_chunk ch"
proof -
  from assms obtain first rest where ls: "ls = first # rest"
    by (cases ls) (auto simp: parse_update_file_chunk_def)
  from assms obtain ctx start m where st: "start < length ls" and
      loop: "chunk_lines_loop ln
        \<lparr>change_context = ctx, old_lines = [], new_lines = [], is_end_of_file = False\<rparr>
        0 (drop start ls) = Ok (ch, m)"
    by (fastforce simp: parse_update_file_chunk_def ls result_simps not_le split: if_splits)
  have "0 < m" by (rule chunk_lines_loop_progress [OF loop]) (use st in simp)
  with chunk_lines_loop_wf [OF loop] show ?thesis by simp
qed

lemma update_chunks_loop_wf:
  "update_chunks_loop ln ls n cs = Ok (cs', m) \<Longrightarrow> \<forall>c\<in>set cs. wf_chunk c \<Longrightarrow> \<forall>c\<in>set cs'. wf_chunk c"
proof (induction ln ls n cs arbitrary: cs' m rule: update_chunks_loop.induct)
  case (2 ln first rest n cs)
  show ?case
  proof (cases "trim first = [] \<or> starts_with [star_char] first")
    case True
    then show ?thesis using 2 by (force split: if_splits)
  next
    case False
    with 2(3) obtain ch k where
        ch: "parse_update_file_chunk (first # rest) (ln + n) (cs = []) = Ok (ch, k)" and
        rec: "update_chunks_loop ln (drop k (first # rest)) (n + k) (cs @ [ch]) = Ok (cs', m)"
      by (auto split: result.splits if_splits)
    have "\<forall>c\<in>set (cs @ [ch]). wf_chunk c"
      using parse_update_file_chunk_wf [OF ch] 2(4) by simp
    then show ?thesis using 2(2) [OF _ _ ch] False rec by blast
  qed
qed auto

lemma add_lines_loop_wf:
  "add_lines_loop ls c n = (c', m) \<Longrightarrow> c = [] \<or> last c = newline \<Longrightarrow> c' = [] \<or> last c' = newline"
  by (induction ls c n rule: add_lines_loop.induct) (auto split: option.splits)

text \<open>A file name that follows a marker in a trimmed line is not empty, because the marker ends in a space.\<close>

lemma wf_file_name_after_marker:
  assumes "trim l = marker @ p" "marker \<noteq> []" "last marker = space_char"
  shows "wf_file_name p"
proof -
  have "\<not> is_whitespace (last (marker @ p))"
    using trim_last [of l] assms by auto
  moreover have "is_whitespace space_char" by (simp add: is_whitespace_def)
  ultimately show ?thesis using assms by (auto simp: wf_file_name_def last_append split: if_splits)
qed

lemma header_markers:
  "marker \<in> {ADD_FILE_MARKER, DELETE_FILE_MARKER, UPDATE_FILE_MARKER} \<Longrightarrow>
     marker \<noteq> [] \<and> last marker = space_char \<and> hd marker = star_char"
  by (auto simp: text_eval)

lemma parse_one_hunk_name:
  assumes "parse_one_hunk first rest ln = Ok (h, n)"
  shows "wf_file_name (hunk_source_path h)"
proof -
  have "\<exists>marker\<in>{ADD_FILE_MARKER, DELETE_FILE_MARKER, UPDATE_FILE_MARKER}.
      trim first = marker @ hunk_source_path h"
    using assms
    by (auto simp: parse_one_hunk_def Let_def result_simps strip_prefix_Some_iff
        split: option.splits if_splits prod.splits)
  then show ?thesis
    using header_markers wf_file_name_after_marker by blast
qed

lemma parse_one_hunk_wf:
  assumes "parse_one_hunk first rest ln = Ok (h, n)"
  shows "wf_hunk h"
  using parse_one_hunk_name [OF assms] assms
  by (cases rule: parse_one_hunk_cases [OF assms])
    (auto dest: add_lines_loop_wf update_chunks_loop_wf)

lemma parse_hunks_loop_wf:
  "parse_hunks_loop ls ln hs = Ok hs' \<Longrightarrow> \<forall>h\<in>set hs. wf_hunk h \<Longrightarrow> \<forall>h\<in>set hs'. wf_hunk h"
proof (induction ls ln hs rule: parse_hunks_loop.induct)
  case (2 first rest ln hs)
  from 2(2) obtain h n where
      h: "parse_one_hunk first rest ln = Ok (h, n)" and
      rec: "parse_hunks_loop (drop n (first # rest)) (ln + n) (hs @ [h]) = Ok hs'"
    by (auto split: result.splits)
  have "\<forall>h\<in>set (hs @ [h]). wf_hunk h"
    using parse_one_hunk_wf [OF h] 2(3) by simp
  with 2(1) [OF h] rec show ?case by blast
qed auto

lemma parse_patch_hunks_wf:
  assumes "parse_patch patch = Ok args"
  shows "\<forall>h\<in>set (args_hunks args). wf_hunk h"
  using assms parse_hunks_loop_wf
  by (fastforce simp: parse_patch_def parse_patch_text_def Let_def result_simps)

end
