(* ===== verification/Patch_Roundtrip.thy ===== *)
theory Patch_Roundtrip
  imports Patch_Parser
begin

text \<open>
  The textual form of a list of hunks and the proof that \<open>parse_patch\<close> recovers the hunks from it.
  Each loop of the parser gets a lemma saying how it consumes the lines printed for one construct.
\<close>

section \<open>Printing\<close>

definition render_chunk :: "update_file_chunk \<Rightarrow> str list" where
  "render_chunk c =
     (case change_context c of
        None \<Rightarrow> [EMPTY_CHANGE_CONTEXT_MARKER] | Some ctx \<Rightarrow> [CHANGE_CONTEXT_MARKER @ ctx]) @
     map (Cons minus_char) (old_lines c) @ map (Cons plus_char) (new_lines c) @
     (if is_end_of_file c then [EOF_MARKER] else [])"

fun render_hunk :: "hunk \<Rightarrow> str list" where
  "render_hunk (AddFile path contents) =
     (ADD_FILE_MARKER @ path) # map (Cons plus_char) (butlast (split_on newline contents))"
| "render_hunk (DeleteFile path) = [DELETE_FILE_MARKER @ path]"
| "render_hunk (UpdateFile path move_path chunks) =
     (UPDATE_FILE_MARKER @ path) #
     (case move_path of None \<Rightarrow> [] | Some dest \<Rightarrow> [MOVE_TO_MARKER @ dest]) @
     concat (map render_chunk chunks)"

definition render_patch_lines :: "str option \<Rightarrow> hunk list \<Rightarrow> str list" where
  "render_patch_lines env hs =
     [BEGIN_PATCH_MARKER] @ (case env of None \<Rightarrow> [] | Some e \<Rightarrow> [ENVIRONMENT_ID_MARKER @ e]) @
     concat (map render_hunk hs) @ [END_PATCH_MARKER]"

definition render_patch :: "str option \<Rightarrow> hunk list \<Rightarrow> str" where
  "render_patch env hs = join [newline] (render_patch_lines env hs)"

text \<open>Hunks whose text contains no line break inside a line.\<close>

definition printable_chunk :: "update_file_chunk \<Rightarrow> bool" where
  "printable_chunk c \<longleftrightarrow> wf_chunk c \<and>
     (\<forall>ctx. change_context c = Some ctx \<longrightarrow> plain_line ctx) \<and>
     (\<forall>l\<in>set (old_lines c @ new_lines c). plain_line l)"

fun printable_hunk :: "hunk \<Rightarrow> bool" where
  "printable_hunk (AddFile path contents) \<longleftrightarrow> wf_hunk (AddFile path contents) \<and> newline \<notin> set path \<and>
     (\<forall>l\<in>set (split_on newline contents). plain_line l)"
| "printable_hunk (DeleteFile path) \<longleftrightarrow> wf_hunk (DeleteFile path) \<and> newline \<notin> set path"
| "printable_hunk (UpdateFile path move_path chunks) \<longleftrightarrow>
     wf_hunk (UpdateFile path move_path chunks) \<and> newline \<notin> set path \<and>
     (\<forall>dest. move_path = Some dest \<longrightarrow> plain_line dest) \<and> (\<forall>c\<in>set chunks. printable_chunk c)"

definition printable_environment :: "str option \<Rightarrow> bool" where
  "printable_environment env \<longleftrightarrow>
     (\<forall>e. env = Some e \<longrightarrow> e \<noteq> [] \<and> trim e = e \<and> newline \<notin> set e)"

section \<open>Chunks\<close>

text \<open>The lines at which a chunk ends: the end of input, the next chunk or the next marker.\<close>

definition ends_chunk :: "str list \<Rightarrow> bool" where
  "ends_chunk rest \<longleftrightarrow>
     rest = [] \<or> (hd rest \<noteq> [] \<and> hd (hd rest) \<in> {star_char, 64} \<and> hd rest \<noteq> EOF_MARKER)"

lemma chunk_loop_old:
  "chunk_lines_loop ln c n (map (Cons minus_char) xs @ rest) =
     chunk_lines_loop ln (c\<lparr>old_lines := old_lines c @ xs\<rparr>) (n + length xs) rest"
proof (induction xs arbitrary: c n)
  case (Cons x xs)
  have "minus_char # x \<noteq> EOF_MARKER" by (simp add: text_eval)
  then show ?case using Cons.IH by (simp add: push_old_def)
qed simp

lemma chunk_loop_new:
  "chunk_lines_loop ln c n (map (Cons plus_char) xs @ rest) =
     chunk_lines_loop ln (c\<lparr>new_lines := new_lines c @ xs\<rparr>) (n + length xs) rest"
proof (induction xs arbitrary: c n)
  case (Cons x xs)
  have "plus_char # x \<noteq> EOF_MARKER" by (simp add: text_eval)
  then show ?case using Cons.IH by (simp add: push_new_def)
qed simp

lemma chunk_loop_end:
  "ends_chunk rest \<Longrightarrow> 0 < n \<Longrightarrow> chunk_lines_loop ln c n rest = Ok (c, n)"
  by (cases rest; cases "hd rest") (auto simp: ends_chunk_def)

lemma chunk_loop_eof:
  "0 < n \<Longrightarrow> chunk_lines_loop ln c n (EOF_MARKER # rest) = Ok (c\<lparr>is_end_of_file := True\<rparr>, n + 1)"
  by simp

lemma chunk_header_render:
  "chunk_header (hd (render_chunk c)) ln b = Ok (change_context c, 1)"
proof (cases "change_context c")
  case None
  then show ?thesis by (simp add: chunk_header_def render_chunk_def)
next
  case (Some ctx)
  have "CHANGE_CONTEXT_MARKER @ ctx \<noteq> EMPTY_CHANGE_CONTEXT_MARKER" by (simp add: text_eval)
  then show ?thesis using Some by (simp add: chunk_header_def render_chunk_def)
qed

lemma chunk_eta:
  "\<lparr>change_context = change_context c, old_lines = old_lines c, new_lines = new_lines c,
     is_end_of_file = False\<rparr> = c\<lparr>is_end_of_file := False\<rparr>"
  by (cases c) simp

lemma parse_render_chunk:
  assumes "wf_chunk c" "ends_chunk rest"
  shows "parse_update_file_chunk (render_chunk c @ rest) ln b = Ok (c, length (render_chunk c))"
proof -
  define k where "k = length (old_lines c) + length (new_lines c)"
  define tail where "tail = (if is_end_of_file c then [EOF_MARKER] else []) @ rest"
  define body where
    "body = map (Cons minus_char) (old_lines c) @ map (Cons plus_char) (new_lines c) @ tail"
  obtain first where lines: "render_chunk c @ rest = first # body"
      and first: "first = hd (render_chunk c)"
    by (cases "change_context c") (auto simp: render_chunk_def body_def tail_def)
  have k: "0 < k" using assms(1) by (auto simp: k_def wf_chunk_def)
  have "chunk_lines_loop ln
      \<lparr>change_context = change_context c, old_lines = [], new_lines = [], is_end_of_file = False\<rparr> 0 body
    = chunk_lines_loop ln (c\<lparr>is_end_of_file := False\<rparr>) k tail"
    by (simp add: body_def chunk_loop_old chunk_loop_new k_def chunk_eta)
  also have "\<dots> = Ok (c, k + (if is_end_of_file c then 1 else 0))"
    using k assms(2) by (simp add: tail_def chunk_loop_end chunk_loop_eof)
  finally have loop: "chunk_lines_loop ln
      \<lparr>change_context = change_context c, old_lines = [], new_lines = [], is_end_of_file = False\<rparr> 0 body
    = Ok (c, k + (if is_end_of_file c then 1 else 0))" .
  have "body \<noteq> []" using k by (auto simp: body_def k_def)
  moreover have "length (render_chunk c) = k + (if is_end_of_file c then 1 else 0) + 1"
    by (cases "change_context c") (auto simp: render_chunk_def k_def)
  ultimately show ?thesis
    using loop chunk_header_render [of c ln b]
    by (simp add: parse_update_file_chunk_def lines first [symmetric] Suc_le_eq)
qed

lemma render_chunk_start:
  obtains txt1 ls where "render_chunk c = (64 # txt1) # ls" "64 # txt1 \<noteq> EOF_MARKER"
proof (cases "change_context c")
  case None
  then show ?thesis by (intro that [of "[64]"]) (auto simp: render_chunk_def text_eval)
next
  case (Some ctx)
  then show ?thesis by (intro that [of "64 # 32 # ctx"]) (auto simp: render_chunk_def text_eval)
qed

lemma trim_nonblank: "\<not> is_whitespace (hd l) \<Longrightarrow> l \<noteq> [] \<Longrightarrow> trim l \<noteq> []"
  by (cases l) (auto simp: trim_def trim_start_def trim_end_def dropWhile_eq_Nil_conv)

text \<open>The lines at which an update hunk ends.\<close>

definition ends_hunk :: "str list \<Rightarrow> bool" where
  "ends_hunk rest \<longleftrightarrow> rest = [] \<or> (hd rest \<noteq> [] \<and> hd (hd rest) = star_char \<and> hd rest \<noteq> EOF_MARKER)"

lemma ends_hunk_chunk: "ends_hunk rest \<Longrightarrow> ends_chunk rest"
  by (auto simp: ends_hunk_def ends_chunk_def)

lemma ends_chunk_chunks: "ends_hunk rest \<Longrightarrow> ends_chunk (concat (map render_chunk cs) @ rest)"
proof (cases cs)
  case (Cons c cs')
  obtain txt1 ls where "render_chunk c = (64 # txt1) # ls" "64 # txt1 \<noteq> EOF_MARKER"
    by (rule render_chunk_start)
  then show ?thesis by (simp add: Cons ends_chunk_def)
qed (simp add: ends_hunk_chunk)

lemma update_loop_end:
  "ends_hunk rest \<Longrightarrow> update_chunks_loop ln rest n cs = Ok (cs, n)"
proof (cases rest)
  case (Cons l ls)
  assume "ends_hunk rest"
  then obtain t where l: "l = star_char # t" using Cons by (cases l) (auto simp: ends_hunk_def)
  have "trim l \<noteq> []" by (rule trim_nonblank) (auto simp: l is_whitespace_def)
  then show ?thesis by (simp add: Cons) (simp add: l starts_with_def)
qed simp

lemma update_loop_chunks:
  assumes "ends_hunk rest"
  shows "\<forall>c\<in>set cs. wf_chunk c \<Longrightarrow>
     update_chunks_loop ln (concat (map render_chunk cs) @ rest) n acc =
       Ok (acc @ cs, n + length (concat (map render_chunk cs)))"
proof (induction cs arbitrary: n acc)
  case Nil
  then show ?case using update_loop_end [OF assms] by simp
next
  case (Cons c cs)
  define tail where "tail = concat (map render_chunk cs) @ rest"
  obtain txt1 ls where r: "render_chunk c = (64 # txt1) # ls" by (rule render_chunk_start)
  have "trim (64 # txt1) \<noteq> []" by (rule trim_nonblank) (auto simp: is_whitespace_def)
  moreover have "\<not> starts_with [star_char] (64 # txt1)" by (simp add: starts_with_def)
  moreover have "parse_update_file_chunk ((64 # txt1) # (ls @ tail)) (ln + n) (acc = [])
      = Ok (c, length (render_chunk c))"
    using parse_render_chunk [of c tail "ln + n" "acc = []"] ends_chunk_chunks [OF assms, of cs]
      Cons.prems by (simp add: tail_def r)
  moreover have "drop (length (render_chunk c)) ((64 # txt1) # (ls @ tail)) = tail"
    by (simp add: r)
  ultimately have "update_chunks_loop ln (render_chunk c @ tail) n acc
      = update_chunks_loop ln tail (n + length (render_chunk c)) (acc @ [c])"
    by (simp add: r)
  then show ?case using Cons.IH Cons.prems by (simp add: tail_def add.assoc)
qed

section \<open>Hunks\<close>

lemma add_loop_render:
  assumes "rest = [] \<or> (hd rest \<noteq> [] \<and> hd (hd rest) \<noteq> plus_char)"
  shows "add_lines_loop (map (Cons plus_char) ls @ rest) c n =
     (c @ concat (map (\<lambda>l. l @ [newline]) ls), n + length ls)"
proof (induction ls arbitrary: c n)
  case Nil
  show ?case
    using assms by (cases rest; cases "hd rest") auto
qed simp

lemma concat_butlast_split:
  assumes "s = [] \<or> last s = d"
  shows "concat (map (\<lambda>l. l @ [d]) (butlast (split_on d s))) = s"
  using assms
proof (induction s)
  case (Cons c cs)
  show ?case
  proof (cases cs)
    case Nil
    then show ?thesis using Cons.prems by auto
  next
    case (Cons b bs)
    then have IH: "concat (map (\<lambda>l. l @ [d]) (butlast (split_on d cs))) = cs"
      using Cons.IH \<open>c # cs = [] \<or> last (c # cs) = d\<close> by auto
    obtain w ws where w: "split_on d cs = w # ws" by (cases "split_on d cs") auto
    have "ws \<noteq> []"
    proof
      assume "ws = []"
      then show False using IH w Cons by simp
    qed
    then show ?thesis using IH w by auto
  qed
qed simp

lemma trim_header:
  assumes "marker \<in> {ADD_FILE_MARKER, DELETE_FILE_MARKER, UPDATE_FILE_MARKER}" "wf_file_name p"
  shows "trim (marker @ p) = marker @ p"
proof (rule trim_fix)
  show "marker @ p \<noteq> []" using assms(2) by (simp add: wf_file_name_def)
  have "hd (marker @ p) = star_char" using header_markers [OF assms(1)] by (cases marker) auto
  then show "\<not> is_whitespace (hd (marker @ p))" by (simp add: is_whitespace_def)
  show "\<not> is_whitespace (last (marker @ p))" using assms(2) by (simp add: wf_file_name_def)
qed

lemma header_dispatch:
  "strip_prefix ADD_FILE_MARKER (DELETE_FILE_MARKER @ p) = None"
  "strip_prefix ADD_FILE_MARKER (UPDATE_FILE_MARKER @ p) = None"
  "strip_prefix DELETE_FILE_MARKER (UPDATE_FILE_MARKER @ p) = None"
  by (simp_all add: text_eval)

lemma ends_hunk_render:
  "ends_hunk rest \<Longrightarrow> ends_hunk (concat (map render_hunk hs) @ rest)"
proof (cases hs)
  case (Cons h hs')
  then show ?thesis
    by (cases h) (auto simp: ends_hunk_def text_eval)
qed simp

lemma render_move_lines:
  assumes "\<forall>c\<in>set chunks. wf_chunk c" "chunks \<noteq> []"
  shows "(case concat (map render_chunk chunks) @ rest of
            [] \<Rightarrow> None | x # _ \<Rightarrow> strip_prefix MOVE_TO_MARKER x) = None"
proof -
  obtain c cs where c: "chunks = c # cs" using assms(2) by (cases chunks) auto
  obtain txt1 ls where "render_chunk c = (64 # txt1) # ls" by (rule render_chunk_start)
  then show ?thesis by (simp add: c text_eval)
qed

lemma parse_render_hunk:
  assumes "wf_hunk h" "ends_hunk rest" "rest = [] \<or> hd (hd rest) \<noteq> plus_char"
  shows "parse_one_hunk (hd (render_hunk h)) (tl (render_hunk h) @ rest) ln =
           Ok (h, length (render_hunk h))"
proof (cases h)
  case (AddFile path contents)
  have "add_lines_loop (map (Cons plus_char) (butlast (split_on newline contents)) @ rest) [] 1 =
      (contents, 1 + length (butlast (split_on newline contents)))"
    using assms AddFile
    by (subst add_loop_render) (auto simp: ends_hunk_def concat_butlast_split)
  then show ?thesis
    using assms(1) AddFile trim_header [of ADD_FILE_MARKER path]
    by (simp add: parse_one_hunk_def)
next
  case (DeleteFile path)
  then show ?thesis
    using assms(1) trim_header [of DELETE_FILE_MARKER path]
    by (simp add: parse_one_hunk_def header_dispatch)
next
  case (UpdateFile path move_path chunks)
  have wf: "wf_file_name path" "chunks \<noteq> []" "\<forall>c\<in>set chunks. wf_chunk c"
    using assms(1) UpdateFile by auto
  show ?thesis
    using UpdateFile wf trim_header [of UPDATE_FILE_MARKER path] render_move_lines [OF wf(3,2), of rest]
      update_loop_chunks [OF assms(2) wf(3), of ln "if move_path = None then 1 else 2" "[]"]
    by (cases move_path) (simp_all add: parse_one_hunk_def header_dispatch Let_def)
qed

lemma parse_render_hunks:
  assumes "\<forall>h\<in>set hs. wf_hunk h"
  shows "parse_hunks_loop (concat (map render_hunk hs)) ln acc = Ok (acc @ hs)"
  using assms
proof (induction hs arbitrary: ln acc)
  case (Cons h hs)
  let ?rest = "concat (map render_hunk hs)"
  have end1: "ends_hunk ?rest" using ends_hunk_render [of "[]" hs] by (simp add: ends_hunk_def)
  then have end2: "?rest = [] \<or> hd (hd ?rest) \<noteq> plus_char" by (auto simp: ends_hunk_def)
  obtain first tail where h: "render_hunk h = first # tail" by (cases h) auto
  have "parse_one_hunk first (tail @ ?rest) ln = Ok (h, length (render_hunk h))"
    using parse_render_hunk [OF _ end1 end2, of h ln] Cons.prems h by simp
  then show ?case using Cons.IH Cons.prems h by simp
qed simp

section \<open>The whole patch\<close>

lemma printable_hunk_wf: "printable_hunk h \<Longrightarrow> wf_hunk h"
  by (cases h) auto

lemma plain_append: "newline \<notin> set m \<Longrightarrow> plain_line l \<Longrightarrow> l \<noteq> [] \<Longrightarrow> plain_line (m @ l)"
  by (simp add: plain_line_def)

lemma plain_file_name: "wf_file_name p \<Longrightarrow> newline \<notin> set p \<Longrightarrow> plain_line p \<and> p \<noteq> []"
  by (auto simp: wf_file_name_def plain_line_def is_whitespace_def)

lemma plain_Cons: "plain_line l \<Longrightarrow> c \<noteq> newline \<Longrightarrow> c \<noteq> carriage_return \<Longrightarrow> plain_line (c # l)"
  by (auto simp: plain_line_def)

lemma plain_marker_append:
  "marker \<in> {CHANGE_CONTEXT_MARKER, MOVE_TO_MARKER} \<Longrightarrow> plain_line l \<Longrightarrow> plain_line (marker @ l)"
  by (auto simp: plain_line_def text_eval split: if_splits)

lemma plain_render_chunk: "printable_chunk c \<Longrightarrow> l \<in> set (render_chunk c) \<Longrightarrow> plain_line l"
proof -
  assume c: "printable_chunk c" and l: "l \<in> set (render_chunk c)"
  have "plain_line EMPTY_CHANGE_CONTEXT_MARKER" "plain_line EOF_MARKER"
    by (auto simp: plain_line_def text_eval)
  then show ?thesis
    using c l
    by (auto simp: render_chunk_def printable_chunk_def plain_Cons plain_marker_append
        split: option.splits if_splits)
qed

lemma plain_render_hunk: "printable_hunk h \<Longrightarrow> l \<in> set (render_hunk h) \<Longrightarrow> plain_line l"
proof -
  assume h: "printable_hunk h" and l: "l \<in> set (render_hunk h)"
  have "newline \<notin> set ADD_FILE_MARKER" "newline \<notin> set DELETE_FILE_MARKER" "newline \<notin> set UPDATE_FILE_MARKER"
    by (auto simp: text_eval)
  then show ?thesis
    using h l plain_file_name
    by (cases h)
      (auto simp: plain_append plain_Cons plain_marker_append plain_render_chunk
        split: option.splits dest: in_set_butlastD)
qed

lemma render_patch_lines_plain:
  assumes "printable_environment env" "\<forall>h\<in>set hs. printable_hunk h" "l \<in> set (render_patch_lines env hs)"
  shows "plain_line l"
proof -
  have "plain_line BEGIN_PATCH_MARKER" "plain_line END_PATCH_MARKER" "newline \<notin> set ENVIRONMENT_ID_MARKER"
    by (auto simp: plain_line_def text_eval)
  moreover have "plain_line e \<and> e \<noteq> []" if "env = Some e" for e
  proof -
    have "\<not> is_whitespace (last e)"
      using trim_last [of e] assms(1) that by (auto simp: printable_environment_def)
    then show ?thesis
      using assms(1) that plain_file_name [of e] by (auto simp: printable_environment_def wf_file_name_def)
  qed
  ultimately show ?thesis
    using assms(2,3) plain_render_hunk
    by (auto simp: render_patch_lines_def plain_append split: option.splits)
qed

lemma trim_render_patch: "trim (render_patch env hs) = render_patch env hs"
proof -
  define mid where "mid = (case env of None \<Rightarrow> [] | Some e \<Rightarrow> [ENVIRONMENT_ID_MARKER @ e]) @
     concat (map render_hunk hs) @ [END_PATCH_MARKER]"
  have "mid \<noteq> []" by (simp add: mid_def)
  then have r: "render_patch env hs = BEGIN_PATCH_MARKER @ newline # join [newline] mid"
    by (simp add: render_patch_def render_patch_lines_def mid_def [symmetric] join_Cons)
  have "join [newline] (xs @ [l]) \<noteq> [] \<and> last (join [newline] (xs @ [l])) = last l"
    if "l \<noteq> []" for xs :: "str list" and l
    using that by (induction xs) (auto simp: join_Cons)
  from this [of END_PATCH_MARKER] have
    "last (join [newline] mid) = last END_PATCH_MARKER" "join [newline] mid \<noteq> []"
    by (auto simp: mid_def END_PATCH_MARKER_def simp flip: append_assoc)
  then show ?thesis
    by (intro trim_fix) (auto simp: r text_eval)
qed

lemma check_boundaries_render:
  "check_patch_boundaries_lenient (BEGIN_PATCH_MARKER # mid @ [END_PATCH_MARKER]) =
     Ok (BEGIN_PATCH_MARKER # mid @ [END_PATCH_MARKER], mid)"
proof -
  have "trim BEGIN_PATCH_MARKER = BEGIN_PATCH_MARKER" "trim END_PATCH_MARKER = END_PATCH_MARKER"
    by (auto intro!: trim_fix simp: text_eval)
  then show ?thesis
    by (simp add: check_patch_boundaries_lenient_def check_patch_boundaries_strict_def
        check_start_and_end_lines_strict_def)
qed

lemma preamble_render:
  assumes "printable_environment env"
  shows "parse_environment_id_preamble
      ((case env of None \<Rightarrow> [] | Some e \<Rightarrow> [ENVIRONMENT_ID_MARKER @ e]) @ concat (map render_hunk hs)) =
    Ok (env, concat (map render_hunk hs), if env = None then 2 else 3)"
proof (cases env)
  case None
  show ?thesis
  proof (cases hs)
    case (Cons h hs')
    then show ?thesis using None
      by (cases h) (auto simp: parse_environment_id_preamble_def text_eval)
  qed (simp add: None parse_environment_id_preamble_def)
next
  case (Some e)
  have "trim_start (ENVIRONMENT_ID_MARKER @ e) = ENVIRONMENT_ID_MARKER @ e"
    by (simp add: text_eval)
  then show ?thesis
    using assms Some by (auto simp: parse_environment_id_preamble_def printable_environment_def)
qed

lemma parse_render_patch_aux:
  assumes "printable_environment env" and "\<forall>h\<in>set hs. printable_hunk h"
  shows "parse_patch (render_patch env hs) =
           Ok \<lparr>args_patch = render_patch env hs, args_hunks = hs, args_workdir = None,
               args_environment_id = env\<rparr>"
proof -
  have "last (render_patch_lines env hs) \<noteq> []"
    by (simp add: render_patch_lines_def text_eval)
  then have lines: "str_lines (render_patch env hs) = render_patch_lines env hs"
    unfolding render_patch_def using render_patch_lines_plain [OF assms]
    by (intro lines_join) (auto simp: render_patch_lines_def)
  have wf: "\<forall>h\<in>set hs. wf_hunk h"
    using assms(2) printable_hunk_wf by blast
  define mid where
    "mid = (case env of None \<Rightarrow> [] | Some e \<Rightarrow> [ENVIRONMENT_ID_MARKER @ e]) @ concat (map render_hunk hs)"
  have "render_patch_lines env hs = BEGIN_PATCH_MARKER # mid @ [END_PATCH_MARKER]"
    by (simp add: render_patch_lines_def mid_def)
  then show ?thesis
    using check_boundaries_render [of mid] preamble_render [OF assms(1), of hs] parse_render_hunks [OF wf]
    by (simp add: parse_patch_def PARSE_IN_STRICT_MODE_def parse_patch_text_def trim_render_patch
        lines mid_def [symmetric]) (simp add: render_patch_def)
qed

text \<open>
  C1: parsing inverts printing: for any optional environment id and any list of well-formed hunks whose
  lines contain no line breaks, \<open>parse_patch\<close> accepts the printed patch and returns exactly these
  hunks, this environment id and the patch text itself.
\<close>

theorem parse_render_patch:
  assumes "printable_environment env" and "\<forall>h\<in>set hs. printable_hunk h"
  shows "parse_patch (render_patch env hs) =
           Ok \<lparr>args_patch = render_patch env hs, args_hunks = hs, args_workdir = None,
               args_environment_id = env\<rparr>"
  using assms by (rule parse_render_patch_aux)

definition sample_hunks :: "hunk list" where
  "sample_hunks =
     [AddFile (lit ''a.txt'') (lit ''hi'' @ [newline]),
      UpdateFile (lit ''b.txt'') (Some (lit ''c.txt''))
        [\<lparr>change_context = Some (lit ''fn main''), old_lines = [lit ''x''], new_lines = [lit ''y'', []],
          is_end_of_file = True\<rparr>],
      DeleteFile (lit ''d.txt'')]"

lemma sample_hunks_printable:
  "printable_environment (Some (lit ''env''))" "\<forall>h\<in>set sample_hunks. printable_hunk h"
  by (simp_all add: printable_environment_def sample_hunks_def printable_chunk_def wf_chunk_def
      wf_file_name_def plain_line_def text_eval)

theorem parse_render_patch_witness:
  "printable_environment (Some (lit ''env'')) \<and> list_all printable_hunk sample_hunks \<and>
   parse_patch (render_patch (Some (lit ''env'')) sample_hunks) =
     Ok \<lparr>args_patch = render_patch (Some (lit ''env'')) sample_hunks, args_hunks = sample_hunks,
         args_workdir = None, args_environment_id = Some (lit ''env'')\<rparr>"
  using parse_render_patch [OF sample_hunks_printable] sample_hunks_printable
  by (simp add: list_all_iff)

text \<open>
  every hunk of an accepted patch is well formed: file names are non-empty and do not end in white
  space, an added file is empty or ends with a newline, and an update has at least one chunk, each of
  which removes or adds at least one line.
\<close>

theorem parse_patch_wf:
  assumes "parse_patch patch = Ok args"
  shows "\<forall>h\<in>set (args_hunks args). wf_hunk h"
  using assms by (rule parse_patch_hunks_wf)

theorem parse_patch_wf_witness:
  "is_ok (parse_patch (render_patch (Some (lit ''env'')) sample_hunks)) \<and> list_all wf_hunk sample_hunks"
  using parse_patch_wf [OF parse_render_patch_aux [OF sample_hunks_printable]]
    parse_render_patch_aux [OF sample_hunks_printable]
  by (simp add: list_all_iff)

end
