(* ===== verification/Streaming_Parser.thy ===== *)
theory Streaming_Parser
  imports Patch_Roundtrip
begin

text \<open>
  Model of \<^verbatim>\<open>apply-patch/src/streaming_parser.rs\<close>, the incremental parser behind the live patch preview.
  The parser is a record; \<open>push_delta\<close> and \<open>finish\<close> return the parser after the call next to their
  result, because a failed call keeps its effect on the line buffer and the line counter.
  \<open>process_line\<close> and \<open>handle_hunk_headers_and_end_patch\<close> change nothing when they fail.
\<close>

section \<open>Definitions\<close>

datatype streaming_parser_mode =
    NotStarted
  | StartedPatch
  | AddFileMode
  | DeleteFileMode
  | UpdateFileMode nat
  | EndedPatch

record streaming_parser_state =
  st_mode :: streaming_parser_mode
  st_hunks :: "hunk list"

record streaming_patch_parser =
  sp_line_buffer :: str
  sp_state :: streaming_parser_state
  sp_line_number :: nat

definition streaming_default :: streaming_patch_parser where
  "streaming_default =
     \<lparr>sp_line_buffer = [], sp_state = \<lparr>st_mode = NotStarted, st_hunks = []\<rparr>, sp_line_number = 0\<rparr>"

abbreviation sp_mode :: "streaming_patch_parser \<Rightarrow> streaming_parser_mode" where
  "sp_mode p \<equiv> st_mode (sp_state p)"

abbreviation sp_hunks :: "streaming_patch_parser \<Rightarrow> hunk list" where
  "sp_hunks p \<equiv> st_hunks (sp_state p)"

definition set_mode :: "streaming_parser_mode \<Rightarrow> streaming_patch_parser \<Rightarrow> streaming_patch_parser" where
  "set_mode m p = p\<lparr>sp_state := (sp_state p)\<lparr>st_mode := m\<rparr>\<rparr>"

definition push_hunk :: "hunk \<Rightarrow> streaming_patch_parser \<Rightarrow> streaming_patch_parser" where
  "push_hunk h p = p\<lparr>sp_state := (sp_state p)\<lparr>st_hunks := sp_hunks p @ [h]\<rparr>\<rparr>"

definition set_last_hunk :: "hunk \<Rightarrow> streaming_patch_parser \<Rightarrow> streaming_patch_parser" where
  "set_last_hunk h p = p\<lparr>sp_state := (sp_state p)\<lparr>st_hunks := butlast (sp_hunks p) @ [h]\<rparr>\<rparr>"

definition last_hunk :: "streaming_patch_parser \<Rightarrow> hunk option" where
  "last_hunk p = (if sp_hunks p = [] then None else Some (last (sp_hunks p)))"

definition is_environment_id_preamble_line :: "str \<Rightarrow> bool" where
  "is_environment_id_preamble_line line \<longleftrightarrow> starts_with ENVIRONMENT_ID_MARKER line"

text \<open>\<open>chunks.last().is_some_and(|c| c.old_lines.is_empty() && c.new_lines.is_empty())\<close>\<close>

definition last_chunk_empty :: "update_file_chunk list \<Rightarrow> bool" where
  "last_chunk_empty chunks \<longleftrightarrow>
     chunks \<noteq> [] \<and> old_lines (last chunks) = [] \<and> new_lines (last chunks) = []"

definition ensure_update_hunk_is_not_empty :: "streaming_patch_parser \<Rightarrow> str \<Rightarrow> (unit, parse_error) result" where
  "ensure_update_hunk_is_not_empty p line =
     (case last_hunk p of
        Some (UpdateFile path move_path chunks) \<Rightarrow>
          (case (chunks, sp_mode p) of
             ([], UpdateFileMode hunk_line_number) \<Rightarrow>
               Err (InvalidHunkError (empty_update_message path) hunk_line_number)
           | _ \<Rightarrow>
               if last_chunk_empty chunks then
                 if line = END_PATCH_MARKER
                 then Err (InvalidHunkError no_lines_message (sp_line_number p))
                 else Err (InvalidHunkError (unexpected_line_message line) (sp_line_number p))
               else Ok ())
      | _ \<Rightarrow> Ok ())"

text \<open>\<open>Some p\<close> stands for \<open>true\<close> with the updated parser, \<open>None\<close> for \<open>false\<close>.\<close>

definition handle_hunk_headers_and_end_patch ::
  "streaming_patch_parser \<Rightarrow> str \<Rightarrow> (streaming_patch_parser option, parse_error) result" where
  "handle_hunk_headers_and_end_patch p trimmed =
     (if trimmed = END_PATCH_MARKER then
        result_bind (ensure_update_hunk_is_not_empty p trimmed) (\<lambda>_. Ok (Some (set_mode EndedPatch p)))
      else case strip_prefix ADD_FILE_MARKER trimmed of
        Some path \<Rightarrow>
          result_bind (ensure_update_hunk_is_not_empty p trimmed)
            (\<lambda>_. Ok (Some (set_mode AddFileMode (push_hunk (AddFile path []) p))))
      | None \<Rightarrow>
      case strip_prefix DELETE_FILE_MARKER trimmed of
        Some path \<Rightarrow>
          result_bind (ensure_update_hunk_is_not_empty p trimmed)
            (\<lambda>_. Ok (Some (set_mode DeleteFileMode (push_hunk (DeleteFile path) p))))
      | None \<Rightarrow>
      case strip_prefix UPDATE_FILE_MARKER trimmed of
        Some path \<Rightarrow>
          result_bind (ensure_update_hunk_is_not_empty p trimmed)
            (\<lambda>_. Ok (Some (set_mode (UpdateFileMode (sp_line_number p))
                       (push_hunk (UpdateFile path None []) p))))
      | None \<Rightarrow> Ok None)"

definition empty_chunk :: "str option \<Rightarrow> update_file_chunk" where
  "empty_chunk ctx = \<lparr>change_context = ctx, old_lines = [], new_lines = [], is_end_of_file = False\<rparr>"

text \<open>\<open>if chunks.is_empty() {push}; if let Some(chunk) = chunks.last_mut() {...}\<close>\<close>

definition update_last_chunk ::
  "(update_file_chunk \<Rightarrow> update_file_chunk) \<Rightarrow> update_file_chunk list \<Rightarrow> update_file_chunk list" where
  "update_last_chunk f chunks =
     (let chunks = (if chunks = [] then [empty_chunk None] else chunks)
      in butlast chunks @ [f (last chunks)])"

text \<open>The body of the \<open>UpdateFile\<close> mode on the last hunk: its new move target and chunks.\<close>

definition process_update_line ::
  "str option \<Rightarrow> update_file_chunk list \<Rightarrow> str \<Rightarrow> nat \<Rightarrow>
     (str option \<times> update_file_chunk list, parse_error) result" where
  "process_update_line move_path chunks line line_number =
     (let update_line = trim_end line in
      if chunks = [] \<and> move_path = None \<and> strip_prefix MOVE_TO_MARKER update_line \<noteq> None then
        Ok (strip_prefix MOVE_TO_MARKER update_line, chunks)
      else if (update_line = EMPTY_CHANGE_CONTEXT_MARKER \<or> starts_with CHANGE_CONTEXT_MARKER update_line) \<and>
        last_chunk_empty chunks then
        Err (InvalidHunkError (unexpected_line_message line) line_number)
      else if update_line = EMPTY_CHANGE_CONTEXT_MARKER then
        Ok (move_path, chunks @ [empty_chunk None])
      else case strip_prefix CHANGE_CONTEXT_MARKER update_line of
        Some ctx \<Rightarrow> Ok (move_path, chunks @ [empty_chunk (Some ctx)])
      | None \<Rightarrow>
      if update_line = EOF_MARKER then
        if last_chunk_empty chunks then Err (InvalidHunkError no_lines_message line_number)
        else Ok (move_path,
               if chunks = [] then []
               else butlast chunks @ [(last chunks)\<lparr>is_end_of_file := True\<rparr>])
      else case line of
        [] \<Rightarrow> Ok (move_path, update_last_chunk (push_new [] \<circ> push_old []) chunks)
      | c # rest \<Rightarrow>
          if c = space_char then Ok (move_path, update_last_chunk (push_new rest \<circ> push_old rest) chunks)
          else if c = plus_char then Ok (move_path, update_last_chunk (push_new rest) chunks)
          else if c = minus_char then Ok (move_path, update_last_chunk (push_old rest) chunks)
          else if chunks \<noteq> [] \<and> (old_lines (last chunks) \<noteq> [] \<or> new_lines (last chunks) \<noteq> [])
          then Err (InvalidHunkError (expected_context_message line) line_number)
          else Err (InvalidHunkError (unexpected_line_message line) line_number))"

definition process_line :: "streaming_patch_parser \<Rightarrow> str \<Rightarrow> (streaming_patch_parser, parse_error) result" where
  "process_line p line =
     (let trimmed = trim line;
          invalid = Err (InvalidHunkError (invalid_header_message trimmed) (sp_line_number p)) in
      case sp_mode p of
        NotStarted \<Rightarrow>
          if trimmed = BEGIN_PATCH_MARKER then Ok (set_mode StartedPatch p)
          else Err (InvalidPatchError first_line_message)
      | StartedPatch \<Rightarrow>
          if is_environment_id_preamble_line line then Ok p
          else result_bind (handle_hunk_headers_and_end_patch p trimmed)
                 (\<lambda>handled. case handled of Some p' \<Rightarrow> Ok p' | None \<Rightarrow> invalid)
      | AddFileMode \<Rightarrow>
          result_bind (handle_hunk_headers_and_end_patch p trimmed)
            (\<lambda>handled. case handled of
               Some p' \<Rightarrow> Ok p'
             | None \<Rightarrow>
                 (case (strip_prefix [plus_char] line, last_hunk p) of
                    (Some line_to_add, Some (AddFile path contents)) \<Rightarrow>
                      Ok (set_last_hunk (AddFile path (contents @ line_to_add @ [newline])) p)
                  | _ \<Rightarrow> invalid))
      | DeleteFileMode \<Rightarrow>
          result_bind (handle_hunk_headers_and_end_patch p trimmed)
            (\<lambda>handled. case handled of Some p' \<Rightarrow> Ok p' | None \<Rightarrow> invalid)
      | UpdateFileMode hunk_line_number \<Rightarrow>
          result_bind (handle_hunk_headers_and_end_patch p (trim_end line))
            (\<lambda>handled. case handled of
               Some p' \<Rightarrow> Ok p'
             | None \<Rightarrow>
                 (case last_hunk p of
                    Some (UpdateFile path move_path chunks) \<Rightarrow>
                      result_bind (process_update_line move_path chunks line (sp_line_number p))
                        (\<lambda>(move_path', chunks').
                           Ok (set_last_hunk (UpdateFile path move_path' chunks') p))
                  | _ \<Rightarrow> Err (InvalidHunkError (unexpected_line_message line) (sp_line_number p))))
      | EndedPatch \<Rightarrow> Ok p)"

definition strip_cr :: "str \<Rightarrow> str" where
  "strip_cr line = (case strip_suffix [carriage_return] line of Some l \<Rightarrow> l | None \<Rightarrow> line)"

text \<open>Taking the buffer and counting the line, as \<open>push_delta\<close> and \<open>finish\<close> do before they process it.\<close>

definition take_line :: "streaming_patch_parser \<Rightarrow> streaming_patch_parser" where
  "take_line p = p\<lparr>sp_line_buffer := [], sp_line_number := sp_line_number p + 1\<rparr>"

fun push_chars :: "streaming_patch_parser \<Rightarrow> str \<Rightarrow> streaming_patch_parser \<times> (unit, parse_error) result" where
  "push_chars p [] = (p, Ok ())"
| "push_chars p (ch # chs) =
     (if ch = newline then
        (case process_line (take_line p) (strip_cr (sp_line_buffer p)) of
           Err e \<Rightarrow> (take_line p, Err e)
         | Ok p' \<Rightarrow> push_chars p' chs)
      else push_chars (p\<lparr>sp_line_buffer := sp_line_buffer p @ [ch]\<rparr>) chs)"

definition push_delta ::
  "streaming_patch_parser \<Rightarrow> str \<Rightarrow> streaming_patch_parser \<times> (hunk list, parse_error) result" where
  "push_delta p delta =
     (case push_chars p delta of
        (p', Err e) \<Rightarrow> (p', Err e)
      | (p', Ok _) \<Rightarrow> (p', Ok (sp_hunks p')))"

definition finish_line ::
  "streaming_patch_parser \<Rightarrow> streaming_patch_parser \<times> (unit, parse_error) result" where
  "finish_line p =
     (if sp_line_buffer p = [] then (p, Ok ())
      else
        (let line = sp_line_buffer p; p1 = take_line p in
         if trim line = END_PATCH_MARKER then
           (case ensure_update_hunk_is_not_empty p1 (trim line) of
              Err e \<Rightarrow> (p1, Err e)
            | Ok _ \<Rightarrow> (set_mode EndedPatch p1, Ok ()))
         else
           (case process_line p1 line of
              Err e \<Rightarrow> (p1, Err e)
            | Ok p2 \<Rightarrow> (p2, Ok ()))))"

definition finish ::
  "streaming_patch_parser \<Rightarrow> streaming_patch_parser \<times> (hunk list, parse_error) result" where
  "finish p =
     (case finish_line p of
        (p', Err e) \<Rightarrow> (p', Err e)
      | (p', Ok _) \<Rightarrow>
          (p', if sp_mode p' \<noteq> EndedPatch then Err (InvalidPatchError last_line_message)
               else Ok (sp_hunks p')))"

text \<open>A client pushing a sequence of deltas, stopping at the first error.\<close>

fun push_all :: "streaming_patch_parser \<Rightarrow> str list \<Rightarrow> streaming_patch_parser \<times> (hunk list, parse_error) result" where
  "push_all p [] = (p, Ok (sp_hunks p))"
| "push_all p (d # ds) =
     (case push_delta p d of
        (p', Err e) \<Rightarrow> (p', Err e)
      | (p', Ok _) \<Rightarrow> push_all p' ds)"

section \<open>Deltas may be cut anywhere\<close>

lemma push_chars_append:
  "push_chars p (a @ b) =
     (case push_chars p a of (p', Err e) \<Rightarrow> (p', Err e) | (p', Ok _) \<Rightarrow> push_chars p' b)"
  by (induction p a rule: push_chars.induct) (auto split: result.splits)

lemma push_all_concat: "push_all p ds = push_delta p (concat ds)"
proof (induction ds arbitrary: p)
  case (Cons d ds)
  then show ?case
    by (auto simp: push_delta_def push_chars_append split: prod.splits result.splits)
qed (simp add: push_delta_def)

section \<open>The state machine and its invariant\<close>

definition state_inv :: "streaming_parser_state \<Rightarrow> bool" where
  "state_inv st \<longleftrightarrow>
     (case st_mode st of
        NotStarted \<Rightarrow> st_hunks st = []
      | StartedPatch \<Rightarrow> st_hunks st = []
      | AddFileMode \<Rightarrow>
          (\<exists>hs path contents. st_hunks st = hs @ [AddFile path contents] \<and>
             list_all wf_hunk (hs @ [AddFile path contents]))
      | DeleteFileMode \<Rightarrow>
          (\<exists>hs path. st_hunks st = hs @ [DeleteFile path] \<and> list_all wf_hunk (hs @ [DeleteFile path]))
      | UpdateFileMode n \<Rightarrow>
          (\<exists>hs path move_path chunks. st_hunks st = hs @ [UpdateFile path move_path chunks] \<and>
             list_all wf_hunk hs \<and> wf_file_name path \<and> list_all wf_chunk (butlast chunks))
      | EndedPatch \<Rightarrow> list_all wf_hunk (st_hunks st))"

definition stream_inv :: "streaming_patch_parser \<Rightarrow> bool" where
  "stream_inv p \<longleftrightarrow> state_inv (sp_state p)"

lemmas stream_update_simps [simp] = set_mode_def push_hunk_def set_last_hunk_def

lemma stream_inv_default: "stream_inv streaming_default"
  by (simp add: stream_inv_def state_inv_def streaming_default_def)

lemma stream_inv_take_line [simp]: "stream_inv (take_line p) \<longleftrightarrow> stream_inv p"
  by (simp add: stream_inv_def take_line_def)

lemma stream_inv_buffer [simp]: "stream_inv (p\<lparr>sp_line_buffer := b\<rparr>) \<longleftrightarrow> stream_inv p"
  by (simp add: stream_inv_def)

lemma chunks_complete:
  assumes "list_all wf_chunk (butlast chunks)" "\<not> last_chunk_empty chunks"
  shows "list_all wf_chunk chunks"
  using assms by (cases chunks rule: rev_cases) (auto simp: last_chunk_empty_def wf_chunk_def)

text \<open>Past the emptiness check the hunks collected so far are complete.\<close>

lemma ensure_complete:
  assumes "stream_inv p" "ensure_update_hunk_is_not_empty p line = Ok u"
  shows "list_all wf_hunk (sp_hunks p)"
proof (cases "sp_mode p")
  case (UpdateFileMode n)
  with assms(1) obtain hs path mv chunks where h: "sp_hunks p = hs @ [UpdateFile path mv chunks]"
      "list_all wf_hunk hs" "wf_file_name path" "list_all wf_chunk (butlast chunks)"
    by (auto simp: stream_inv_def state_inv_def)
  with assms(2) UpdateFileMode have c: "chunks \<noteq> []" "\<not> last_chunk_empty chunks"
    by (auto simp: ensure_update_hunk_is_not_empty_def last_hunk_def split: list.splits if_splits)
  then show ?thesis using h chunks_complete by (simp add: list_all_iff)
qed (use assms in \<open>auto simp: stream_inv_def state_inv_def\<close>)

lemma handle_header_inv:
  assumes "stream_inv p" "handle_hunk_headers_and_end_patch p t = Ok (Some p')"
    and t: "t \<noteq> [] \<Longrightarrow> \<not> is_whitespace (last t)"
  shows "stream_inv p'"
proof -
  have complete: "list_all wf_hunk (sp_hunks p)"
    using assms(2) ensure_complete [OF assms(1)]
    by (auto simp: handle_hunk_headers_and_end_patch_def result_simps split: if_splits option.splits)
  have name: "wf_file_name path" if "strip_prefix marker t = Some path"
    "marker \<in> {ADD_FILE_MARKER, DELETE_FILE_MARKER, UPDATE_FILE_MARKER}" for marker path
  proof -
    have "t = marker @ path" using that(1) by (simp add: strip_prefix_Some_iff)
    moreover have "is_whitespace (last marker)" "marker \<noteq> []"
      using header_markers [OF that(2)] by (auto simp: is_whitespace_def)
    ultimately show ?thesis using t by (auto simp: wf_file_name_def last_append split: if_splits)
  qed
  show ?thesis
    using assms(2) complete name
    by (auto simp: handle_hunk_headers_and_end_patch_def stream_inv_def state_inv_def result_simps
        split: if_splits option.splits)
qed

lemma process_update_line_inv:
  assumes "process_update_line mv chunks line n = Ok (mv', chunks')" "list_all wf_chunk (butlast chunks)"
  shows "list_all wf_chunk (butlast chunks')"
proof -
  have snoc: "list_all wf_chunk (butlast (chunks @ [c]))" if "\<not> last_chunk_empty chunks" for c
    using chunks_complete [OF assms(2) that] by simp
  show ?thesis
    using assms snoc
    by (auto simp: process_update_line_def update_last_chunk_def Let_def starts_with_def
        split: if_splits option.splits list.splits)
qed

lemma process_line_AddFileMode:
  assumes "sp_mode p = AddFileMode" "sp_hunks p = hs @ [AddFile path contents]" "process_line p line = Ok p'"
  shows "handle_hunk_headers_and_end_patch p (trim line) = Ok (Some p') \<or>
         (\<exists>l. p' = set_last_hunk (AddFile path (contents @ l @ [newline])) p)"
proof (cases "handle_hunk_headers_and_end_patch p (trim line)")
  case (Ok handled)
  then show ?thesis
    using assms
    by (cases handled; cases "strip_prefix [plus_char] line")
      (auto simp: process_line_def Let_def last_hunk_def simp del: stream_update_simps)
qed (use assms in \<open>simp add: process_line_def Let_def\<close>)

lemma process_line_UpdateFileMode:
  assumes "sp_mode p = UpdateFileMode n" "sp_hunks p = hs @ [UpdateFile path mv chunks]"
    "process_line p line = Ok p'"
  shows "handle_hunk_headers_and_end_patch p (trim_end line) = Ok (Some p') \<or>
         (\<exists>mv' chunks'. process_update_line mv chunks line (sp_line_number p) = Ok (mv', chunks') \<and>
            p' = set_last_hunk (UpdateFile path mv' chunks') p)"
proof (cases "handle_hunk_headers_and_end_patch p (trim_end line)")
  case (Ok handled)
  then show ?thesis
    using assms
    by (cases handled; cases "process_update_line mv chunks line (sp_line_number p)")
      (auto simp: process_line_def Let_def last_hunk_def simp del: stream_update_simps)
qed (use assms in \<open>simp add: process_line_def Let_def\<close>)

lemma process_line_inv:
  assumes inv: "stream_inv p" and ok: "process_line p line = Ok p'"
  shows "stream_inv p'"
proof (cases "sp_mode p")
  case NotStarted
  then show ?thesis using assms by (auto simp: process_line_def stream_inv_def state_inv_def split: if_splits)
next
  case StartedPatch
  then show ?thesis using assms trim_last
    by (auto simp: process_line_def Let_def result_simps split: if_splits option.splits
        intro: handle_header_inv [OF inv])
next
  case AddFileMode
  with inv obtain hs path contents where h: "sp_hunks p = hs @ [AddFile path contents]"
      "list_all wf_hunk (hs @ [AddFile path contents])" by (auto simp: stream_inv_def state_inv_def)
  consider "handle_hunk_headers_and_end_patch p (trim line) = Ok (Some p')"
    | l where "p' = set_last_hunk (AddFile path (contents @ l @ [newline])) p"
    using process_line_AddFileMode [OF AddFileMode h(1) ok] by blast
  then show ?thesis
  proof cases
    case 1
    then show ?thesis using trim_last by (auto intro: handle_header_inv [OF inv])
  next
    case 2
    then show ?thesis using AddFileMode h by (simp add: stream_inv_def state_inv_def)
  qed
next
  case DeleteFileMode
  then show ?thesis using assms trim_last
    by (auto simp: process_line_def Let_def result_simps split: if_splits option.splits
        intro: handle_header_inv [OF inv])
next
  case (UpdateFileMode n)
  with inv obtain hs path mv chunks where h: "sp_hunks p = hs @ [UpdateFile path mv chunks]"
      "list_all wf_hunk hs" "wf_file_name path" "list_all wf_chunk (butlast chunks)"
    by (auto simp: stream_inv_def state_inv_def)
  consider "handle_hunk_headers_and_end_patch p (trim_end line) = Ok (Some p')"
    | mv' chunks' where "process_update_line mv chunks line (sp_line_number p) = Ok (mv', chunks')"
        "p' = set_last_hunk (UpdateFile path mv' chunks') p"
    using process_line_UpdateFileMode [OF UpdateFileMode h(1) ok] by blast
  then show ?thesis
  proof cases
    case 1
    then show ?thesis using trim_end_last by (auto intro: handle_header_inv [OF inv])
  next
    case 2
    then show ?thesis using UpdateFileMode h process_update_line_inv [OF 2(1) h(4)]
      by (simp add: stream_inv_def state_inv_def)
  qed
qed (use assms in \<open>auto simp: process_line_def\<close>)

lemma push_chars_inv: "stream_inv p \<Longrightarrow> stream_inv (fst (push_chars p s))"
proof (induction s arbitrary: p)
  case (Cons ch chs)
  then have t: "stream_inv (take_line p)" by simp
  show ?case
    using Cons process_line_inv [OF t] by (auto split: result.splits)
qed simp

lemma push_delta_inv: "stream_inv p \<Longrightarrow> stream_inv (fst (push_delta p s))"
  using push_chars_inv [of p s] by (auto simp: push_delta_def split: prod.splits result.splits)

lemma finish_line_inv:
  assumes "stream_inv p"
  shows "stream_inv (fst (finish_line p))"
proof -
  have t: "stream_inv (take_line p)" using assms by simp
  have "stream_inv (set_mode EndedPatch (take_line p))"
    if "ensure_update_hunk_is_not_empty (take_line p) l = Ok u" for l u
    using ensure_complete [OF t that] by (simp add: stream_inv_def state_inv_def)
  then show ?thesis
    using assms t process_line_inv [OF t]
    by (auto simp: finish_line_def Let_def split: result.splits simp del: stream_update_simps)
qed

lemma finish_wf:
  assumes "stream_inv p" "finish p = (p', Ok hs)"
  shows "list_all wf_hunk hs"
proof -
  have "p' = fst (finish_line p)" "sp_mode p' = EndedPatch" "hs = sp_hunks p'"
    using assms(2) by (auto simp: finish_def split: prod.splits result.splits if_splits)
  then show ?thesis
    using finish_line_inv [OF assms(1)] by (simp add: stream_inv_def state_inv_def)
qed

end
