(* ===== verification/Streaming_Roundtrip.thy ===== *)
theory Streaming_Roundtrip
  imports Streaming_Parser
begin

text \<open>
  The streaming parser agrees with \<open>parse_patch\<close> on printed patches, however the text is cut into
  deltas. The line-level view \<open>run_lines\<close> separates the splitting into lines from the state machine.
\<close>

section \<open>From characters to lines\<close>

fun run_lines :: "streaming_patch_parser \<Rightarrow> str list \<Rightarrow> streaming_patch_parser option" where
  "run_lines p [] = Some p"
| "run_lines p (l # ls) =
     (case process_line (take_line p) l of Ok p' \<Rightarrow> run_lines p' ls | Err e \<Rightarrow> None)"

lemma run_lines_append:
  "run_lines p (xs @ ys) = (case run_lines p xs of None \<Rightarrow> None | Some p' \<Rightarrow> run_lines p' ys)"
  by (induction p xs rule: run_lines.induct) (auto split: result.splits)

lemma handle_frame:
  "handle_hunk_headers_and_end_patch p t = Ok (Some p') \<Longrightarrow> sp_line_buffer p' = sp_line_buffer p"
  by (auto simp: handle_hunk_headers_and_end_patch_def result_simps split: if_splits option.splits)

lemma process_line_frame:
  assumes "process_line p line = Ok p'"
  shows "sp_line_buffer p' = sp_line_buffer p"
proof (cases "sp_mode p")
  case AddFileMode
  show ?thesis
  proof (cases "\<exists>q. handle_hunk_headers_and_end_patch p (trim line) = Ok (Some q)")
    case True
    then show ?thesis using assms AddFileMode handle_frame by (auto simp: process_line_def Let_def)
  next
    case False
    then obtain l path contents where "p' = set_last_hunk (AddFile path (contents @ l @ [newline])) p"
      using assms AddFileMode
      by (auto simp: process_line_def Let_def result_simps simp del: stream_update_simps
          split: option.splits hunk.splits)
    then show ?thesis by simp
  qed
next
  case (UpdateFileMode n)
  show ?thesis
  proof (cases "\<exists>q. handle_hunk_headers_and_end_patch p (trim_end line) = Ok (Some q)")
    case True
    then show ?thesis using assms UpdateFileMode handle_frame by (auto simp: process_line_def Let_def)
  next
    case False
    then obtain path mv chunks where "p' = set_last_hunk (UpdateFile path mv chunks) p"
      using assms UpdateFileMode
      by (auto simp: process_line_def Let_def result_simps simp del: stream_update_simps
          split: option.splits hunk.splits)
    then show ?thesis by simp
  qed
qed (use assms handle_frame in
    \<open>auto simp: process_line_def Let_def result_simps split: if_splits option.splits\<close>)

lemma push_chars_plain:
  "newline \<notin> set l \<Longrightarrow> push_chars p l = (p\<lparr>sp_line_buffer := sp_line_buffer p @ l\<rparr>, Ok ())"
proof (induction l arbitrary: p)
  case Nil
  then show ?case by simp
qed simp

lemma strip_cr_plain: "plain_line l \<Longrightarrow> strip_cr l = l"
  by (cases l rule: rev_cases)
    (auto simp: strip_cr_def plain_line_def strip_suffix_def)

lemma take_line_buffer [simp]: "take_line (p\<lparr>sp_line_buffer := b\<rparr>) = take_line p"
  by (simp add: take_line_def)

lemma push_chars_line:
  assumes "plain_line l" "sp_line_buffer p = []"
  shows "push_chars p (l @ newline # s) =
     (case process_line (take_line p) l of Err e \<Rightarrow> (take_line p, Err e) | Ok p' \<Rightarrow> push_chars p' s)"
proof -
  have "newline \<notin> set l" using assms(1) by (simp add: plain_line_def)
  then show ?thesis
    using assms by (simp add: push_chars_append push_chars_plain strip_cr_plain split: result.split)
qed

lemma push_chars_run_lines:
  "\<forall>l\<in>set ls. plain_line l \<Longrightarrow> newline \<notin> set final \<Longrightarrow> sp_line_buffer p = [] \<Longrightarrow>
     run_lines p ls = Some p' \<Longrightarrow>
     push_chars p (join [newline] (ls @ [final])) = (p'\<lparr>sp_line_buffer := final\<rparr>, Ok ()) \<and>
     sp_line_buffer p' = []"
proof (induction ls arbitrary: p)
  case Nil
  then show ?case by (simp add: push_chars_plain)
next
  case (Cons l ls)
  from Cons.prems(4) obtain q where q: "process_line (take_line p) l = Ok q" "run_lines q ls = Some p'"
    by (auto split: result.splits)
  have "sp_line_buffer q = []" using process_line_frame [OF q(1)] by (simp add: take_line_def)
  then show ?case
    using Cons.IH [OF _ _ _ q(2)] Cons.prems q(1) by (simp add: join_Cons push_chars_line)
qed

section \<open>The state machine on printed hunks\<close>

text \<open>
  The streaming parser trims the end of a move target and of a context line; \<open>parse_patch\<close> keeps
  them as they are. The two agree when these texts do not end in white space.
\<close>

fun stream_printable :: "hunk \<Rightarrow> bool" where
  "stream_printable (UpdateFile path move_path chunks) \<longleftrightarrow>
     pred_option wf_file_name move_path \<and> list_all (\<lambda>c. pred_option wf_file_name (change_context c)) chunks"
| "stream_printable h \<longleftrightarrow> True"

text \<open>A state from which the next header or the end marker is accepted.\<close>

definition ready :: "streaming_patch_parser \<Rightarrow> bool" where
  "ready p \<longleftrightarrow>
     sp_mode p \<noteq> NotStarted \<and> sp_mode p \<noteq> EndedPatch \<and>
     (\<forall>n. sp_mode p = UpdateFileMode n \<longrightarrow>
        (\<exists>hs path mv chunks. sp_hunks p = hs @ [UpdateFile path mv chunks] \<and> chunks \<noteq> [])) \<and>
     (\<forall>hs path mv chunks. sp_hunks p = hs @ [UpdateFile path mv chunks] \<longrightarrow> \<not> last_chunk_empty chunks)"

lemma ready_ensure:
  assumes "ready p"
  shows "ensure_update_hunk_is_not_empty p line = Ok ()"
proof (cases "sp_hunks p" rule: rev_cases)
  case (snoc hs h)
  then show ?thesis
    using assms
    by (cases h) (auto simp: ready_def ensure_update_hunk_is_not_empty_def last_hunk_def
        split: list.splits streaming_parser_mode.splits)
qed (simp add: ensure_update_hunk_is_not_empty_def last_hunk_def)

lemma ready_take_line [simp]: "ready (take_line p) = ready p"
  by (simp add: ready_def take_line_def)

text \<open>A header line is recognised in every ready state.\<close>

definition header_line :: "str \<Rightarrow> bool" where
  "header_line l \<longleftrightarrow> l \<noteq> [] \<and> hd l = star_char \<and> \<not> is_whitespace (last l) \<and>
     \<not> starts_with ENVIRONMENT_ID_MARKER l"

lemma header_line_trim:
  assumes "header_line l"
  shows "trim l = l" "trim_end l = l"
proof -
  have "\<not> is_whitespace star_char" by (simp add: is_whitespace_def)
  then show "trim l = l" "trim_end l = l"
    using assms by (auto simp: header_line_def intro: trim_fix trim_end_fix)
qed

lemma process_header:
  assumes "ready p" "header_line l" "handle_hunk_headers_and_end_patch p l = Ok (Some p')"
  shows "process_line p l = Ok p'"
  using assms
  by (cases "sp_mode p")
    (auto simp: process_line_def Let_def header_line_trim ready_def header_line_def
      is_environment_id_preamble_line_def)

lemma header_line_marker:
  assumes "marker \<in> {ADD_FILE_MARKER, DELETE_FILE_MARKER, UPDATE_FILE_MARKER}" "wf_file_name path"
  shows "header_line (marker @ path)"
proof -
  have "\<not> starts_with ENVIRONMENT_ID_MARKER (marker @ path)"
    using assms(1) by (auto simp: text_eval)
  then show ?thesis
    using header_markers [OF assms(1)] assms(2) by (auto simp: header_line_def wf_file_name_def)
qed

lemma marker_distinct:
  "strip_prefix ADD_FILE_MARKER (DELETE_FILE_MARKER @ p) = None"
  "strip_prefix ADD_FILE_MARKER (UPDATE_FILE_MARKER @ p) = None"
  "strip_prefix DELETE_FILE_MARKER (UPDATE_FILE_MARKER @ p) = None"
  "ADD_FILE_MARKER @ p \<noteq> END_PATCH_MARKER" "DELETE_FILE_MARKER @ p \<noteq> END_PATCH_MARKER"
  "UPDATE_FILE_MARKER @ p \<noteq> END_PATCH_MARKER"
  by (simp_all add: text_eval)

lemmas header_eval = handle_hunk_headers_and_end_patch_def ready_ensure marker_distinct

lemma process_add_header:
  "ready p \<Longrightarrow> wf_file_name path \<Longrightarrow> process_line p (ADD_FILE_MARKER @ path) =
     Ok (set_mode AddFileMode (push_hunk (AddFile path []) p))"
  by (intro process_header) (auto simp: header_eval intro: header_line_marker)

lemma process_delete_header:
  "ready p \<Longrightarrow> wf_file_name path \<Longrightarrow> process_line p (DELETE_FILE_MARKER @ path) =
     Ok (set_mode DeleteFileMode (push_hunk (DeleteFile path) p))"
  by (intro process_header) (auto simp: header_eval intro: header_line_marker)

lemma process_update_header:
  "ready p \<Longrightarrow> wf_file_name path \<Longrightarrow> process_line p (UPDATE_FILE_MARKER @ path) =
     Ok (set_mode (UpdateFileMode (sp_line_number p)) (push_hunk (UpdateFile path None []) p))"
  by (intro process_header) (auto simp: header_eval intro: header_line_marker)

section \<open>Lines of a hunk body\<close>

lemma trim_Cons:
  assumes "\<not> is_whitespace c"
  obtains y where "trim (c # x) = c # y"
proof -
  have "trim_end (c # x) \<noteq> []" "hd (trim_end (c # x)) = c"
  proof -
    obtain w where d: "c # x = trim_end (c # x) @ w" "list_all is_whitespace w"
      by (rule trim_end_decomp)
    then show "trim_end (c # x) \<noteq> []" using assms by (metis append_Nil list.pred_inject(2))
    then show "hd (trim_end (c # x)) = c" using d(1) by (metis hd_append2 list.sel(1))
  qed
  then have "trim_end (c # x) = c # tl (trim_end (c # x))" by (metis list.exhaust_sel)
  then show ?thesis using assms by (intro that) (simp add: trim_def trim_start_def)
qed

lemma trim_end_Cons:
  assumes "\<not> is_whitespace c"
  obtains y where "trim_end (c # x) = c # y"
proof -
  have "trim (c # x) = trim_end (c # x)" using assms by (simp add: trim_def trim_start_def)
  then show ?thesis using trim_Cons [OF assms, of x] that by auto
qed

lemma body_chars: "\<not> is_whitespace plus_char" "\<not> is_whitespace minus_char" "\<not> is_whitespace 64"
  by (simp_all add: is_whitespace_def)

lemma handle_other: "c \<noteq> star_char \<Longrightarrow> handle_hunk_headers_and_end_patch p (c # y) = Ok None"
  by (simp add: handle_hunk_headers_and_end_patch_def text_eval)

lemma run_add_lines:
  "sp_mode p = AddFileMode \<Longrightarrow> sp_hunks p = hs @ [AddFile path c] \<Longrightarrow>
     \<exists>p'. run_lines p (map (Cons plus_char) ls) = Some p' \<and> sp_mode p' = AddFileMode \<and>
       sp_hunks p' = hs @ [AddFile path (c @ concat (map (\<lambda>l. l @ [newline]) ls))]"
proof (induction ls arbitrary: p c)
  case (Cons l ls)
  obtain y where y: "trim (plus_char # l) = plus_char # y" using trim_Cons [OF body_chars(1)] .
  let ?p = "set_last_hunk (AddFile path (c @ l @ [newline])) (take_line p)"
  have "process_line (take_line p) (plus_char # l) = Ok ?p"
    using Cons.prems y
    by (simp add: process_line_def Let_def handle_other last_hunk_def take_line_def)
  moreover have "sp_mode ?p = AddFileMode" "sp_hunks ?p = hs @ [AddFile path (c @ l @ [newline])]"
    using Cons.prems by (auto simp: take_line_def)
  ultimately show ?case using Cons.IH [of ?p "c @ l @ [newline]"] by auto
qed simp

text \<open>The parser is inside an update hunk.\<close>

definition updating :: "streaming_patch_parser \<Rightarrow> hunk list \<Rightarrow> str \<Rightarrow> str option \<Rightarrow> update_file_chunk list \<Rightarrow> bool" where
  "updating p hs path mv chunks \<longleftrightarrow>
     (\<exists>n. sp_mode p = UpdateFileMode n) \<and> sp_hunks p = hs @ [UpdateFile path mv chunks]"

lemma run_update_line:
  assumes "updating p hs path mv chunks"
    and "handle_hunk_headers_and_end_patch (take_line p) (trim_end l) = Ok None"
    and "process_update_line mv chunks l (sp_line_number (take_line p)) = Ok (mv', chunks')"
  obtains p' where "run_lines p [l] = Some p'" "updating p' hs path mv' chunks'"
proof
  show "run_lines p [l] = Some (set_last_hunk (UpdateFile path mv' chunks') (take_line p))"
    using assms by (auto simp: updating_def process_line_def Let_def last_hunk_def take_line_def)
  show "updating (set_last_hunk (UpdateFile path mv' chunks') (take_line p)) hs path mv' chunks'"
    using assms(1) by (auto simp: updating_def take_line_def)
qed

lemma trim_end_context:
  assumes "pred_option wf_file_name ctx"
  shows "trim_end (case ctx of None \<Rightarrow> EMPTY_CHANGE_CONTEXT_MARKER | Some x \<Rightarrow> CHANGE_CONTEXT_MARKER @ x) =
    (case ctx of None \<Rightarrow> EMPTY_CHANGE_CONTEXT_MARKER | Some x \<Rightarrow> CHANGE_CONTEXT_MARKER @ x)"
  using assms
  by (intro trim_end_fix) (auto simp: text_eval wf_file_name_def split: option.splits)

lemma process_update_context:
  assumes "pred_option wf_file_name ctx" "\<not> last_chunk_empty chunks"
  shows "process_update_line mv chunks
      (case ctx of None \<Rightarrow> EMPTY_CHANGE_CONTEXT_MARKER | Some x \<Rightarrow> CHANGE_CONTEXT_MARKER @ x) n =
    Ok (mv, chunks @ [empty_chunk ctx])"
  using assms trim_end_context [OF assms(1)]
  by (cases ctx) (simp_all add: process_update_line_def Let_def, simp_all add: text_eval)

lemma body_line:
  "c \<noteq> star_char \<Longrightarrow> strip_prefix MOVE_TO_MARKER (c # y) = None"
  "c \<noteq> star_char \<Longrightarrow> c # y \<noteq> EOF_MARKER"
  "c \<noteq> 64 \<Longrightarrow> strip_prefix CHANGE_CONTEXT_MARKER (c # y) = None"
  "c \<noteq> 64 \<Longrightarrow> c # y \<noteq> EMPTY_CHANGE_CONTEXT_MARKER"
  by (auto simp: text_eval)

lemma process_update_change:
  assumes "chunks \<noteq> []"
  shows "process_update_line mv chunks (minus_char # l) n =
           Ok (mv, butlast chunks @ [push_old l (last chunks)])"
    "process_update_line mv chunks (plus_char # l) n =
           Ok (mv, butlast chunks @ [push_new l (last chunks)])"
proof -
  obtain y where "trim_end (minus_char # l) = minus_char # y" using trim_end_Cons [OF body_chars(2)] .
  then show "process_update_line mv chunks (minus_char # l) n =
           Ok (mv, butlast chunks @ [push_old l (last chunks)])"
    using assms by (simp add: process_update_line_def update_last_chunk_def body_line starts_with_def)
  obtain y where "trim_end (plus_char # l) = plus_char # y" using trim_end_Cons [OF body_chars(1)] .
  then show "process_update_line mv chunks (plus_char # l) n =
           Ok (mv, butlast chunks @ [push_new l (last chunks)])"
    using assms by (simp add: process_update_line_def update_last_chunk_def body_line starts_with_def)
qed

lemma run_change_lines:
  assumes "c = minus_char \<and> f = push_old \<or> c = plus_char \<and> f = push_new"
  shows "updating p hs path mv (cs @ [ch]) \<Longrightarrow>
     \<exists>p'. run_lines p (map (Cons c) ls) = Some p' \<and> updating p' hs path mv (cs @ [fold f ls ch])"
proof (induction ls arbitrary: p ch)
  case (Cons l ls)
  have c: "\<not> is_whitespace c" "c \<noteq> star_char" using assms body_chars by auto
  obtain y where y: "trim_end (c # l) = c # y" using trim_end_Cons [OF c(1)] .
  have "process_update_line mv (cs @ [ch]) (c # l) n = Ok (mv, cs @ [f l ch])" for n
    using process_update_change [of "cs @ [ch]" mv l n] assms by auto
  then obtain q where q: "run_lines p [c # l] = Some q" "updating q hs path mv (cs @ [f l ch])"
    using run_update_line [OF Cons.prems] handle_other [OF c(2)] y by metis
  then show ?case using Cons.IH [OF q(2)] run_lines_append [of p "[c # l]"] by auto
qed simp

lemma fold_push:
  "fold push_old ls ch = ch\<lparr>old_lines := old_lines ch @ ls\<rparr>"
  "fold push_new ls ch = ch\<lparr>new_lines := new_lines ch @ ls\<rparr>"
  by (induction ls arbitrary: ch) (auto simp: push_old_def push_new_def)

lemma run_eof_line:
  assumes "updating p hs path mv (cs @ [ch])" "wf_chunk ch"
  obtains p' where "run_lines p [EOF_MARKER] = Some p'"
    "updating p' hs path mv (cs @ [ch\<lparr>is_end_of_file := True\<rparr>])"
proof (rule run_update_line [OF assms(1)])
  have t: "trim_end EOF_MARKER = EOF_MARKER" by (simp add: text_eval)
  have "\<not> last_chunk_empty (cs @ [ch])" using assms(2) by (simp add: last_chunk_empty_def wf_chunk_def)
  then show "process_update_line mv (cs @ [ch]) EOF_MARKER (sp_line_number (take_line p)) =
      Ok (mv, cs @ [ch\<lparr>is_end_of_file := True\<rparr>])"
    by (simp add: process_update_line_def t) (simp add: text_eval)
  show "handle_hunk_headers_and_end_patch (take_line p) (trim_end EOF_MARKER) = Ok None"
    by (simp add: handle_hunk_headers_and_end_patch_def text_eval)
qed (rule that)

lemma run_render_chunk:
  assumes "updating p hs path mv cs" "\<not> last_chunk_empty cs" "wf_chunk c"
    and ctx: "pred_option wf_file_name (change_context c)"
  shows "\<exists>p'. run_lines p (render_chunk c) = Some p' \<and> updating p' hs path mv (cs @ [c])"
proof -
  let ?h = "case change_context c of None \<Rightarrow> EMPTY_CHANGE_CONTEXT_MARKER | Some x \<Rightarrow> CHANGE_CONTEXT_MARKER @ x"
  have r: "render_chunk c = [?h] @ map (Cons minus_char) (old_lines c) @
      map (Cons plus_char) (new_lines c) @ (if is_end_of_file c then [EOF_MARKER] else [])"
    by (auto simp: render_chunk_def split: option.splits)
  have "handle_hunk_headers_and_end_patch (take_line p) (trim_end ?h) = Ok None"
    unfolding trim_end_context [OF ctx]
    by (auto simp: handle_hunk_headers_and_end_patch_def text_eval split: option.splits)
  from run_update_line [OF assms(1) this process_update_context [OF ctx assms(2)]]
  obtain p1 where p1: "run_lines p [?h] = Some p1"
      "updating p1 hs path mv (cs @ [empty_chunk (change_context c)])" .
  obtain p2 where p2: "run_lines p1 (map (Cons minus_char) (old_lines c)) = Some p2"
      "updating p2 hs path mv (cs @ [fold push_old (old_lines c) (empty_chunk (change_context c))])"
    using run_change_lines [OF _ p1(2)] by blast
  obtain p3 where p3: "run_lines p2 (map (Cons plus_char) (new_lines c)) = Some p3"
      "updating p3 hs path mv (cs @ [fold push_new (new_lines c)
         (fold push_old (old_lines c) (empty_chunk (change_context c)))])"
    using run_change_lines [OF _ p2(2)] by blast
  have "fold push_new (new_lines c) (fold push_old (old_lines c) (empty_chunk (change_context c))) =
      c\<lparr>is_end_of_file := False\<rparr>"
    by (simp add: fold_push empty_chunk_def chunk_eta)
  then have u3: "updating p3 hs path mv (cs @ [c\<lparr>is_end_of_file := False\<rparr>])" using p3(2) by simp
  show ?thesis
  proof (cases "is_end_of_file c")
    case True
    have "wf_chunk (c\<lparr>is_end_of_file := False\<rparr>)" using assms(3) by (simp add: wf_chunk_def)
    from run_eof_line [OF u3 this] obtain p4 where "run_lines p3 [EOF_MARKER] = Some p4"
        "updating p4 hs path mv (cs @ [c\<lparr>is_end_of_file := True\<rparr>])" by auto
    moreover have "c\<lparr>is_end_of_file := True\<rparr> = c" using True by (cases c) simp
    ultimately show ?thesis using p1(1) p2(1) p3(1) True by (simp only: r run_lines_append) simp
  next
    case False
    have "c\<lparr>is_end_of_file := False\<rparr> = c" using False by (cases c) simp
    then show ?thesis using p1(1) p2(1) p3(1) u3 False by (simp only: r run_lines_append) simp
  qed
qed

lemma run_render_chunks:
  "updating p hs path mv cs \<Longrightarrow> \<not> last_chunk_empty cs \<Longrightarrow> list_all wf_chunk new \<Longrightarrow>
     list_all (\<lambda>c. pred_option wf_file_name (change_context c)) new \<Longrightarrow>
     \<exists>p'. run_lines p (concat (map render_chunk new)) = Some p' \<and> updating p' hs path mv (cs @ new)"
proof (induction new arbitrary: p cs)
  case (Cons c new)
  then obtain q where q: "run_lines p (render_chunk c) = Some q" "updating q hs path mv (cs @ [c])"
    using run_render_chunk by fastforce
  have "\<not> last_chunk_empty (cs @ [c])" using Cons.prems(3) by (simp add: last_chunk_empty_def wf_chunk_def)
  from Cons.IH [OF q(2) this] Cons.prems q(1) show ?case by (simp add: run_lines_append)
qed simp

lemma run_move_line:
  assumes "updating p hs path None []" "pred_option wf_file_name mv"
  shows "\<exists>p'. run_lines p (case mv of None \<Rightarrow> [] | Some dest \<Rightarrow> [MOVE_TO_MARKER @ dest]) = Some p' \<and>
     updating p' hs path mv []"
proof (cases mv)
  case (Some dest)
  have t: "trim_end (MOVE_TO_MARKER @ dest) = MOVE_TO_MARKER @ dest"
    using assms(2) Some by (intro trim_end_fix) (auto simp: wf_file_name_def)
  have "process_update_line None [] (MOVE_TO_MARKER @ dest) n = Ok (mv, [])" for n
    using Some by (simp add: process_update_line_def t)
  moreover have "handle_hunk_headers_and_end_patch (take_line p) (MOVE_TO_MARKER @ dest) = Ok None"
    by (simp add: handle_hunk_headers_and_end_patch_def text_eval)
  ultimately show ?thesis
    using run_update_line [OF assms(1), of "MOVE_TO_MARKER @ dest" mv "[]"] t Some by auto
qed (use assms in simp)

lemma run_render_hunk:
  assumes "ready p" "wf_hunk h" "stream_printable h"
  shows "\<exists>p'. run_lines p (render_hunk h) = Some p' \<and> sp_hunks p' = sp_hunks p @ [h] \<and> ready p'"
proof (cases h)
  case (AddFile path contents)
  let ?q = "set_mode AddFileMode (push_hunk (AddFile path []) (take_line p))"
  let ?ls = "butlast (split_on newline contents)"
  have "process_line (take_line p) (ADD_FILE_MARKER @ path) = Ok ?q"
    using assms AddFile by (intro process_add_header) auto
  moreover obtain p' where "run_lines ?q (map (Cons plus_char) ?ls) = Some p'" "sp_mode p' = AddFileMode"
      "sp_hunks p' = sp_hunks p @ [AddFile path ([] @ concat (map (\<lambda>l. l @ [newline]) ?ls))]"
    using run_add_lines [of ?q "sp_hunks p" path "[]" ?ls] by (auto simp: take_line_def)
  moreover have "concat (map (\<lambda>l. l @ [newline]) ?ls) = contents"
    using assms(2) AddFile by (intro concat_butlast_split) simp
  ultimately show ?thesis using AddFile by (simp add: ready_def del: stream_update_simps)
next
  case (DeleteFile path)
  then have "process_line (take_line p) (DELETE_FILE_MARKER @ path) =
      Ok (set_mode DeleteFileMode (push_hunk (DeleteFile path) (take_line p)))"
    using assms by (intro process_delete_header) auto
  then show ?thesis using DeleteFile by (simp add: ready_def take_line_def)
next
  case (UpdateFile path mv chunks)
  let ?q = "set_mode (UpdateFileMode (sp_line_number (take_line p)))
      (push_hunk (UpdateFile path None []) (take_line p))"
  have wf: "wf_file_name path" "chunks \<noteq> []" "list_all wf_chunk chunks" "pred_option wf_file_name mv"
      "list_all (\<lambda>c. pred_option wf_file_name (change_context c)) chunks"
    using assms(2,3) UpdateFile by (auto simp: list_all_iff)
  have h: "process_line (take_line p) (UPDATE_FILE_MARKER @ path) = Ok ?q"
    using assms(1) wf(1) by (intro process_update_header) auto
  have "updating ?q (sp_hunks p) path None []" by (auto simp: updating_def take_line_def)
  from run_move_line [OF this wf(4)] obtain p1 where
      p1: "run_lines ?q (case mv of None \<Rightarrow> [] | Some dest \<Rightarrow> [MOVE_TO_MARKER @ dest]) = Some p1"
      and u1: "updating p1 (sp_hunks p) path mv []" by blast
  from run_render_chunks [OF u1 _ wf(3,5)] obtain p2 where
      p2: "run_lines p1 (concat (map render_chunk chunks)) = Some p2" "updating p2 (sp_hunks p) path mv chunks"
    by (auto simp: last_chunk_empty_def)
  have "\<not> last_chunk_empty chunks"
    using wf(2,3) by (cases chunks rule: rev_cases) (auto simp: last_chunk_empty_def wf_chunk_def)
  then have "ready p2" using p2(2) wf(2) by (auto simp: ready_def updating_def)
  then show ?thesis
    using h p1 p2 UpdateFile by (simp add: run_lines_append updating_def del: stream_update_simps)
qed

lemma run_render_hunks:
  "ready p \<Longrightarrow> \<forall>h\<in>set hs. wf_hunk h \<and> stream_printable h \<Longrightarrow>
     \<exists>p'. run_lines p (concat (map render_hunk hs)) = Some p' \<and> sp_hunks p' = sp_hunks p @ hs \<and> ready p'"
proof (induction hs arbitrary: p)
  case (Cons h hs)
  then obtain q where q: "run_lines p (render_hunk h) = Some q" "sp_hunks q = sp_hunks p @ [h]" "ready q"
    using run_render_hunk by fastforce
  from Cons.IH [OF q(3)] Cons.prems q(1,2) show ?case by (auto simp: run_lines_append)
qed simp

lemma run_preamble:
  "\<exists>p. run_lines streaming_default
         ([BEGIN_PATCH_MARKER] @ (case env of None \<Rightarrow> [] | Some e \<Rightarrow> [ENVIRONMENT_ID_MARKER @ e])) = Some p \<and>
       ready p \<and> sp_hunks p = []"
proof -
  have "trim BEGIN_PATCH_MARKER = BEGIN_PATCH_MARKER" by (intro trim_fix) (auto simp: text_eval)
  then have b: "process_line (take_line streaming_default) BEGIN_PATCH_MARKER =
      Ok (set_mode StartedPatch (take_line streaming_default))"
    by (simp add: process_line_def streaming_default_def take_line_def)
  show ?thesis
    using b
    by (cases env) (auto simp: process_line_def streaming_default_def take_line_def ready_def
        is_environment_id_preamble_line_def starts_with_def)
qed

lemma stream_render:
  assumes "printable_environment env" "\<forall>h\<in>set hs. printable_hunk h \<and> stream_printable h"
  shows "snd (finish (fst (push_delta streaming_default (render_patch env hs)))) = Ok hs"
proof -
  let ?pre = "[BEGIN_PATCH_MARKER] @ (case env of None \<Rightarrow> [] | Some e \<Rightarrow> [ENVIRONMENT_ID_MARKER @ e])"
  let ?ls = "?pre @ concat (map render_hunk hs)"
  obtain p0 where p0: "run_lines streaming_default ?pre = Some p0" "ready p0" "sp_hunks p0 = []"
    using run_preamble by blast
  obtain p where p: "run_lines p0 (concat (map render_hunk hs)) = Some p" "sp_hunks p = hs" "ready p"
    using run_render_hunks [OF p0(2)] assms(2) printable_hunk_wf p0(3) by fastforce
  have r: "render_patch_lines env hs = ?ls @ [END_PATCH_MARKER]" by (simp add: render_patch_lines_def)
  have "\<forall>h\<in>set hs. printable_hunk h" using assms(2) by simp
  from render_patch_lines_plain [OF assms(1) this] have "\<forall>l\<in>set (?ls @ [END_PATCH_MARKER]). plain_line l"
    unfolding r by blast
  then have plain: "\<forall>l\<in>set ?ls. plain_line l" unfolding set_append by blast
  have fin: "newline \<notin> set END_PATCH_MARKER" "trim END_PATCH_MARKER = END_PATCH_MARKER" "END_PATCH_MARKER \<noteq> []"
    by (simp_all add: text_eval)
  have "run_lines streaming_default ?ls = Some p"
    unfolding run_lines_append [of _ ?pre] p0(1) by (simp add: p(1))
  then have push: "push_chars streaming_default (render_patch env hs) =
      (p\<lparr>sp_line_buffer := END_PATCH_MARKER\<rparr>, Ok ())"
    unfolding render_patch_def r
    using push_chars_run_lines [OF plain fin(1), of streaming_default p] by (simp add: streaming_default_def)
  have "ready (take_line p)" using p(3) by simp
  then have "snd (finish (p\<lparr>sp_line_buffer := END_PATCH_MARKER\<rparr>)) = Ok hs"
    using p(2) fin by (simp add: finish_def finish_line_def ready_ensure) (simp add: take_line_def)
  then show ?thesis by (simp add: push_delta_def push)
qed

section \<open>Properties\<close>

text \<open>
  C33: the live preview does not depend on how the model output is cut into deltas: pushing any list of
  deltas one after the other gives the same parser and the same result, error or hunks, as pushing
  their concatenation at once.
\<close>

theorem streaming_chunk_independent: "push_all p ds = push_delta p (concat ds)"
  by (rule push_all_concat)


lemma sample_hunks_stream_printable: "\<forall>h\<in>set sample_hunks. stream_printable h"
  by (simp add: sample_hunks_def wf_file_name_def text_eval)


text \<open>
  whatever text arrives, and even after an earlier error, a successful \<open>finish\<close> only returns
  well-formed hunks: named files, added contents that end with a newline, updates with at least one
  chunk and no empty chunk.
\<close>

theorem streaming_finish_wf:
  assumes "finish (fst (push_all streaming_default ds)) = (p', Ok hs)"
  shows "list_all wf_hunk hs"
  using finish_wf [OF push_delta_inv [OF stream_inv_default] assms [unfolded push_all_concat]] .

theorem streaming_finish_wf_witness:
  "list_all wf_hunk sample_hunks"
proof -
  have "\<forall>h\<in>set sample_hunks. printable_hunk h \<and> stream_printable h"
    using sample_hunks_printable(2) sample_hunks_stream_printable by blast
  from stream_render [OF sample_hunks_printable(1) this]
  have "finish (fst (push_all streaming_default [render_patch (Some (lit ''env'')) sample_hunks])) =
      (fst (finish (fst (push_all streaming_default [render_patch (Some (lit ''env'')) sample_hunks]))),
       Ok sample_hunks)"
    by (simp add: push_all_concat prod_eq_iff)
  then show ?thesis by (rule streaming_finish_wf)
qed

text \<open>
  \<open>finish\<close> handles an unterminated last line before it looks at the mode: the end marker alone,
  with no begin marker, is accepted as a patch without hunks, while the same text is rejected by
  \<open>parse_patch\<close> and, when the line is terminated, by the streaming parser itself.
\<close>

theorem streaming_accepts_bare_end:
  "snd (finish (fst (push_delta streaming_default END_PATCH_MARKER))) = Ok [] \<and>
   snd (push_delta streaming_default (END_PATCH_MARKER @ [newline])) = Err (InvalidPatchError first_line_message) \<and>
   parse_patch END_PATCH_MARKER = Err (InvalidPatchError first_line_message)"
proof (intro conjI)
  have e: "newline \<notin> set END_PATCH_MARKER" "trim END_PATCH_MARKER = END_PATCH_MARKER"
    "END_PATCH_MARKER \<noteq> []" "plain_line END_PATCH_MARKER" "END_PATCH_MARKER \<noteq> BEGIN_PATCH_MARKER"
    "\<not> END_PATCH_MARKER \<in> set heredoc_openers"
    by (simp_all add: text_eval plain_line_def)
  show "snd (finish (fst (push_delta streaming_default END_PATCH_MARKER))) = Ok []"
    using e by (simp add: push_delta_def push_chars_plain finish_def finish_line_def streaming_default_def
        take_line_def ensure_update_hunk_is_not_empty_def last_hunk_def)
  show "snd (push_delta streaming_default (END_PATCH_MARKER @ [newline])) =
      Err (InvalidPatchError first_line_message)"
    using e push_chars_line [of END_PATCH_MARKER streaming_default "[]"]
    by (simp add: push_delta_def process_line_def streaming_default_def take_line_def)
  show "parse_patch END_PATCH_MARKER = Err (InvalidPatchError first_line_message)"
    using e lines_last [of END_PATCH_MARKER]
    by (simp add: parse_patch_def PARSE_IN_STRICT_MODE_def parse_patch_text_def
        check_patch_boundaries_lenient_def check_patch_boundaries_strict_def
        check_start_and_end_lines_strict_def)
qed

end
