(* ===== verification/Seek_Sequence.thy ===== *)
theory Seek_Sequence
  imports Codex_Prelude
begin

text \<open>
  Model of \<^verbatim>\<open>apply-patch/src/seek_sequence.rs\<close>: locating the lines of a patch chunk in a file with
  four passes of decreasing strictness. Each pass compares lines through a key function (the text
  itself, the text without trailing white space, without surrounding white space, and with typographic
  punctuation replaced). The locale \<open>seek_pass_law\<close> states what one pass promises, the locale
  \<open>coarser_passes\<close> what follows when one key identifies more lines than another; both are interpreted
  on the four passes of the source.
\<close>

section \<open>The passes\<close>

text \<open>The local function \<open>normalise\<close>: dashes, quotes and odd spaces become their ASCII equivalents.\<close>

definition normalise_char :: "uchar \<Rightarrow> uchar" where
  [text_eval]: "normalise_char c =
     (if c = 0x2010 \<or> c = 0x2011 \<or> c = 0x2012 \<or> c = 0x2013 \<or> c = 0x2014 \<or> c = 0x2015 \<or> c = 0x2212
      then 45
      else if c = 0x2018 \<or> c = 0x2019 \<or> c = 0x201A \<or> c = 0x201B then 39
      else if c = 0x201C \<or> c = 0x201D \<or> c = 0x201E \<or> c = 0x201F then 34
      else if c = 0x00A0 \<or> c = 0x2002 \<or> c = 0x2003 \<or> c = 0x2004 \<or> c = 0x2005 \<or> c = 0x2006
        \<or> c = 0x2007 \<or> c = 0x2008 \<or> c = 0x2009 \<or> c = 0x200A \<or> c = 0x202F \<or> c = 0x205F \<or> c = 0x3000
      then 32
      else c)"

definition normalise :: "str \<Rightarrow> str" where
  [text_eval]: "normalise s = map normalise_char (trim s)"

text \<open>The inner loop over \<open>pattern.iter().enumerate()\<close> with its early \<open>break\<close>.\<close>

fun lines_match_loop :: "(str \<Rightarrow> str) \<Rightarrow> str list \<Rightarrow> nat \<Rightarrow> nat \<Rightarrow> str list \<Rightarrow> bool" where
  "lines_match_loop key lines i p_idx [] = True"
| "lines_match_loop key lines i p_idx (pat # pats) =
     (if key (lines ! (i + p_idx)) \<noteq> key pat then False
      else lines_match_loop key lines i (Suc p_idx) pats)"

text \<open>One outer loop \<open>for i in search_start..=lines.len().saturating_sub(pattern.len())\<close>.\<close>

definition keyed_pass :: "(str \<Rightarrow> str) \<Rightarrow> str list \<Rightarrow> str list \<Rightarrow> nat \<Rightarrow> nat option" where
  "keyed_pass key lines pattern search_start =
     find (\<lambda>i. lines_match_loop key lines i 0 pattern)
       [search_start..<Suc (length lines - length pattern)]"

definition exact_pass :: "str list \<Rightarrow> str list \<Rightarrow> nat \<Rightarrow> nat option" where
  "exact_pass lines pattern search_start =
     find (\<lambda>i. take (length pattern) (drop i lines) = pattern)
       [search_start..<Suc (length lines - length pattern)]"

definition seek_start :: "str list \<Rightarrow> str list \<Rightarrow> nat \<Rightarrow> bool \<Rightarrow> nat" where
  "seek_start lines pattern start eof =
     (if eof \<and> length lines \<ge> length pattern then length lines - length pattern else start)"

definition seek_sequence :: "str list \<Rightarrow> str list \<Rightarrow> nat \<Rightarrow> bool \<Rightarrow> nat option" where
  "seek_sequence lines pattern start eof =
     (if pattern = [] then Some start
      else if length pattern > length lines then None
      else
        let search_start = seek_start lines pattern start eof in
        (case exact_pass lines pattern search_start of
           Some i \<Rightarrow> Some i
         | None \<Rightarrow>
           (case keyed_pass trim_end lines pattern search_start of
              Some i \<Rightarrow> Some i
            | None \<Rightarrow>
              (case keyed_pass trim lines pattern search_start of
                 Some i \<Rightarrow> Some i
               | None \<Rightarrow> keyed_pass normalise lines pattern search_start))))"

section \<open>What one pass promises\<close>

text \<open>The block of lines at \<open>i\<close> equals the pattern up to the key.\<close>

definition block_at :: "(str \<Rightarrow> str) \<Rightarrow> str list \<Rightarrow> str list \<Rightarrow> nat \<Rightarrow> bool" where
  "block_at key lines pattern i \<longleftrightarrow>
     i + length pattern \<le> length lines \<and>
     map key (take (length pattern) (drop i lines)) = map key pattern"

locale seek_pass_law =
  fixes key :: "str \<Rightarrow> str"
    and pass :: "str list \<Rightarrow> str list \<Rightarrow> nat \<Rightarrow> nat option"
  assumes pass_finds: "length pattern \<le> length lines \<Longrightarrow>
      pass lines pattern start =
        find (block_at key lines pattern) [start..<Suc (length lines - length pattern)]"
begin

lemma pass_Some:
  assumes "length pattern \<le> length lines" "pass lines pattern start = Some i"
  shows "start \<le> i \<and> block_at key lines pattern i"
    and "\<And>j. start \<le> j \<Longrightarrow> j < i \<Longrightarrow> \<not> block_at key lines pattern j"
proof -
  let ?is = "[start..<Suc (length lines - length pattern)]"
  have "find (block_at key lines pattern) ?is = Some i"
    using assms by (simp add: pass_finds)
  then obtain k where k: "k < length ?is" "block_at key lines pattern (?is ! k)" "i = ?is ! k"
      and before: "\<forall>j<k. \<not> block_at key lines pattern (?is ! j)"
    by (auto simp: find_Some_iff)
  then have i: "i = start + k" by (simp add: nth_upt del: upt_Suc)
  show "start \<le> i \<and> block_at key lines pattern i"
    using k i by simp
  show "\<not> block_at key lines pattern j" if "start \<le> j" "j < i" for j
  proof -
    have "j - start < k" using that i by simp
    then have "\<not> block_at key lines pattern (?is ! (j - start))" using before by blast
    moreover have "?is ! (j - start) = j"
      using that i k(1) by (simp add: nth_upt del: upt_Suc)
    ultimately show ?thesis by simp
  qed
qed

lemma pass_None:
  assumes "length pattern \<le> length lines" "pass lines pattern start = None" "start \<le> i"
  shows "\<not> block_at key lines pattern i"
proof
  assume b: "block_at key lines pattern i"
  then have "i \<in> set [start..<Suc (length lines - length pattern)]"
    using assms(3) by (auto simp: block_at_def)
  moreover have "find (block_at key lines pattern) [start..<Suc (length lines - length pattern)] = None"
    using assms by (simp add: pass_finds)
  ultimately show False using b by (auto simp: find_None_iff simp del: upt_Suc)
qed

lemma pass_complete:
  assumes "length pattern \<le> length lines" "start \<le> i" "block_at key lines pattern i"
  shows "\<exists>j. pass lines pattern start = Some j"
  using pass_None [OF assms(1) _ assms(2)] assms(3) by (cases "pass lines pattern start") auto

end

text \<open>A pass whose key identifies at least the lines that another pass's key identifies.\<close>

locale coarser_passes =
  fine: seek_pass_law key pass + coarse: seek_pass_law key' pass'
  for key :: "str \<Rightarrow> str" and pass and key' :: "str \<Rightarrow> str" and pass' +
  assumes key_refines: "key x = key y \<Longrightarrow> key' x = key' y"
begin

lemma block_coarser: "block_at key lines pattern i \<Longrightarrow> block_at key' lines pattern i"
  by (auto simp: block_at_def intro: map_eq_coarser [OF _ key_refines])

lemma none_finer:
  assumes "length pattern \<le> length lines" "pass' lines pattern start = None"
  shows "pass lines pattern start = None"
proof (cases "pass lines pattern start")
  case (Some i)
  then have "start \<le> i" "block_at key lines pattern i"
    using fine.pass_Some(1) [OF assms(1)] by auto
  then show ?thesis
    using coarse.pass_None [OF assms] block_coarser by blast
qed

end

lemma lines_match_loop_iff:
  "i + p_idx + length pats \<le> length ls \<Longrightarrow>
     lines_match_loop key ls i p_idx pats \<longleftrightarrow>
       map key (take (length pats) (drop (i + p_idx) ls)) = map key pats"
proof (induction pats arbitrary: p_idx)
  case (Cons pat pats)
  have "drop (i + p_idx) ls = ls ! (i + p_idx) # drop (i + Suc p_idx) ls"
    using Cons.prems by (simp add: Cons_nth_drop_Suc)
  then show ?case
    using Cons.IH [of "Suc p_idx"] Cons.prems by simp
qed simp

lemma find_cong_upt:
  "(\<And>i. i \<in> set xs \<Longrightarrow> P i = Q i) \<Longrightarrow> find P xs = find Q xs"
  by (induction xs) auto

lemma keyed_pass_law: "seek_pass_law key (keyed_pass key)"
proof
  fix pattern lines :: "str list" and start
  assume len: "length pattern \<le> length lines"
  show "keyed_pass key lines pattern start =
      find (block_at key lines pattern) [start..<Suc (length lines - length pattern)]"
    unfolding keyed_pass_def
    by (rule find_cong_upt) (use len in \<open>auto simp: lines_match_loop_iff block_at_def\<close>)
qed

interpretation exact: seek_pass_law id exact_pass
proof
  fix pattern lines :: "str list" and start
  assume len: "length pattern \<le> length lines"
  show "exact_pass lines pattern start =
      find (block_at id lines pattern) [start..<Suc (length lines - length pattern)]"
    unfolding exact_pass_def
    by (rule find_cong_upt) (use len in \<open>auto simp: block_at_def\<close>)
qed

interpretation rstrip: seek_pass_law trim_end "keyed_pass trim_end"
  by (rule keyed_pass_law)

interpretation strip: seek_pass_law trim "keyed_pass trim"
  by (rule keyed_pass_law)

interpretation fuzzy: seek_pass_law normalise "keyed_pass normalise"
  by (rule keyed_pass_law)

interpretation exact_fuzzy: coarser_passes id exact_pass normalise "keyed_pass normalise"
  by unfold_locales simp

interpretation rstrip_fuzzy: coarser_passes trim_end "keyed_pass trim_end" normalise "keyed_pass normalise"
proof
  fix x y :: str
  assume "trim_end x = trim_end y"
  then have "trim x = trim y" using trim_trim_end by metis
  then show "normalise x = normalise y" by (simp add: normalise_def)
qed

interpretation strip_fuzzy: coarser_passes trim "keyed_pass trim" normalise "keyed_pass normalise"
  by unfold_locales (simp add: normalise_def)

section \<open>Correctness of the search\<close>

lemma seek_sequence_SomeD:
  assumes "seek_sequence lines pattern start eof = Some i" and "pattern \<noteq> []"
  shows "seek_start lines pattern start eof \<le> i \<and> block_at normalise lines pattern i"
proof -
  let ?s = "seek_start lines pattern start eof"
  have len: "length pattern \<le> length lines"
    using assms by (auto simp: seek_sequence_def split: if_splits)
  consider "exact_pass lines pattern ?s = Some i" | "keyed_pass trim_end lines pattern ?s = Some i"
    | "keyed_pass trim lines pattern ?s = Some i" | "keyed_pass normalise lines pattern ?s = Some i"
    using assms by (auto simp: seek_sequence_def Let_def split: if_splits option.splits)
  then show ?thesis
    using exact.pass_Some(1) [OF len] rstrip.pass_Some(1) [OF len] strip.pass_Some(1) [OF len]
      fuzzy.pass_Some(1) [OF len] exact_fuzzy.block_coarser rstrip_fuzzy.block_coarser
      strip_fuzzy.block_coarser
    by cases blast+
qed

lemma seek_sequence_None:
  "seek_sequence lines pattern start eof = None \<longleftrightarrow>
     pattern \<noteq> [] \<and>
     (length lines < length pattern \<or>
      \<not> (\<exists>i\<ge>seek_start lines pattern start eof. block_at normalise lines pattern i))"
proof (cases "pattern = [] \<or> length lines < length pattern")
  case True
  then show ?thesis by (auto simp: seek_sequence_def)
next
  case False
  let ?s = "seek_start lines pattern start eof"
  have len: "length pattern \<le> length lines" using False by simp
  have "seek_sequence lines pattern start eof = None \<longleftrightarrow>
      exact_pass lines pattern ?s = None \<and> keyed_pass trim_end lines pattern ?s = None \<and>
      keyed_pass trim lines pattern ?s = None \<and> keyed_pass normalise lines pattern ?s = None"
    using False by (auto simp: seek_sequence_def Let_def split: option.splits)
  also have "\<dots> \<longleftrightarrow> keyed_pass normalise lines pattern ?s = None"
    using exact_fuzzy.none_finer [OF len] rstrip_fuzzy.none_finer [OF len]
      strip_fuzzy.none_finer [OF len] by blast
  also have "\<dots> \<longleftrightarrow> \<not> (\<exists>i\<ge>?s. block_at normalise lines pattern i)"
    using fuzzy.pass_None [OF len, of ?s] fuzzy.pass_Some(1) [OF len, of ?s]
    by (cases "keyed_pass normalise lines pattern ?s") auto
  finally show ?thesis using False by auto
qed

lemma seek_sequence_bounds:
  assumes "seek_sequence lines pattern start eof = Some i" "pattern \<noteq> []"
  shows "i + length pattern \<le> length lines"
  using seek_sequence_SomeD [OF assms] by (simp add: block_at_def)



text \<open>
  the search fails exactly when the pattern is longer than the file or no block at or after the
  search start equals the pattern even up to white space and punctuation; the stricter passes never
  hide a match from the most permissive one.
\<close>

theorem seek_sequence_None_iff:
  "seek_sequence lines pattern start eof = None \<longleftrightarrow>
     pattern \<noteq> [] \<and>
     (length lines < length pattern \<or>
      \<not> (\<exists>i\<ge>seek_start lines pattern start eof. block_at normalise lines pattern i))"
  by (rule seek_sequence_None)

theorem seek_sequence_None_iff_witness:
  "seek_sequence [lit ''a''] [lit ''b'', lit ''c''] 0 False = None"
  using seek_sequence_None_iff [of "[lit ''a'']" "[lit ''b'', lit ''c'']" 0 False] by simp

text \<open>
  a verbatim occurrence always wins: if the pattern occurs literally at or after the search start,
  the first literal occurrence is returned, whatever fuzzy matches come before it.
\<close>

theorem seek_sequence_exact_first:
  assumes "pattern \<noteq> []" and "seek_start lines pattern start eof \<le> j"
    and "take (length pattern) (drop j lines) = pattern" and "j + length pattern \<le> length lines"
  shows "\<exists>i\<le>j. seek_sequence lines pattern start eof = Some i \<and>
           take (length pattern) (drop i lines) = pattern \<and>
           (\<forall>k. seek_start lines pattern start eof \<le> k \<and> k < i \<longrightarrow>
              take (length pattern) (drop k lines) \<noteq> pattern)"
proof -
  let ?s = "seek_start lines pattern start eof"
  have len: "length pattern \<le> length lines" using assms(4) by simp
  have bj: "block_at id lines pattern j" using assms(3,4) by (simp add: block_at_def)
  then obtain i where i: "exact_pass lines pattern ?s = Some i"
    using exact.pass_complete [OF len assms(2)] by blast
  have bi: "block_at id lines pattern i"
    using exact.pass_Some(1) [OF len i] by simp
  have first: "\<not> block_at id lines pattern k" if "?s \<le> k" "k < i" for k
    using exact.pass_Some(2) [OF len i that] .
  have "i \<le> j" using first [OF assms(2)] bj by (meson not_le)
  moreover have "seek_sequence lines pattern start eof = Some i"
    using assms(1) len i by (simp add: seek_sequence_def Let_def)
  moreover have "take (length pattern) (drop k lines) \<noteq> pattern" if "?s \<le> k" "k < i" for k
    using first [OF that] that \<open>i \<le> j\<close> assms(4) by (auto simp: block_at_def)
  ultimately show ?thesis using bi by (auto simp: block_at_def)
qed

theorem seek_sequence_exact_first_witness:
  "\<exists>i\<le>2. seek_sequence [lit ''x '', lit ''y'', lit ''x''] [lit ''x''] 0 False = Some i \<and>
     take 1 (drop i [lit ''x '', lit ''y'', lit ''x'']) = [lit ''x'']"
proof -
  have "seek_start [lit ''x '', lit ''y'', lit ''x''] [lit ''x''] 0 False \<le> 2"
    by (simp add: seek_start_def)
  then show ?thesis
    using seek_sequence_exact_first [of "[lit ''x'']" "[lit ''x '', lit ''y'', lit ''x'']" 0 False 2]
    by (auto simp: numeral_2_eq_2)
qed

text \<open>
  with the end-of-file flag only the very last block of the file is considered; when it does not
  match, the search fails even if the pattern occurs earlier in the file.
\<close>

theorem seek_sequence_eof:
  assumes "pattern \<noteq> []"
  shows "seek_sequence lines pattern start True =
           (if block_at normalise lines pattern (length lines - length pattern)
            then Some (length lines - length pattern) else None)"
proof (cases "length lines < length pattern")
  case True
  then show ?thesis using assms by (auto simp: seek_sequence_def block_at_def)
next
  case False
  let ?e = "length lines - length pattern"
  have s: "seek_start lines pattern start True = ?e"
    using False by (simp add: seek_start_def)
  have only: "i = ?e" if "?e \<le> i" "block_at normalise lines pattern i" for i
    using that by (auto simp: block_at_def)
  show ?thesis
  proof (cases "seek_sequence lines pattern start True")
    case None
    then show ?thesis using False by (auto simp: seek_sequence_None s)
  next
    case (Some i)
    then have "i = ?e \<and> block_at normalise lines pattern i"
      using seek_sequence_SomeD [OF Some assms] only by (auto simp: s)
    then show ?thesis using Some by auto
  qed
qed

theorem seek_sequence_eof_witness:
  "[lit ''a''] \<noteq> [] \<and>
   seek_sequence [lit ''a'', lit ''b''] [lit ''a''] 0 True = None"
  using seek_sequence_eof [of "[lit ''a'']" "[lit ''a'', lit ''b'']" 0]
  by (simp add: block_at_def text_eval)

end
