(* ===== verification/Patch_Replacements.thy ===== *)
theory Patch_Replacements
  imports Patch_Parser Seek_Sequence
begin

text \<open>
  Model of the text part of \<^verbatim>\<open>apply-patch/src/lib.rs\<close>: locating the chunks of an update hunk in a file
  (\<open>compute_replacements\<close>), editing the line vector in place (\<open>apply_replacements\<close>) and rebuilding the
  file (\<open>derive_new_contents_from_chunks\<close> without its read). A panic of \<open>Vec::insert\<close> is the value
  \<open>None\<close>. The specification side is \<open>splice_all\<close>: one left-to-right copy of the file in which the
  replaced regions are exchanged.
\<close>

section \<open>Definitions\<close>

datatype apply_patch_error =
    ParseError parse_error
  | IoError str io_error
  | ComputeReplacements str
  | ImplicitInvocation

type_synonym replacement = "nat \<times> nat \<times> str list"

text \<open>\<open>lines.last().is_some_and(String::is_empty)\<close>\<close>

definition last_is_empty :: "str list \<Rightarrow> bool" where
  "last_is_empty ls \<longleftrightarrow> ls \<noteq> [] \<and> last ls = []"

definition context_error :: "str \<Rightarrow> str \<Rightarrow> apply_patch_error" where
  "context_error ctx_line path =
     ComputeReplacements (lit ''Failed to find context '' @ [quote] @ ctx_line @ [quote] @ lit '' in '' @ path)"

definition lines_error :: "update_file_chunk \<Rightarrow> str \<Rightarrow> apply_patch_error" where
  "lines_error chunk path =
     ComputeReplacements (lit ''Failed to find expected lines in '' @ path @ lit '':'' @ [newline] @
       join [newline] (old_lines chunk))"

text \<open>The line index after the context line of a chunk.\<close>

definition seek_context :: "str list \<Rightarrow> str \<Rightarrow> update_file_chunk \<Rightarrow> nat \<Rightarrow> (nat, apply_patch_error) result" where
  "seek_context original_lines path chunk line_index =
     (case change_context chunk of
        None \<Rightarrow> Ok line_index
      | Some ctx_line \<Rightarrow>
          (case seek_sequence original_lines [ctx_line] line_index False of
             Some idx \<Rightarrow> Ok (idx + 1)
           | None \<Rightarrow> Err (context_error ctx_line path)))"

text \<open>
  The search for the old lines with its retry without a trailing empty line: the position, the length
  of the pattern that matched and the new lines to use.
\<close>

definition seek_old_lines :: "str list \<Rightarrow> update_file_chunk \<Rightarrow> nat \<Rightarrow> replacement option" where
  "seek_old_lines original_lines chunk line_index =
     (let pattern = old_lines chunk;
          new_slice = new_lines chunk;
          found = seek_sequence original_lines pattern line_index (is_end_of_file chunk)
      in if found = None \<and> last_is_empty pattern
         then
           (let pattern' = butlast pattern;
                new_slice' = (if last_is_empty new_slice then butlast new_slice else new_slice)
            in map_option (\<lambda>start_idx. (start_idx, length pattern', new_slice'))
                 (seek_sequence original_lines pattern' line_index (is_end_of_file chunk)))
         else map_option (\<lambda>start_idx. (start_idx, length pattern, new_slice)) found)"

fun replacements_loop ::
  "str list \<Rightarrow> str \<Rightarrow> nat \<Rightarrow> replacement list \<Rightarrow> update_file_chunk list
     \<Rightarrow> (replacement list, apply_patch_error) result" where
  "replacements_loop original_lines path line_index replacements [] = Ok replacements"
| "replacements_loop original_lines path line_index replacements (chunk # chunks) =
     (case seek_context original_lines path chunk line_index of
        Err e \<Rightarrow> Err e
      | Ok line_index \<Rightarrow>
          if old_lines chunk = [] then
            (let insertion_idx =
               (if last_is_empty original_lines then length original_lines - 1 else length original_lines)
             in replacements_loop original_lines path line_index
                  (replacements @ [(insertion_idx, 0, new_lines chunk)]) chunks)
          else
            (case seek_old_lines original_lines chunk line_index of
               Some (start_idx, old_len, new_slice) \<Rightarrow>
                 replacements_loop original_lines path (start_idx + old_len)
                   (replacements @ [(start_idx, old_len, new_slice)]) chunks
             | None \<Rightarrow> Err (lines_error chunk path)))"

definition compute_replacements ::
  "str list \<Rightarrow> str \<Rightarrow> update_file_chunk list \<Rightarrow> (replacement list, apply_patch_error) result" where
  "compute_replacements original_lines path chunks =
     (case replacements_loop original_lines path 0 [] chunks of
        Err e \<Rightarrow> Err e
      | Ok replacements \<Rightarrow> Ok (sort_key fst replacements))"

fun remove_old_lines :: "nat \<Rightarrow> nat \<Rightarrow> str list \<Rightarrow> str list" where
  "remove_old_lines start_idx 0 lines = lines"
| "remove_old_lines start_idx (Suc n) lines =
     remove_old_lines start_idx n (if start_idx < length lines then remove_at start_idx lines else lines)"

fun insert_new_lines :: "nat \<Rightarrow> nat \<Rightarrow> str list \<Rightarrow> str list \<Rightarrow> str list option" where
  "insert_new_lines start_idx offset [] lines = Some lines"
| "insert_new_lines start_idx offset (new_line # rest) lines =
     (if start_idx + offset \<le> length lines
      then insert_new_lines start_idx (Suc offset) rest (insert_at (start_idx + offset) new_line lines)
      else None)"

fun apply_each :: "replacement list \<Rightarrow> str list \<Rightarrow> str list option" where
  "apply_each [] lines = Some lines"
| "apply_each ((start_idx, old_len, new_segment) # rest) lines =
     (case insert_new_lines start_idx 0 new_segment (remove_old_lines start_idx old_len lines) of
        None \<Rightarrow> None
      | Some lines' \<Rightarrow> apply_each rest lines')"

definition apply_replacements :: "str list \<Rightarrow> replacement list \<Rightarrow> str list option" where
  "apply_replacements lines replacements = apply_each (rev replacements) lines"

text \<open>The lines of a file, without the empty piece after a final newline.\<close>

definition split_original_lines :: "str \<Rightarrow> str list" where
  "split_original_lines contents =
     (let ls = split_on newline contents in if last_is_empty ls then butlast ls else ls)"

definition join_new_lines :: "str list \<Rightarrow> str" where
  "join_new_lines ls = join [newline] (if \<not> last_is_empty ls then ls @ [[]] else ls)"

text \<open>
  \<open>derive_new_contents_from_chunks\<close> after the file has been read: the outer option is a panic.
\<close>

definition new_contents_from_chunks ::
  "str \<Rightarrow> str \<Rightarrow> update_file_chunk list \<Rightarrow> (str, apply_patch_error) result option" where
  "new_contents_from_chunks path original_contents chunks =
     (let original_lines = split_original_lines original_contents in
      case compute_replacements original_lines path chunks of
        Err e \<Rightarrow> Some (Err e)
      | Ok replacements \<Rightarrow>
          map_option (\<lambda>ls. Ok (join_new_lines ls))
            (apply_replacements original_lines replacements))"

section \<open>Editing a line vector\<close>

text \<open>Replace \<open>n\<close> lines at \<open>s\<close>.\<close>

definition splice :: "nat \<Rightarrow> nat \<Rightarrow> 'a list \<Rightarrow> 'a list \<Rightarrow> 'a list" where
  "splice s n new ls = take s ls @ new @ drop (s + n) ls"

lemma remove_old_lines_eq: "remove_old_lines s n ls = take s ls @ drop (s + n) ls"
proof (induction s n ls rule: remove_old_lines.induct)
  case (2 s n ls)
  then show ?case
    by (cases "s < length ls") (auto simp: remove_at_def min_def add.commute)
qed simp

lemma insert_new_lines_eq:
  "s + k \<le> length ls \<Longrightarrow>
     insert_new_lines s k new ls = Some (take (s + k) ls @ new @ drop (s + k) ls)"
proof (induction new arbitrary: k ls)
  case (Cons x new)
  have "insert_new_lines s k (x # new) ls = insert_new_lines s (Suc k) new (insert_at (s + k) x ls)"
    using Cons.prems by simp
  also have "\<dots> = Some (take (s + Suc k) (insert_at (s + k) x ls) @ new @
      drop (s + Suc k) (insert_at (s + k) x ls))"
    using Cons.prems by (intro Cons.IH) (simp add: insert_at_def)
  also have "\<dots> = Some (take (s + k) ls @ (x # new) @ drop (s + k) ls)"
    using Cons.prems by (simp add: insert_at_def min_def)
  finally show ?case .
qed simp

lemma apply_each_Cons:
  assumes "s \<le> length ls"
  shows "apply_each ((s, n, new) # reps) ls = apply_each reps (splice s n new ls)"
  using assms by (simp add: remove_old_lines_eq insert_new_lines_eq splice_def min_def)

declare apply_each.simps(2) [simp del]

lemma apply_each_append:
  "apply_each (xs @ ys) ls = (case apply_each xs ls of None \<Rightarrow> None | Some ls' \<Rightarrow> apply_each ys ls')"
  by (induction xs ls rule: apply_each.induct) (auto simp: apply_each.simps(2) split: option.splits)

text \<open>Replacements in descending order of their start never run out of the vector.\<close>

lemma apply_each_total:
  "sorted_wrt (\<ge>) (map fst reps) \<Longrightarrow> (\<forall>r\<in>set reps. fst r \<le> length ls) \<Longrightarrow>
     \<exists>ls'. apply_each reps ls = Some ls'"
proof (induction reps arbitrary: ls)
  case (Cons r reps)
  obtain s n new where r: "r = (s, n, new)" by (cases r)
  have s: "s \<le> length ls" using Cons.prems(2) r by simp
  have "\<forall>q\<in>set reps. fst q \<le> length (splice s n new ls)"
    using Cons.prems(1) r s by (fastforce simp: splice_def)
  then have "\<exists>ls'. apply_each reps (splice s n new ls) = Some ls'"
    using Cons.prems(1) by (intro Cons.IH) auto
  then show ?case using s by (simp add: r apply_each_Cons)
qed simp

section \<open>The reference: one left-to-right copy\<close>

fun splice_all :: "nat \<Rightarrow> str list \<Rightarrow> replacement list \<Rightarrow> str list" where
  "splice_all pos ls [] = drop pos ls"
| "splice_all pos ls ((s, n, new) # reps) = take (s - pos) (drop pos ls) @ new @ splice_all (s + n) ls reps"

fun disjoint_ascending :: "nat \<Rightarrow> nat \<Rightarrow> replacement list \<Rightarrow> bool" where
  "disjoint_ascending pos len [] \<longleftrightarrow> pos \<le> len"
| "disjoint_ascending pos len ((s, n, new) # reps) \<longleftrightarrow> pos \<le> s \<and> disjoint_ascending (s + n) len reps"

lemma disjoint_ascending_le: "disjoint_ascending pos len reps \<Longrightarrow> pos \<le> len"
  by (induction pos len reps rule: disjoint_ascending.induct) auto

lemma disjoint_ascending_weaken:
  "disjoint_ascending pos len reps \<Longrightarrow> p \<le> pos \<Longrightarrow> disjoint_ascending p len reps"
  by (cases reps) auto

lemma disjoint_ascending_snoc:
  "disjoint_ascending pos len (reps @ [(s, n, new)]) \<longleftrightarrow>
     disjoint_ascending pos s reps \<and> s + n \<le> len"
  by (induction pos len reps rule: disjoint_ascending.induct) auto

lemma disjoint_ascending_starts:
  "disjoint_ascending pos len reps \<Longrightarrow>
     sorted (map fst reps) \<and> (\<forall>r\<in>set reps. pos \<le> fst r \<and> fst r + fst (snd r) \<le> len)"
proof (induction pos len reps rule: disjoint_ascending.induct)
  case (2 pos len s n new reps)
  then show ?case using disjoint_ascending_le by fastforce
qed auto

lemma apply_each_splice_all:
  "disjoint_ascending pos (length ls) reps \<Longrightarrow>
     apply_each (rev reps) ls = Some (take pos ls @ splice_all pos ls reps)"
proof (induction pos "length ls" reps rule: disjoint_ascending.induct)
  case (2 pos s n new reps)
  have pos: "pos \<le> s" and rest: "disjoint_ascending (s + n) (length ls) reps" using "2.prems" by auto
  have sn: "s + n \<le> length ls" using rest by (rule disjoint_ascending_le)
  let ?ls' = "take (s + n) ls @ splice_all (s + n) ls reps"
  have "apply_each (rev ((s, n, new) # reps)) ls = apply_each [(s, n, new)] ?ls'"
    using "2.hyps" [OF rest] by (simp add: apply_each_append)
  also have "\<dots> = Some (splice s n new ?ls')"
    using sn by (subst apply_each_Cons) auto
  also have "splice s n new ?ls' = take s ls @ new @ splice_all (s + n) ls reps"
    using sn by (simp add: splice_def min_def)
  also have "take s ls = take pos ls @ take (s - pos) (drop pos ls)"
    using pos by (metis le_add_diff_inverse take_add)
  finally show ?case by simp
qed simp

section \<open>Where the replacements come from\<close>

lemma seek_context_bounds:
  assumes "seek_context ls path c i = Ok j" "i \<le> length ls"
  shows "j \<le> length ls" "change_context c = None \<Longrightarrow> j = i"
proof -
  show "j \<le> length ls"
    using assms seek_sequence_bounds [of ls "[the (change_context c)]" i False "j - 1"]
    by (auto simp: seek_context_def split: option.splits)
  show "j = i" if "change_context c = None"
    using assms that by (simp add: seek_context_def)
qed

lemma seek_sequence_no_eof:
  assumes "seek_sequence ls p i False = Some k" "i \<le> length ls"
  shows "i \<le> k \<and> k + length p \<le> length ls"
proof (cases "p = []")
  case True
  then show ?thesis using assms by (simp add: seek_sequence_def)
next
  case False
  then show ?thesis
    using seek_sequence_SomeD [OF assms(1)] by (simp add: block_at_def seek_start_def)
qed

lemma seek_context_mono:
  assumes "seek_context ls path c i = Ok j" "i \<le> length ls"
  shows "i \<le> j"
  using assms seek_sequence_no_eof [of ls "[the (change_context c)]" i "j - 1"]
  by (auto simp: seek_context_def split: option.splits)

lemma seek_sequence_le:
  assumes "seek_sequence ls p i eof = Some k" "i \<le> length ls"
  shows "k + length p \<le> length ls"
proof (cases "p = []")
  case True
  then show ?thesis using assms by (simp add: seek_sequence_def)
qed (use assms seek_sequence_bounds in blast)

lemma seek_old_lines_bounds:
  assumes "seek_old_lines ls c i = Some (s, n, new)" "i \<le> length ls"
  shows "s + n \<le> length ls" "\<not> is_end_of_file c \<Longrightarrow> i \<le> s"
proof -
  let ?p = "old_lines c" and ?p' = "butlast (old_lines c)" and ?e = "is_end_of_file c"
  consider "seek_sequence ls ?p i ?e = Some s" "n = length ?p"
    | "seek_sequence ls ?p' i ?e = Some s" "n = length ?p'"
    using assms(1) by (auto simp: seek_old_lines_def Let_def split: if_splits)
  then show "s + n \<le> length ls" "\<not> is_end_of_file c \<Longrightarrow> i \<le> s"
    using seek_sequence_le [OF _ assms(2)] seek_sequence_no_eof [OF _ assms(2)]
    by (cases; force)+
qed

definition in_range :: "nat \<Rightarrow> replacement \<Rightarrow> bool" where
  "in_range len r \<longleftrightarrow> fst r + fst (snd r) \<le> len"

lemma replacements_loop_in_range:
  "replacements_loop ls path i acc cs = Ok reps \<Longrightarrow> i \<le> length ls \<Longrightarrow>
     \<forall>r\<in>set acc. in_range (length ls) r \<Longrightarrow> \<forall>r\<in>set reps. in_range (length ls) r"
proof (induction cs arbitrary: i acc)
  case (Cons c cs)
  from Cons.prems(1) obtain j where j: "seek_context ls path c i = Ok j"
    by (auto split: result.splits)
  have jl: "j \<le> length ls" by (rule seek_context_bounds(1) [OF j Cons.prems(2)])
  show ?case
  proof (cases "old_lines c = []")
    case True
    let ?k = "if last_is_empty ls then length ls - 1 else length ls"
    have "replacements_loop ls path j (acc @ [(?k, 0, new_lines c)]) cs = Ok reps"
      using Cons.prems(1) j True by simp
    moreover have "\<forall>r\<in>set (acc @ [(?k, 0, new_lines c)]). in_range (length ls) r"
      using Cons.prems(3) by (auto simp: in_range_def)
    ultimately show ?thesis using Cons.IH jl by blast
  next
    case False
    with Cons.prems(1) j obtain s n new where
        f: "seek_old_lines ls c j = Some (s, n, new)" and
        rec: "replacements_loop ls path (s + n) (acc @ [(s, n, new)]) cs = Ok reps"
      by (auto split: option.splits)
    have "s + n \<le> length ls" by (rule seek_old_lines_bounds(1) [OF f jl])
    then have "\<forall>r\<in>set (acc @ [(s, n, new)]). in_range (length ls) r"
      using Cons.prems(3) by (auto simp: in_range_def)
    then show ?thesis using Cons.IH rec \<open>s + n \<le> length ls\<close> by blast
  qed
qed simp

lemma compute_replacements_in_range:
  assumes "compute_replacements ls path cs = Ok reps"
  shows "sorted (map fst reps) \<and> (\<forall>r\<in>set reps. in_range (length ls) r)"
  using assms replacements_loop_in_range [of ls path 0 "[]" cs]
  by (auto simp: compute_replacements_def split: result.splits)

lemma apply_computed_total:
  assumes "compute_replacements ls path cs = Ok reps"
  shows "\<exists>ls'. apply_replacements ls reps = Some ls'"
proof -
  have "sorted (map fst reps)" "\<forall>r\<in>set reps. fst r \<le> length ls"
    using compute_replacements_in_range [OF assms] by (auto simp: in_range_def)
  then show ?thesis
    unfolding apply_replacements_def
    by (intro apply_each_total) (auto simp: sorted_wrt_rev simp flip: rev_map)
qed

text \<open>Chunks that replace lines and are not tied to the end of the file.\<close>

definition plain_chunk :: "update_file_chunk \<Rightarrow> bool" where
  "plain_chunk c \<longleftrightarrow> old_lines c \<noteq> [] \<and> \<not> is_end_of_file c"

lemma replacements_loop_disjoint:
  "replacements_loop ls path i acc cs = Ok reps \<Longrightarrow> i \<le> length ls \<Longrightarrow> \<forall>c\<in>set cs. plain_chunk c \<Longrightarrow>
     disjoint_ascending 0 i acc \<Longrightarrow> disjoint_ascending 0 (length ls) reps"
proof (induction cs arbitrary: i acc)
  case Nil
  then show ?case
  proof (cases acc rule: rev_cases)
    case (snoc ys y)
    obtain s n new where "y = (s, n, new)" by (cases y)
    then show ?thesis using Nil snoc by (auto simp: disjoint_ascending_snoc)
  qed simp
next
  case (Cons c cs)
  have c: "old_lines c \<noteq> []" "\<not> is_end_of_file c" using Cons.prems(3) by (auto simp: plain_chunk_def)
  from Cons.prems(1) obtain j where j: "seek_context ls path c i = Ok j"
    by (auto split: result.splits)
  have jl: "j \<le> length ls" by (rule seek_context_bounds(1) [OF j Cons.prems(2)])
  have ij: "i \<le> j" by (rule seek_context_mono [OF j Cons.prems(2)])
  from Cons.prems(1) j c obtain s n new where
      f: "seek_old_lines ls c j = Some (s, n, new)" and
      rec: "replacements_loop ls path (s + n) (acc @ [(s, n, new)]) cs = Ok reps"
    by (auto split: option.splits)
  have s: "s + n \<le> length ls" "j \<le> s" using seek_old_lines_bounds [OF f jl] c by auto
  have "disjoint_ascending 0 s acc"
  proof (cases acc rule: rev_cases)
    case (snoc ys y)
    obtain s' n' new' where "y = (s', n', new')" by (cases y)
    then show ?thesis using Cons.prems(4) snoc ij s(2) by (auto simp: disjoint_ascending_snoc)
  qed simp
  then have "disjoint_ascending 0 (s + n) (acc @ [(s, n, new)])"
    by (simp add: disjoint_ascending_snoc)
  then show ?case
    using Cons.IH [OF rec s(1)] Cons.prems(3) by simp
qed

lemma compute_replacements_disjoint:
  assumes "compute_replacements ls path cs = Ok reps" "\<forall>c\<in>set cs. plain_chunk c"
  shows "disjoint_ascending 0 (length ls) reps"
proof -
  obtain acc where acc: "replacements_loop ls path 0 [] cs = Ok acc" "reps = sort_key fst acc"
    using assms(1) by (auto simp: compute_replacements_def split: result.splits)
  have d: "disjoint_ascending 0 (length ls) acc"
    using replacements_loop_disjoint [OF acc(1) _ assms(2)] by simp
  then have "sort_key fst acc = acc"
    using disjoint_ascending_starts by (simp add: sorted_sort_id sort_key_id_if_sorted)
  then show ?thesis using acc(2) d by simp
qed

section \<open>Every replacement comes from its chunk\<close>

text \<open>The region \<open>(s, n)\<close> of the file holds the old lines of the chunk, with or without a final empty line.\<close>

definition chunk_located :: "str list \<Rightarrow> update_file_chunk \<Rightarrow> replacement \<Rightarrow> bool" where
  "chunk_located ls c r \<longleftrightarrow>
     (case r of (s, n, new) \<Rightarrow>
        (n = length (old_lines c) \<and> new = new_lines c \<and> block_at normalise ls (old_lines c) s) \<or>
        (last_is_empty (old_lines c) \<and> n = length (old_lines c) - 1 \<and>
         new = (if last_is_empty (new_lines c) then butlast (new_lines c) else new_lines c) \<and>
         block_at normalise ls (butlast (old_lines c)) s))"

lemma seek_sequence_block:
  assumes "seek_sequence ls p i e = Some s" "i \<le> length ls"
  shows "block_at normalise ls p s"
proof (cases "p = []")
  case True
  then show ?thesis using assms by (simp add: seek_sequence_def block_at_def)
qed (use assms seek_sequence_SomeD in blast)

lemma seek_old_lines_located:
  assumes "seek_old_lines ls c i = Some r" "i \<le> length ls"
  shows "chunk_located ls c r"
  using assms seek_sequence_block [OF _ assms(2)]
  by (auto simp: seek_old_lines_def chunk_located_def Let_def split: if_splits)

lemma replacements_loop_located:
  "replacements_loop ls path i acc cs = Ok reps \<Longrightarrow> i \<le> length ls \<Longrightarrow> \<forall>c\<in>set cs. plain_chunk c \<Longrightarrow>
     \<exists>rs. reps = acc @ rs \<and> list_all2 (chunk_located ls) cs rs"
proof (induction cs arbitrary: i acc)
  case (Cons c cs)
  have c: "old_lines c \<noteq> []" using Cons.prems(3) by (auto simp: plain_chunk_def)
  from Cons.prems(1) obtain j where j: "seek_context ls path c i = Ok j"
    by (auto split: result.splits)
  have jl: "j \<le> length ls" by (rule seek_context_bounds(1) [OF j Cons.prems(2)])
  from Cons.prems(1) j c obtain s n new where
      f: "seek_old_lines ls c j = Some (s, n, new)" and
      rec: "replacements_loop ls path (s + n) (acc @ [(s, n, new)]) cs = Ok reps"
    by (auto split: option.splits)
  have "s + n \<le> length ls" by (rule seek_old_lines_bounds(1) [OF f jl])
  from Cons.IH [OF rec this] Cons.prems(3)
  obtain rs where "reps = (acc @ [(s, n, new)]) @ rs" "list_all2 (chunk_located ls) cs rs" by auto
  with seek_old_lines_located [OF f jl] show ?case
    by (intro exI [of _ "(s, n, new) # rs"]) simp
qed simp

lemma compute_replacements_located:
  assumes "compute_replacements ls path cs = Ok reps" "\<forall>c\<in>set cs. plain_chunk c"
  shows "list_all2 (chunk_located ls) cs reps"
proof -
  obtain acc where acc: "replacements_loop ls path 0 [] cs = Ok acc" "reps = sort_key fst acc"
    using assms(1) by (auto simp: compute_replacements_def split: result.splits)
  have "disjoint_ascending 0 (length ls) acc"
    using replacements_loop_disjoint [OF acc(1) _ assms(2)] by simp
  then have "reps = acc"
    using disjoint_ascending_starts acc(2) by (simp add: sort_key_id_if_sorted)
  then show ?thesis using replacements_loop_located [OF acc(1) _ assms(2)] by simp
qed

lemma join_new_lines_eq:
  "join_new_lines ls =
     (if last_is_empty ls then concat (map (\<lambda>l. l @ [newline]) (butlast ls))
      else concat (map (\<lambda>l. l @ [newline]) ls))"
proof -
  have j: "join [newline] (xs @ [[]]) = concat (map (\<lambda>l. l @ [newline]) xs)" for xs :: "str list"
    by (induction xs) (auto simp: join_Cons)
  have "ls = butlast ls @ [[]]" if "last_is_empty ls"
    using that append_butlast_last_id [of ls] by (simp add: last_is_empty_def)
  then show ?thesis using j by (simp add: join_new_lines_def) (metis j)
qed

section \<open>Properties\<close>

text \<open>
  rebuilding a file never panics: whatever the chunks and the file are, the in-place edit of the
  line vector stays inside the vector, so the update either yields a new content or a reported error.
\<close>

theorem new_contents_total: "\<exists>r. new_contents_from_chunks path original_contents chunks = Some r"
  using apply_computed_total
  by (cases "compute_replacements (split_original_lines original_contents) path chunks")
    (force simp: new_contents_from_chunks_def Let_def)+

text \<open>
  C21: for chunks that replace lines and are not tied to the end of the file, the computed regions are
  in order, disjoint and inside the file, each one holds the old lines of its chunk (up to white space
  and punctuation), and the reverse in-place edit yields the one-pass copy of the file in which exactly
  these regions are exchanged.
\<close>

theorem apply_computed_is_splice:
  assumes "compute_replacements ls path chunks = Ok reps" and "\<forall>c\<in>set chunks. plain_chunk c"
  shows "apply_replacements ls reps = Some (splice_all 0 ls reps) \<and>
         disjoint_ascending 0 (length ls) reps \<and> list_all2 (chunk_located ls) chunks reps"
  using compute_replacements_disjoint [OF assms] compute_replacements_located [OF assms]
    apply_each_splice_all [of 0 ls reps]
  by (simp add: apply_replacements_def)

definition sample_chunk :: "str list \<Rightarrow> str list \<Rightarrow> bool \<Rightarrow> update_file_chunk" where
  "sample_chunk old new eof =
     \<lparr>change_context = None, old_lines = old, new_lines = new, is_end_of_file = eof\<rparr>"

lemmas seek_eval = seek_sequence_def seek_start_def exact_pass_def keyed_pass_def Let_def text_eval upt_rec

lemmas compute_eval = compute_replacements_def seek_context_def seek_old_lines_def last_is_empty_def
  sample_chunk_def seek_eval

theorem apply_computed_is_splice_witness:
  "apply_replacements [lit ''a'', lit ''b'', lit ''c'']
     [(0, 1, [lit ''x'', lit ''y'']), (2, 1, [lit ''z''])] =
     Some (splice_all 0 [lit ''a'', lit ''b'', lit ''c'']
       [(0, 1, [lit ''x'', lit ''y'']), (2, 1, [lit ''z''])])"
proof -
  have "compute_replacements [lit ''a'', lit ''b'', lit ''c''] (lit ''f'')
      [sample_chunk [lit ''a''] [lit ''x'', lit ''y''] False, sample_chunk [lit ''c''] [lit ''z''] False] =
      Ok [(0, 1, [lit ''x'', lit ''y'']), (2, 1, [lit ''z''])]"
    by (simp add: compute_eval)
  from apply_computed_is_splice [OF this] show ?thesis
    by (simp add: plain_chunk_def sample_chunk_def)
qed

text \<open>
  the lines outside the replaced regions survive, but the rebuilt file is not framed like the
  original: a missing final newline is added, and one newline of a trailing blank line is dropped.
\<close>

theorem rebuild_untouched:
  "join_new_lines (split_original_lines contents) =
     (if contents = [] then []
      else if last contents \<noteq> newline then contents @ [newline]
      else if last_is_empty (split_on newline (butlast contents)) then butlast contents
      else contents)"
proof -
  have sep: "split_on newline (xs @ [newline]) = split_on newline xs @ [[]]" for xs
    by (induction xs) (auto split: list.splits)
  have last_part: "last_is_empty (split_on newline xs) \<longleftrightarrow> xs = [] \<or> last xs = newline" for xs
  proof (cases xs rule: rev_cases)
    case (snoc ys y)
    have "last (split_on newline (ys @ [y])) \<noteq> []" if "y \<noteq> newline"
      using that by (induction ys) (auto split: list.splits if_splits)
    then show ?thesis using snoc sep by (auto simp: last_is_empty_def)
  qed (simp add: last_is_empty_def)
  show ?thesis
  proof (cases contents rule: rev_cases)
    case Nil
    then show ?thesis by (simp add: join_new_lines_def split_original_lines_def last_is_empty_def)
  next
    case (snoc ys y)
    have app: "join [newline] (split_on newline xs @ [[]]) = xs @ [newline]" for xs
      using join_split_on [of newline "xs @ [newline]"] by (simp add: sep)
    show ?thesis
      using snoc last_part app join_split_on [of newline]
      by (auto simp: join_new_lines_def split_original_lines_def Let_def sep)
  qed
qed

text \<open>
  an end-of-file chunk is searched from the end of the file, not from where the previous chunk
  stopped, so two accepted chunks can overlap; the edit of the second one is then lost.
\<close>

theorem eof_chunk_overlap_is_lost:
  "new_contents_from_chunks path (lit ''a'' @ [newline] @ lit ''b'' @ [newline])
     [sample_chunk [lit ''a'', lit ''b''] [lit ''x''] False, sample_chunk [lit ''b''] [lit ''y''] True] =
   Some (Ok (lit ''x'' @ [newline]))"
proof -
  have "compute_replacements [lit ''a'', lit ''b''] path
      [sample_chunk [lit ''a'', lit ''b''] [lit ''x''] False, sample_chunk [lit ''b''] [lit ''y''] True] =
      Ok [(0, 2, [lit ''x'']), (1, 1, [lit ''y''])]"
    by (simp add: compute_eval)
  moreover have "split_original_lines (lit ''a'' @ [newline] @ lit ''b'' @ [newline]) = [lit ''a'', lit ''b'']"
    by (simp add: split_original_lines_def last_is_empty_def text_eval)
  ultimately show ?thesis
    by (simp add: new_contents_from_chunks_def apply_replacements_def apply_each_Cons splice_def
        join_new_lines_def last_is_empty_def text_eval)
qed

end
