(* ===== verification/Absolute_Path.thy ===== *)
theory Absolute_Path
  imports Codex_Prelude
begin

text \<open>
  Model of \<^verbatim>\<open>utils/absolute-path\<close> on Unix: lexical normalisation of paths, resolution against a base
  directory and expansion of a leading tilde. The home directory is asked from the operating system
  and is a parameter. A path is its text; \<open>path_components\<close> is \<open>Path::components\<close>.
\<close>

section \<open>Paths of the standard library\<close>

abbreviation slash :: uchar where "slash \<equiv> 47"

datatype component = RootDir | CurDir | ParentDir | Normal str

definition path_is_absolute :: "str \<Rightarrow> bool" where
  [text_eval]: "path_is_absolute p \<longleftrightarrow> starts_with [slash] p"

definition component_of :: "str \<Rightarrow> component" where
  [text_eval]: "component_of part = (if part = lit ''..'' then ParentDir else Normal part)"

text \<open>Empty parts and inner dots are skipped; a dot at the start of a relative path is kept.\<close>

definition path_components :: "str \<Rightarrow> component list" where
  [text_eval]: "path_components p =
     (if path_is_absolute p then [RootDir]
      else if hd (split_on slash p) = lit ''.'' then [CurDir] else []) @
     map component_of (filter (\<lambda>part. part \<noteq> [] \<and> part \<noteq> lit ''.'') (split_on slash p))"

definition path_join :: "str \<Rightarrow> str \<Rightarrow> str" where
  [text_eval]: "path_join base p =
     (if path_is_absolute p then p
      else if base = [] \<or> last base = slash then base @ p
      else base @ slash # p)"

text \<open>\<open>Path::file_name\<close>\<close>

definition path_file_name :: "str \<Rightarrow> str option" where
  [text_eval]: "path_file_name p =
     (case rev (path_components p) of Normal name # _ \<Rightarrow> Some name | _ \<Rightarrow> None)"

fun component_text :: "component \<Rightarrow> str" where
  "component_text RootDir = []"
| "component_text CurDir = lit ''.''"
| "component_text ParentDir = lit ''..''"
| "component_text (Normal name) = name"

section \<open>Normalisation\<close>

text \<open>
  The \<open>PathBuf\<close> that \<open>normalize_path\<close> builds is a flag (does it start at the root?) and its names:
  pushing the root restarts it, \<open>pop\<close> removes the last name and does nothing at the root.
\<close>

fun normalize_step :: "bool \<times> str list \<Rightarrow> component \<Rightarrow> bool \<times> str list" where
  "normalize_step (root, names) CurDir = (root, names)"
| "normalize_step (root, names) ParentDir = (root, butlast names)"
| "normalize_step (root, names) RootDir = (True, [])"
| "normalize_step (root, names) (Normal name) = (root, names @ [name])"

fun path_of_names :: "bool \<times> str list \<Rightarrow> str" where
  "path_of_names (root, names) =
     (if root then slash # join [slash] names
      else if names = [] then lit ''.'' else join [slash] names)"

definition normalize_path :: "str \<Rightarrow> str" where
  "normalize_path p = path_of_names (foldl normalize_step (False, []) (path_components p))"

definition path_with_base :: "str \<Rightarrow> str \<Rightarrow> str" where
  "path_with_base p base = (if path_is_absolute p then p else path_join base p)"

definition absolutize_from :: "str \<Rightarrow> str \<Rightarrow> str" where
  "absolutize_from p base = normalize_path (path_with_base p base)"

definition maybe_expand_home_directory :: "str option \<Rightarrow> str \<Rightarrow> str" where
  "maybe_expand_home_directory home_dir p =
     (case (home_dir, strip_prefix (lit ''~'') p) of
        (Some home, Some rest) \<Rightarrow>
          if rest = [] then home
          else (case strip_prefix [slash] rest of
                  Some rest' \<Rightarrow> path_join home (dropWhile (\<lambda>c. c = slash) rest')
                | None \<Rightarrow> p)
      | _ \<Rightarrow> p)"

definition resolve_path_against_base :: "str option \<Rightarrow> str \<Rightarrow> str \<Rightarrow> str" where
  "resolve_path_against_base home_dir p base =
     absolutize_from (maybe_expand_home_directory home_dir p) base"

text \<open>\<open>std::env::current_dir\<close> is a parameter; \<open>Err\<close> stands for its failure.\<close>

definition absolutize :: "(str, 'e) result \<Rightarrow> str \<Rightarrow> (str, 'e) result" where
  "absolutize current_dir p =
     (if path_is_absolute p then Ok (normalize_path p)
      else result_bind current_dir (\<lambda>cwd. Ok (absolutize_from p cwd)))"

definition from_absolute_path :: "str option \<Rightarrow> (str, 'e) result \<Rightarrow> str \<Rightarrow> (str, 'e) result" where
  "from_absolute_path home_dir current_dir p =
     absolutize current_dir (maybe_expand_home_directory home_dir p)"

text \<open>\<open>AbsolutePathBuf::parent\<close> on a normalised absolute path.\<close>

definition abs_names :: "str \<Rightarrow> str list" where
  "abs_names p = filter (\<lambda>part. part \<noteq> []) (split_on slash p)"

definition abs_parent :: "str \<Rightarrow> str option" where
  "abs_parent p =
     (if abs_names p = [] then None else Some (path_of_names (True, butlast (abs_names p))))"

section \<open>Absolute and normalised paths\<close>

definition path_name :: "str \<Rightarrow> bool" where
  "path_name n \<longleftrightarrow> n \<noteq> [] \<and> slash \<notin> set n \<and> n \<noteq> lit ''.'' \<and> n \<noteq> lit ''..''"

definition normal_absolute :: "str \<Rightarrow> bool" where
  "normal_absolute p \<longleftrightarrow> (\<exists>names. p = slash # join [slash] names \<and> list_all path_name names)"

lemma path_components_names:
  "Normal n \<in> set (path_components p) \<Longrightarrow> path_name n"
  by (auto simp: path_components_def path_name_def component_of_def
      dest: split_on_parts split: if_splits)

lemma foldl_normalize_root:
  "(\<forall>c\<in>set cs. c \<noteq> RootDir) \<Longrightarrow> fst (foldl normalize_step (root, names) cs) = root"
proof (induction cs arbitrary: root names)
  case (Cons c cs)
  then show ?case by (cases c) auto
qed simp

lemma foldl_normalize_names:
  "list_all path_name names \<Longrightarrow> (\<forall>n. Normal n \<in> set cs \<longrightarrow> path_name n) \<Longrightarrow>
     list_all path_name (snd (foldl normalize_step (root, names) cs))"
proof (induction cs arbitrary: root names)
  case (Cons c cs)
  have "list_all path_name (butlast names)"
    using Cons.prems(1) by (auto simp: list_all_iff dest: in_set_butlastD)
  then show ?case using Cons by (cases c) auto
qed simp

lemma path_components_absolute:
  assumes "path_is_absolute p"
  obtains cs where "path_components p = RootDir # cs" "\<forall>c\<in>set cs. c \<noteq> RootDir"
  using assms by (auto simp: path_components_def component_of_def intro!: that)

lemma normalize_path_absolute:
  assumes "path_is_absolute p"
  shows "normal_absolute (normalize_path p)"
proof -
  obtain cs where cs: "path_components p = RootDir # cs" "\<forall>c\<in>set cs. c \<noteq> RootDir"
    using assms by (rule path_components_absolute)
  obtain root names where f: "foldl normalize_step (True, []) cs = (root, names)"
    by (cases "foldl normalize_step (True, []) cs")
  have "root = True" using foldl_normalize_root [OF cs(2), of True "[]"] f by simp
  moreover have "list_all path_name names"
    using foldl_normalize_names [of "[]" cs True] path_components_names [of _ p] cs(1) f by auto
  ultimately show ?thesis
    using cs(1) f by (auto simp: normalize_path_def normal_absolute_def)
qed

lemma path_with_base_absolute:
  "path_is_absolute base \<Longrightarrow> path_is_absolute (path_with_base p base)"
  by (auto simp: path_with_base_def path_join_def path_is_absolute_def starts_with_iff)

lemma components_normal:
  assumes "list_all path_name names"
  shows "path_components (slash # join [slash] names) = RootDir # map Normal names"
proof (cases "names = []")
  case True
  then show ?thesis by (simp add: path_components_def path_is_absolute_def starts_with_def)
next
  case False
  then have "split_on slash (join [slash] names) = names"
    using assms by (intro split_on_join) (auto simp: list_all_iff path_name_def)
  moreover have "filter (\<lambda>part. part \<noteq> [] \<and> part \<noteq> lit ''.'') names = names"
    using assms by (auto simp: filter_id_conv list_all_iff path_name_def)
  moreover have "map component_of names = map Normal names"
    using assms by (auto simp: list_all_iff path_name_def component_of_def)
  ultimately show ?thesis
    by (simp add: path_components_def path_is_absolute_def starts_with_def)
qed

lemma foldl_normalize_Normal:
  "foldl normalize_step (root, names) (map Normal ns) = (root, names @ ns)"
  by (induction ns arbitrary: names) auto

lemma normalize_path_fixed: "normal_absolute p \<Longrightarrow> normalize_path p = p"
  by (auto simp: normal_absolute_def normalize_path_def components_normal foldl_normalize_Normal)

lemma normal_absolute_is_absolute: "normal_absolute p \<Longrightarrow> path_is_absolute p"
  by (auto simp: normal_absolute_def path_is_absolute_def starts_with_def)

text \<open>
  resolving any path against an absolute base yields an absolute, normalised path: it starts at the
  root and has no empty, dot or dot-dot component, however many parent components the input has.
\<close>

theorem resolve_path_normal:
  assumes "path_is_absolute base"
  shows "normal_absolute (resolve_path_against_base home_dir p base)"
  unfolding resolve_path_against_base_def absolutize_from_def
  using assms by (intro normalize_path_absolute path_with_base_absolute)

theorem resolve_path_normal_witness:
  "path_is_absolute (lit ''/base/cwd'') \<and>
   resolve_path_against_base None (lit ''../../../x/./y'') (lit ''/base/cwd'') = lit ''/x/y'' \<and>
   normal_absolute (resolve_path_against_base None (lit ''../../../x/./y'') (lit ''/base/cwd''))"
proof -
  have "path_is_absolute (lit ''/base/cwd'')" by (simp add: text_eval)
  moreover have "resolve_path_against_base None (lit ''../../../x/./y'') (lit ''/base/cwd'') = lit ''/x/y''"
    by (simp add: resolve_path_against_base_def maybe_expand_home_directory_def absolutize_from_def
        path_with_base_def normalize_path_def text_eval)
  ultimately show ?thesis
    using resolve_path_normal [of "lit ''/base/cwd''" None "lit ''../../../x/./y''"] by simp
qed

text \<open>
  resolution is idempotent: a path that is already absolute and normalised, in particular any
  result of a resolution, resolves to itself against every base.
\<close>

theorem resolve_path_idempotent:
  assumes "normal_absolute p"
  shows "resolve_path_against_base home_dir p base = p"
proof -
  have "maybe_expand_home_directory home_dir p = p"
    using assms by (auto simp: maybe_expand_home_directory_def normal_absolute_def lit_def
        split: option.splits)
  then show ?thesis
    using assms normal_absolute_is_absolute [OF assms]
    by (simp add: resolve_path_against_base_def absolutize_from_def path_with_base_def
        normalize_path_fixed)
qed

theorem resolve_path_idempotent_witness:
  "normal_absolute (lit ''/a/b'') \<and>
   resolve_path_against_base (Some (lit ''/home'')) (lit ''/a/b'') (lit ''/c'') = lit ''/a/b''"
proof -
  have "normal_absolute (lit ''/a/b'')"
    unfolding normal_absolute_def
    by (rule exI [of _ "[lit ''a'', lit ''b'']"]) (simp add: path_name_def text_eval)
  then show ?thesis using resolve_path_idempotent [of "lit ''/a/b''"] by simp
qed

end
