(* ===== verification/Apply_Patch.thy ===== *)
theory Apply_Patch
  imports Patch_Replacements Absolute_Path
begin

text \<open>
  Model of the effectful part of \<^verbatim>\<open>apply-patch/src/lib.rs\<close>: applying parsed hunks to a file system and
  recording the committed changes. The file system (trait \<open>ExecutorFileSystem\<close>) is a record of
  operations on an abstract state; a sandbox context only travels through to it. The mutable
  \<open>AppliedPatchDelta\<close> and the affected paths are part of an explicit state that survives an error, as
  the \<open>&mut delta\<close> of the code does. A panic while a file is rebuilt is the error \<open>Panicked\<close>.
\<close>

section \<open>The file system interface\<close>

record file_metadata =
  is_directory :: bool
  is_file :: bool
  is_symlink :: bool
  created_at_ms :: int
  modified_at_ms :: int

record 'fs executor_fs =
  read_file_text :: "str \<Rightarrow> 'fs \<Rightarrow> (str, io_error) result"
  write_file :: "str \<Rightarrow> str \<Rightarrow> 'fs \<Rightarrow> 'fs \<times> (unit, io_error) result"
  create_directory :: "str \<Rightarrow> 'fs \<Rightarrow> 'fs \<times> (unit, io_error) result"
  get_metadata :: "str \<Rightarrow> 'fs \<Rightarrow> (file_metadata, io_error) result"
  remove_file :: "str \<Rightarrow> 'fs \<Rightarrow> 'fs \<times> (unit, io_error) result"

section \<open>Errors and their messages\<close>

fun parse_error_message :: "parse_error \<Rightarrow> str" where
  "parse_error_message (InvalidPatchError message) = lit ''invalid patch: '' @ message"
| "parse_error_message (InvalidHunkError message line_number) =
     lit ''invalid hunk at line '' @ show_nat line_number @ lit '', '' @ message"

definition implicit_invocation_message :: str where
  "implicit_invocation_message =
     lit ''patch detected without explicit call to apply_patch. Rerun as ['' @ [34] @ lit ''apply_patch'' @
     [34] @ lit '', '' @ [34] @ lit ''<patch>'' @ [34] @ lit '']''"

fun apply_patch_error_message :: "apply_patch_error \<Rightarrow> str" where
  "apply_patch_error_message (ParseError e) = parse_error_message e"
| "apply_patch_error_message (IoError ctx source) = ctx @ lit '': '' @ io_message source"
| "apply_patch_error_message (ComputeReplacements message) = message"
| "apply_patch_error_message ImplicitInvocation = implicit_invocation_message"

text \<open>
  The \<open>anyhow::Error\<close> values of \<open>apply_hunks_to_files\<close>: an I/O error with a context line, a converted
  \<open>ApplyPatchError\<close>, or a bare message.
\<close>

datatype anyhow_error =
    ContextIo str io_error
  | PatchError apply_patch_error
  | Bail str
  | Panicked

fun anyhow_message :: "anyhow_error \<Rightarrow> str" where
  "anyhow_message (ContextIo ctx e) = ctx"
| "anyhow_message (PatchError e) = apply_patch_error_message e"
| "anyhow_message (Bail message) = message"
| "anyhow_message Panicked = []"

section \<open>The committed changes\<close>

datatype applied_patch_file_change =
    Applied_Add str "str option"
  | Applied_Delete str
  | Applied_Update "str option" str "str option" str

record applied_patch_change =
  change_path :: str
  change :: applied_patch_file_change

record applied_patch_delta =
  delta_changes :: "applied_patch_change list"
  delta_exact :: bool

definition delta_empty :: applied_patch_delta where
  "delta_empty = \<lparr>delta_changes = [], delta_exact = True\<rparr>"

definition delta_append :: "applied_patch_delta \<Rightarrow> applied_patch_delta \<Rightarrow> applied_patch_delta" where
  "delta_append d other =
     \<lparr>delta_changes = delta_changes d @ delta_changes other,
      delta_exact = (delta_exact d \<and> delta_exact other)\<rparr>"

record affected_paths =
  added :: "str list"
  modified :: "str list"
  deleted :: "str list"

record 'fs apply_state =
  as_fs :: 'fs
  as_delta :: applied_patch_delta
  as_affected :: affected_paths

definition set_fs :: "'fs \<Rightarrow> 'fs apply_state \<Rightarrow> 'fs apply_state" where
  "set_fs s st = st\<lparr>as_fs := s\<rparr>"

definition set_exact :: "bool \<Rightarrow> 'fs apply_state \<Rightarrow> 'fs apply_state" where
  "set_exact b st = st\<lparr>as_delta := (as_delta st)\<lparr>delta_exact := b\<rparr>\<rparr>"

definition push_change :: "str \<Rightarrow> applied_patch_file_change \<Rightarrow> 'fs apply_state \<Rightarrow> 'fs apply_state" where
  "push_change path c st =
     st\<lparr>as_delta := (as_delta st)
       \<lparr>delta_changes := delta_changes (as_delta st) @ [\<lparr>change_path = path, change = c\<rparr>]\<rparr>\<rparr>"

text \<open>\<open>delta.changes[index] = ...\<close> on an index that \<open>push\<close> has just created.\<close>

definition replace_change ::
  "nat \<Rightarrow> str \<Rightarrow> applied_patch_file_change \<Rightarrow> 'fs apply_state \<Rightarrow> 'fs apply_state" where
  "replace_change i path c st =
     st\<lparr>as_delta := (as_delta st)
       \<lparr>delta_changes := (delta_changes (as_delta st))[i := \<lparr>change_path = path, change = c\<rparr>]\<rparr>\<rparr>"

definition push_added :: "str \<Rightarrow> 'fs apply_state \<Rightarrow> 'fs apply_state" where
  "push_added path st = st\<lparr>as_affected := (as_affected st)\<lparr>added := added (as_affected st) @ [path]\<rparr>\<rparr>"

definition push_modified :: "str \<Rightarrow> 'fs apply_state \<Rightarrow> 'fs apply_state" where
  "push_modified path st = st\<lparr>as_affected := (as_affected st)\<lparr>modified := modified (as_affected st) @ [path]\<rparr>\<rparr>"

definition push_deleted :: "str \<Rightarrow> 'fs apply_state \<Rightarrow> 'fs apply_state" where
  "push_deleted path st = st\<lparr>as_affected := (as_affected st)\<lparr>deleted := deleted (as_affected st) @ [path]\<rparr>\<rparr>"

section \<open>Helpers on one file\<close>

definition ensure_not_directory :: "'fs executor_fs \<Rightarrow> str \<Rightarrow> 'fs \<Rightarrow> (unit, io_error) result" where
  "ensure_not_directory fs path s =
     (case get_metadata fs path s of
        Err e \<Rightarrow> Err e
      | Ok metadata \<Rightarrow>
          if is_directory metadata then Err (Io_Error InvalidInput (lit ''path is a directory'')) else Ok ())"

definition remove_failure_was_side_effect_free ::
  "'fs executor_fs \<Rightarrow> str \<Rightarrow> str option \<Rightarrow> 'fs \<Rightarrow> bool" where
  "remove_failure_was_side_effect_free fs path expected_content s =
     (case expected_content of
        Some expected \<Rightarrow>
          (case read_file_text fs path s of Ok content \<Rightarrow> content = expected | Err e \<Rightarrow> False)
      | None \<Rightarrow> False)"

definition note_existing_path_delta_support :: "'fs executor_fs \<Rightarrow> str \<Rightarrow> 'fs \<Rightarrow> bool \<Rightarrow> bool" where
  "note_existing_path_delta_support fs path s exact =
     (case get_metadata fs path s of
        Ok metadata \<Rightarrow> if is_file metadata \<and> \<not> is_symlink metadata then exact else False
      | Err source \<Rightarrow> if io_kind source = NotFound then exact else False)"

definition read_optional_file_text_for_delta ::
  "'fs executor_fs \<Rightarrow> str \<Rightarrow> 'fs \<Rightarrow> bool \<Rightarrow> str option \<times> bool" where
  "read_optional_file_text_for_delta fs path s exact =
     (let exact = note_existing_path_delta_support fs path s exact in
      case read_file_text fs path s of
        Ok content \<Rightarrow> (Some content, exact)
      | Err source \<Rightarrow> if io_kind source = NotFound then (None, exact) else (None, False))"

definition write_failed :: "str \<Rightarrow> str" where
  "write_failed path = lit ''Failed to write file '' @ path"

definition write_file_with_missing_parent_retry ::
  "'fs executor_fs \<Rightarrow> str \<Rightarrow> str \<Rightarrow> 'fs \<Rightarrow> 'fs \<times> (unit, anyhow_error) result" where
  "write_file_with_missing_parent_retry fs path_abs contents s =
     (case write_file fs path_abs contents s of
        (s1, Ok _) \<Rightarrow> (s1, Ok ())
      | (s1, Err err) \<Rightarrow>
          if io_kind err = NotFound then
            (let (s2, made) =
               (case abs_parent path_abs of
                  Some parent_abs \<Rightarrow> create_directory fs parent_abs s1
                | None \<Rightarrow> (s1, Ok ()))
             in case made of
                  Err e \<Rightarrow>
                    (s2, Err (ContextIo (lit ''Failed to create parent directories for '' @ path_abs) e))
                | Ok _ \<Rightarrow>
                    (case write_file fs path_abs contents s2 of
                       (s3, Ok _) \<Rightarrow> (s3, Ok ())
                     | (s3, Err e) \<Rightarrow> (s3, Err (ContextIo (write_failed path_abs) e))))
          else (s1, Err (ContextIo (write_failed path_abs) err)))"

record applied_patch =
  original_contents :: str
  new_contents :: str

definition derive_new_contents_from_chunks ::
  "'fs executor_fs \<Rightarrow> str \<Rightarrow> update_file_chunk list \<Rightarrow> 'fs \<Rightarrow> (applied_patch, apply_patch_error) result option" where
  "derive_new_contents_from_chunks fs path_abs chunks s =
     (case read_file_text fs path_abs s of
        Err err \<Rightarrow> Some (Err (IoError (lit ''Failed to read file to update '' @ path_abs) err))
      | Ok original \<Rightarrow>
          map_option (\<lambda>r. result_bind r (\<lambda>new. Ok \<lparr>original_contents = original, new_contents = new\<rparr>))
            (new_contents_from_chunks path_abs original chunks))"

section \<open>Applying one hunk\<close>

definition apply_add_file ::
  "'fs executor_fs \<Rightarrow> str \<Rightarrow> str \<Rightarrow> str \<Rightarrow> 'fs apply_state \<Rightarrow> 'fs apply_state \<times> (unit, anyhow_error) result" where
  "apply_add_file fs affected_path path_abs contents st =
     (let (overwritten_content, exact) =
        read_optional_file_text_for_delta fs path_abs (as_fs st) (delta_exact (as_delta st));
          st = set_exact exact st
      in case write_file_with_missing_parent_retry fs path_abs contents (as_fs st) of
           (s', Err e) \<Rightarrow> (set_exact False (set_fs s' st), Err e)
         | (s', Ok _) \<Rightarrow>
             (push_added affected_path
                (push_change path_abs (Applied_Add contents overwritten_content) (set_fs s' st)), Ok ()))"

definition delete_failed :: "str \<Rightarrow> str" where
  "delete_failed path = lit ''Failed to delete file '' @ path"

definition apply_delete_file ::
  "'fs executor_fs \<Rightarrow> str \<Rightarrow> str \<Rightarrow> 'fs apply_state \<Rightarrow> 'fs apply_state \<times> (unit, anyhow_error) result" where
  "apply_delete_file fs affected_path path_abs st =
     (let exact = note_existing_path_delta_support fs path_abs (as_fs st) (delta_exact (as_delta st));
          deleted_content = ok (read_file_text fs path_abs (as_fs st));
          st = set_exact (if deleted_content = None then False else exact) st
      in case ensure_not_directory fs path_abs (as_fs st) of
           Err e \<Rightarrow> (st, Err (ContextIo (delete_failed path_abs) e))
         | Ok _ \<Rightarrow>
             (case remove_file fs path_abs (as_fs st) of
                (s', Err e) \<Rightarrow>
                  (set_exact (delta_exact (as_delta st) \<and>
                      remove_failure_was_side_effect_free fs path_abs deleted_content s') (set_fs s' st),
                   Err (ContextIo (delete_failed path_abs) e))
              | (s', Ok _) \<Rightarrow>
                  (push_deleted affected_path
                     (case deleted_content of
                        Some content \<Rightarrow> push_change path_abs (Applied_Delete content) (set_fs s' st)
                      | None \<Rightarrow> set_fs s' st), Ok ())))"

definition remove_original_failed :: "str \<Rightarrow> str" where
  "remove_original_failed path = lit ''Failed to remove original '' @ path"

text \<open>The branch of an update with a move: write the destination, then remove the original.\<close>

definition apply_move ::
  "'fs executor_fs \<Rightarrow> str \<Rightarrow> str \<Rightarrow> str \<Rightarrow> applied_patch \<Rightarrow> 'fs apply_state \<Rightarrow>
     'fs apply_state \<times> (unit, anyhow_error) result" where
  "apply_move fs affected_path path_abs dest_abs patch st =
     (let (overwritten_move_content, exact) =
        read_optional_file_text_for_delta fs dest_abs (as_fs st) (delta_exact (as_delta st));
          st = set_exact exact st
      in case write_file_with_missing_parent_retry fs dest_abs (new_contents patch) (as_fs st) of
           (s1, Err e) \<Rightarrow> (set_exact False (set_fs s1 st), Err e)
         | (s1, Ok _) \<Rightarrow>
             (let dest_write_change_index = length (delta_changes (as_delta st));
                  st = push_change dest_abs (Applied_Add (new_contents patch) overwritten_move_content)
                         (set_fs s1 st)
              in case ensure_not_directory fs path_abs (as_fs st) of
                   Err e \<Rightarrow> (st, Err (ContextIo (remove_original_failed path_abs) e))
                 | Ok _ \<Rightarrow>
                     (case remove_file fs path_abs (as_fs st) of
                        (s2, Err e) \<Rightarrow>
                          (set_exact (delta_exact (as_delta st) \<and>
                             remove_failure_was_side_effect_free fs path_abs
                               (Some (original_contents patch)) s2) (set_fs s2 st),
                           Err (ContextIo (remove_original_failed path_abs) e))
                      | (s2, Ok _) \<Rightarrow>
                          (push_modified affected_path
                             (replace_change dest_write_change_index path_abs
                                (Applied_Update (Some dest_abs) (original_contents patch)
                                   overwritten_move_content (new_contents patch))
                                (set_fs s2 st)), Ok ()))))"

definition apply_in_place ::
  "'fs executor_fs \<Rightarrow> str \<Rightarrow> str \<Rightarrow> applied_patch \<Rightarrow> 'fs apply_state \<Rightarrow>
     'fs apply_state \<times> (unit, anyhow_error) result" where
  "apply_in_place fs affected_path path_abs patch st =
     (case write_file fs path_abs (new_contents patch) (as_fs st) of
        (s', Err e) \<Rightarrow> (set_exact False (set_fs s' st), Err (ContextIo (write_failed path_abs) e))
      | (s', Ok _) \<Rightarrow>
          (push_modified affected_path
             (push_change path_abs
                (Applied_Update None (original_contents patch) None (new_contents patch)) (set_fs s' st)),
           Ok ()))"

definition apply_update_file ::
  "'fs executor_fs \<Rightarrow> str option \<Rightarrow> str \<Rightarrow> str \<Rightarrow> str \<Rightarrow> str option \<Rightarrow> update_file_chunk list \<Rightarrow>
     'fs apply_state \<Rightarrow> 'fs apply_state \<times> (unit, anyhow_error) result" where
  "apply_update_file fs home cwd affected_path path_abs move_path chunks st =
     (let st = set_exact
        (note_existing_path_delta_support fs path_abs (as_fs st) (delta_exact (as_delta st))) st
      in case derive_new_contents_from_chunks fs path_abs chunks (as_fs st) of
           None \<Rightarrow> (st, Err Panicked)
         | Some (Err e) \<Rightarrow> (st, Err (PatchError e))
         | Some (Ok patch) \<Rightarrow>
             (case move_path of
                Some dest \<Rightarrow>
                  apply_move fs affected_path path_abs (resolve_path_against_base home dest cwd) patch st
              | None \<Rightarrow> apply_in_place fs affected_path path_abs patch st))"

fun apply_hunk ::
  "'fs executor_fs \<Rightarrow> str option \<Rightarrow> str \<Rightarrow> hunk \<Rightarrow> 'fs apply_state \<Rightarrow>
     'fs apply_state \<times> (unit, anyhow_error) result" where
  "apply_hunk fs home cwd h st =
     (let affected_path = hunk_path h;
          path_abs = resolve_path_against_base home (hunk_source_path h) cwd
      in case h of
           AddFile path contents \<Rightarrow> apply_add_file fs affected_path path_abs contents st
         | DeleteFile path \<Rightarrow> apply_delete_file fs affected_path path_abs st
         | UpdateFile path move_path chunks \<Rightarrow>
             apply_update_file fs home cwd affected_path path_abs move_path chunks st)"

fun apply_hunks_loop ::
  "'fs executor_fs \<Rightarrow> str option \<Rightarrow> str \<Rightarrow> hunk list \<Rightarrow> 'fs apply_state \<Rightarrow>
     'fs apply_state \<times> (unit, anyhow_error) result" where
  "apply_hunks_loop fs home cwd [] st = (st, Ok ())"
| "apply_hunks_loop fs home cwd (h # hs) st =
     (case apply_hunk fs home cwd h st of
        (st', Err e) \<Rightarrow> (st', Err e)
      | (st', Ok _) \<Rightarrow> apply_hunks_loop fs home cwd hs st')"

definition no_affected :: affected_paths where
  "no_affected = \<lparr>added = [], modified = [], deleted = []\<rparr>"

definition apply_hunks_to_files ::
  "'fs executor_fs \<Rightarrow> str option \<Rightarrow> str \<Rightarrow> hunk list \<Rightarrow> applied_patch_delta \<Rightarrow> 'fs \<Rightarrow>
     'fs apply_state \<times> (affected_paths, anyhow_error) result" where
  "apply_hunks_to_files fs home cwd hunks delta s =
     (let st = \<lparr>as_fs = s, as_delta = delta, as_affected = no_affected\<rparr> in
      if hunks = [] then (st, Err (Bail (lit ''No files were modified.'')))
      else case apply_hunks_loop fs home cwd hunks st of
             (st', Err e) \<Rightarrow> (st', Err e)
           | (st', Ok _) \<Rightarrow> (st', Ok (as_affected st')))"

section \<open>The entry points with their output\<close>

text \<open>A writer is a function that takes one line; it may fail.\<close>

type_synonym 'w line_writer = "str \<Rightarrow> 'w \<Rightarrow> 'w \<times> (unit, io_error) result"

fun write_lines :: "'w line_writer \<Rightarrow> str list \<Rightarrow> 'w \<Rightarrow> 'w \<times> (unit, io_error) result" where
  "write_lines wr [] out = (out, Ok ())"
| "write_lines wr (l # ls) out =
     (case wr l out of (out', Err e) \<Rightarrow> (out', Err e) | (out', Ok _) \<Rightarrow> write_lines wr ls out')"

definition summary_lines :: "affected_paths \<Rightarrow> str list" where
  "summary_lines affected =
     [lit ''Success. Updated the following files:''] @
     map (\<lambda>path. lit ''A '' @ path) (added affected) @
     map (\<lambda>path. lit ''M '' @ path) (modified affected) @
     map (\<lambda>path. lit ''D '' @ path) (deleted affected)"

definition print_summary :: "'w line_writer \<Rightarrow> affected_paths \<Rightarrow> 'w \<Rightarrow> 'w \<times> (unit, io_error) result" where
  "print_summary wr affected out = write_lines wr (summary_lines affected) out"

definition from_io :: "io_error \<Rightarrow> apply_patch_error" where
  "from_io e = IoError (lit ''I/O error'') e"

definition hunks_failure :: "anyhow_error \<Rightarrow> apply_patch_error" where
  "hunks_failure error =
     (case error of
        ContextIo ctx io \<Rightarrow> from_io io
      | _ \<Rightarrow> IoError (anyhow_message error) (Io_Error OtherKind (anyhow_message error)))"

record ('fs, 'w) run_state =
  rs_fs :: 'fs
  rs_stdout :: 'w
  rs_stderr :: 'w

type_synonym apply_failure = "apply_patch_error \<times> applied_patch_delta"

definition apply_hunks ::
  "'fs executor_fs \<Rightarrow> str option \<Rightarrow> 'w line_writer \<Rightarrow> hunk list \<Rightarrow> str \<Rightarrow> ('fs, 'w) run_state \<Rightarrow>
     ('fs, 'w) run_state \<times> (applied_patch_delta, apply_failure) result" where
  "apply_hunks fs home wr hunks cwd rs =
     (case apply_hunks_to_files fs home cwd hunks delta_empty (rs_fs rs) of
        (st, Ok affected) \<Rightarrow>
          (case print_summary wr affected (rs_stdout rs) of
             (out, Err e) \<Rightarrow> (rs\<lparr>rs_fs := as_fs st, rs_stdout := out\<rparr>, Err (from_io e, as_delta st))
           | (out, Ok _) \<Rightarrow> (rs\<lparr>rs_fs := as_fs st, rs_stdout := out\<rparr>, Ok (as_delta st)))
      | (st, Err error) \<Rightarrow>
          (case wr (anyhow_message error) (rs_stderr rs) of
             (err, Err e) \<Rightarrow> (rs\<lparr>rs_fs := as_fs st, rs_stderr := err\<rparr>, Err (from_io e, as_delta st))
           | (err, Ok _) \<Rightarrow>
               (rs\<lparr>rs_fs := as_fs st, rs_stderr := err\<rparr>, Err (hunks_failure error, as_delta st))))"

fun invalid_patch_line :: "parse_error \<Rightarrow> str" where
  "invalid_patch_line (InvalidPatchError message) = lit ''Invalid patch: '' @ message"
| "invalid_patch_line (InvalidHunkError message line_number) =
     lit ''Invalid patch hunk on line '' @ show_nat line_number @ lit '': '' @ message"

definition apply_patch ::
  "'fs executor_fs \<Rightarrow> str option \<Rightarrow> 'w line_writer \<Rightarrow> str \<Rightarrow> str \<Rightarrow> ('fs, 'w) run_state \<Rightarrow>
     ('fs, 'w) run_state \<times> (applied_patch_delta, apply_failure) result" where
  "apply_patch fs home wr patch cwd rs =
     (case parse_patch patch of
        Ok source \<Rightarrow> apply_hunks fs home wr (args_hunks source) cwd rs
      | Err e \<Rightarrow>
          (case wr (invalid_patch_line e) (rs_stderr rs) of
             (err, Err io) \<Rightarrow> (rs\<lparr>rs_stderr := err\<rparr>, Err (from_io io, delta_empty))
           | (err, Ok _) \<Rightarrow> (rs\<lparr>rs_stderr := err\<rparr>, Err (ParseError e, delta_empty))))"

end
