(* ===== verification/Apply_Refinement.thy ===== *)
theory Apply_Refinement
  imports Apply_Patch
begin

text \<open>
  What applying hunks does to the files. The abstraction of a file system state is its text view, a map
  from paths to contents. The specification \<open>spec_hunk\<close> edits this map; the reading of a recorded
  change is \<open>replay_change\<close> and \<open>revert_change\<close>. The laws \<open>lawful_fs\<close> are what the code relies on of an
  \<open>ExecutorFileSystem\<close> for paths that are regular files or do not exist; they say nothing about
  symbolic links, directories or failed writes.
\<close>

section \<open>The text view and the laws of the file system\<close>

definition fs_view :: "'fs executor_fs \<Rightarrow> 'fs \<Rightarrow> str \<Rightarrow> str option" where
  "fs_view fs s p = ok (read_file_text fs p s)"

definition regular :: "'fs executor_fs \<Rightarrow> 'fs \<Rightarrow> str \<Rightarrow> bool" where
  "regular fs s p \<longleftrightarrow>
     (case get_metadata fs p s of
        Ok m \<Rightarrow> is_file m \<and> \<not> is_symlink m
      | Err e \<Rightarrow> io_kind e = NotFound)"

definition lawful_write :: "'fs executor_fs \<Rightarrow> bool" where
  "lawful_write fs \<longleftrightarrow>
     (\<forall>p c s s'. write_file fs p c s = (s', Ok ()) \<and> regular fs s p \<longrightarrow>
        fs_view fs s' = (fs_view fs s)(p \<mapsto> c) \<and> (\<forall>q. regular fs s q \<longrightarrow> regular fs s' q)) \<and>
     (\<forall>p c s s' e. write_file fs p c s = (s', Err e) \<and> io_kind e = NotFound \<longrightarrow>
        fs_view fs s' = fs_view fs s \<and> (\<forall>q. regular fs s q \<longrightarrow> regular fs s' q))"

definition lawful_create_directory :: "'fs executor_fs \<Rightarrow> bool" where
  "lawful_create_directory fs \<longleftrightarrow>
     (\<forall>p d s s' r. abs_parent p = Some d \<and> create_directory fs d s = (s', r) \<longrightarrow>
        fs_view fs s' = fs_view fs s \<and>
        (\<forall>q. regular fs s q \<and> (q = p \<or> fs_view fs s q \<noteq> None) \<longrightarrow> regular fs s' q))"

definition lawful_remove :: "'fs executor_fs \<Rightarrow> bool" where
  "lawful_remove fs \<longleftrightarrow>
     (\<forall>p s s'. remove_file fs p s = (s', Ok ()) \<and> regular fs s p \<longrightarrow>
        fs_view fs s' = (fs_view fs s)(p := None)) \<and>
     (\<forall>p s s' e. remove_file fs p s = (s', Err e) \<and> regular fs s p \<longrightarrow>
        (\<forall>q. q \<noteq> p \<longrightarrow> fs_view fs s' q = fs_view fs s q))"

definition lawful_fs :: "'fs executor_fs \<Rightarrow> bool" where
  "lawful_fs fs \<longleftrightarrow> lawful_write fs \<and> lawful_create_directory fs \<and> lawful_remove fs"

section \<open>The specification\<close>

type_synonym text_view = "str \<Rightarrow> str option"

fun spec_hunk :: "str option \<Rightarrow> str \<Rightarrow> hunk \<Rightarrow> text_view \<Rightarrow> text_view option" where
  "spec_hunk home cwd (AddFile path contents) v =
     Some (v(resolve_path_against_base home path cwd \<mapsto> contents))"
| "spec_hunk home cwd (DeleteFile path) v =
     (let p = resolve_path_against_base home path cwd
      in case v p of None \<Rightarrow> None | Some c \<Rightarrow> Some (v(p := None)))"
| "spec_hunk home cwd (UpdateFile path move_path chunks) v =
     (let p = resolve_path_against_base home path cwd in
      case v p of
        None \<Rightarrow> None
      | Some old \<Rightarrow>
          (case new_contents_from_chunks p old chunks of
             Some (Ok new) \<Rightarrow>
               (case move_path of
                  None \<Rightarrow> Some (v(p \<mapsto> new))
                | Some dest \<Rightarrow> Some (v(resolve_path_against_base home dest cwd \<mapsto> new, p := None)))
           | _ \<Rightarrow> None))"

fun spec_hunks :: "str option \<Rightarrow> str \<Rightarrow> hunk list \<Rightarrow> text_view \<Rightarrow> text_view option" where
  "spec_hunks home cwd [] v = Some v"
| "spec_hunks home cwd (h # hs) v =
     (case spec_hunk home cwd h v of None \<Rightarrow> None | Some v' \<Rightarrow> spec_hunks home cwd hs v')"

fun replay_file_change :: "str \<Rightarrow> applied_patch_file_change \<Rightarrow> text_view \<Rightarrow> text_view" where
  "replay_file_change p (Applied_Add content overwritten) v = v(p \<mapsto> content)"
| "replay_file_change p (Applied_Delete content) v = v(p := None)"
| "replay_file_change p (Applied_Update None old overwritten new) v = v(p \<mapsto> new)"
| "replay_file_change p (Applied_Update (Some dest) old overwritten new) v = v(p := None, dest \<mapsto> new)"

fun revert_file_change :: "str \<Rightarrow> applied_patch_file_change \<Rightarrow> text_view \<Rightarrow> text_view" where
  "revert_file_change p (Applied_Add content overwritten) v = v(p := overwritten)"
| "revert_file_change p (Applied_Delete content) v = v(p \<mapsto> content)"
| "revert_file_change p (Applied_Update None old overwritten new) v = v(p \<mapsto> old)"
| "revert_file_change p (Applied_Update (Some dest) old overwritten new) v = v(dest := overwritten, p \<mapsto> old)"

definition replay :: "applied_patch_change list \<Rightarrow> text_view \<Rightarrow> text_view" where
  "replay cs v = fold (\<lambda>c. replay_file_change (change_path c) (change c)) cs v"

definition revert :: "applied_patch_change list \<Rightarrow> text_view \<Rightarrow> text_view" where
  "revert cs v = foldr (\<lambda>c. revert_file_change (change_path c) (change c)) cs v"

lemma replay_append: "replay (xs @ ys) v = replay ys (replay xs v)"
  by (simp add: replay_def)

lemma revert_append: "revert (xs @ ys) v = revert xs (revert ys v)"
  by (simp add: revert_def)

text \<open>A record is truthful about the files when it names what they held before the change.\<close>

fun truthful_change :: "str \<Rightarrow> applied_patch_file_change \<Rightarrow> text_view \<Rightarrow> bool" where
  "truthful_change p (Applied_Add content overwritten) v \<longleftrightarrow> overwritten = v p"
| "truthful_change p (Applied_Delete content) v \<longleftrightarrow> v p = Some content"
| "truthful_change p (Applied_Update None old overwritten new) v \<longleftrightarrow> v p = Some old"
| "truthful_change p (Applied_Update (Some dest) old overwritten new) v \<longleftrightarrow>
     dest \<noteq> p \<and> v p = Some old \<and> overwritten = v dest"

fun truthful :: "applied_patch_change list \<Rightarrow> text_view \<Rightarrow> bool" where
  "truthful [] v \<longleftrightarrow> True"
| "truthful (c # cs) v \<longleftrightarrow>
     truthful_change (change_path c) (change c) v \<and> truthful cs (replay_file_change (change_path c) (change c) v)"

lemma truthful_append: "truthful (xs @ ys) v \<longleftrightarrow> truthful xs v \<and> truthful ys (replay xs v)"
  by (induction xs arbitrary: v) (auto simp: replay_def)

lemma truthful_change_revert:
  "truthful_change p c v \<Longrightarrow> revert_file_change p c (replay_file_change p c v) = v"
  by (induction p c v rule: truthful_change.induct) (auto simp: fun_upd_idem fun_upd_twist)

lemma truthful_revert: "truthful cs v \<Longrightarrow> revert cs (replay cs v) = v"
  by (induction cs arbitrary: v) (auto simp: replay_def revert_def truthful_change_revert)

section \<open>What one operation contributes\<close>

lemma note_existing_iff:
  "note_existing_path_delta_support fs p s b \<longleftrightarrow> b \<and> regular fs s p"
  by (auto simp: note_existing_path_delta_support_def regular_def split: result.splits)

lemma read_optional_exact:
  assumes "read_optional_file_text_for_delta fs p s b = (content, True)"
  shows "b" "regular fs s p" "content = fs_view fs s p"
  using assms
  by (auto simp: read_optional_file_text_for_delta_def note_existing_iff fs_view_def Let_def
      split: result.splits if_splits)

lemma unit_result: "(r :: (unit, 'e) result) = Ok u \<longleftrightarrow> r = Ok ()"
  by (cases u) simp

lemma write_retry_view:
  assumes law: "lawful_fs fs" and reg: "regular fs s p"
    and w: "write_file_with_missing_parent_retry fs p c s = (s', Ok ())"
  shows "fs_view fs s' = (fs_view fs s)(p \<mapsto> c)"
    "regular fs s q \<Longrightarrow> fs_view fs s q \<noteq> None \<Longrightarrow> regular fs s' q"
proof -
  have W: "fs_view fs t' = (fs_view fs t)(p \<mapsto> c) \<and> (\<forall>q. regular fs t q \<longrightarrow> regular fs t' q)"
    if "write_file fs p c t = (t', Ok ())" "regular fs t p" for t t'
    using law that unfolding lawful_fs_def lawful_write_def by blast
  have N: "fs_view fs t' = fs_view fs t \<and> (\<forall>q. regular fs t q \<longrightarrow> regular fs t' q)"
    if "write_file fs p c t = (t', Err e)" "io_kind e = NotFound" for t t' e
    using law that unfolding lawful_fs_def lawful_write_def by blast
  have D: "fs_view fs t' = fs_view fs t \<and>
      (\<forall>q. regular fs t q \<and> (q = p \<or> fs_view fs t q \<noteq> None) \<longrightarrow> regular fs t' q)"
    if "abs_parent p = Some d" "create_directory fs d t = (t', r)" for t t' d r
    using law that unfolding lawful_fs_def lawful_create_directory_def by blast
  obtain s1 r1 where 1: "write_file fs p c s = (s1, r1)" by (cases "write_file fs p c s")
  have "fs_view fs s' = (fs_view fs s)(p \<mapsto> c) \<and>
      (regular fs s q \<and> fs_view fs s q \<noteq> None \<longrightarrow> regular fs s' q)" for q
  proof (cases r1)
    case (Ok u)
    then show ?thesis using w 1 W [of s s1] reg by (simp add: write_file_with_missing_parent_retry_def)
  next
    case (Err e)
    with w 1 have e: "io_kind e = NotFound"
      by (auto simp: write_file_with_missing_parent_retry_def split: if_splits)
    have n: "fs_view fs s1 = fs_view fs s" "\<forall>q. regular fs s q \<longrightarrow> regular fs s1 q"
      using N 1 Err e by auto
    define made where "made = (case abs_parent p of
        Some parent_abs \<Rightarrow> create_directory fs parent_abs s1 | None \<Rightarrow> (s1, Ok ()))"
    obtain s2 r2 where 2: "made = (s2, r2)" by (cases made)
    have d: "fs_view fs s2 = fs_view fs s"
        "\<forall>q. regular fs s q \<and> (q = p \<or> fs_view fs s q \<noteq> None) \<longrightarrow> regular fs s2 q"
      using 2 n D by (auto simp: made_def split: option.splits)
    from w 1 Err e 2 have "write_file fs p c s2 = (s', Ok ())"
      by (auto simp: write_file_with_missing_parent_retry_def made_def [symmetric]
          split: result.splits prod.splits)
    from W [OF this] show ?thesis using d reg by auto
  qed
  then show "fs_view fs s' = (fs_view fs s)(p \<mapsto> c)"
    "regular fs s q \<Longrightarrow> fs_view fs s q \<noteq> None \<Longrightarrow> regular fs s' q" by auto
qed

text \<open>
  A step is sound when an exact delta afterwards means that the delta was exact before and has grown by
  truthful changes that replay the step.
\<close>

definition sound_step :: "'fs executor_fs \<Rightarrow> 'fs apply_state \<Rightarrow> 'fs apply_state \<Rightarrow> bool" where
  "sound_step fs st st' \<longleftrightarrow>
     (delta_exact (as_delta st') \<longrightarrow> delta_exact (as_delta st) \<and>
        (\<exists>cs. delta_changes (as_delta st') = delta_changes (as_delta st) @ cs \<and>
           fs_view fs (as_fs st') = replay cs (fs_view fs (as_fs st)) \<and>
           truthful cs (fs_view fs (as_fs st))))"

lemma sound_step_refl: "sound_step fs st st"
  by (auto simp: sound_step_def replay_def)

lemma sound_step_trans:
  assumes "sound_step fs a b" "sound_step fs b c"
  shows "sound_step fs a c"
  unfolding sound_step_def
proof
  assume "delta_exact (as_delta c)"
  then obtain ys where ys: "delta_exact (as_delta b)"
      "delta_changes (as_delta c) = delta_changes (as_delta b) @ ys"
      "fs_view fs (as_fs c) = replay ys (fs_view fs (as_fs b))" "truthful ys (fs_view fs (as_fs b))"
    using assms(2) unfolding sound_step_def by blast
  then obtain xs where xs: "delta_exact (as_delta a)"
      "delta_changes (as_delta b) = delta_changes (as_delta a) @ xs"
      "fs_view fs (as_fs b) = replay xs (fs_view fs (as_fs a))" "truthful xs (fs_view fs (as_fs a))"
    using assms(1) unfolding sound_step_def by blast
  show "delta_exact (as_delta a) \<and>
      (\<exists>cs. delta_changes (as_delta c) = delta_changes (as_delta a) @ cs \<and>
         fs_view fs (as_fs c) = replay cs (fs_view fs (as_fs a)) \<and> truthful cs (fs_view fs (as_fs a)))"
    using xs ys by (auto intro!: exI [of _ "xs @ ys"] simp: replay_append truthful_append)
qed

lemmas apply_state_simps [simp] = set_fs_def set_exact_def push_change_def replace_change_def
  push_added_def push_modified_def push_deleted_def

lemma apply_add_file_sound:
  assumes law: "lawful_fs fs" and run: "apply_add_file fs a p c st = (st', r)"
  shows "sound_step fs st st'"
    "r = Ok () \<Longrightarrow> delta_exact (as_delta st') \<Longrightarrow> fs_view fs (as_fs st') = (fs_view fs (as_fs st))(p \<mapsto> c)"
proof -
  obtain ow b where ro: "read_optional_file_text_for_delta fs p (as_fs st) (delta_exact (as_delta st)) = (ow, b)"
    by (cases "read_optional_file_text_for_delta fs p (as_fs st) (delta_exact (as_delta st))")
  obtain s' w where wr: "write_file_with_missing_parent_retry fs p c (as_fs st) = (s', w)"
    by (cases "write_file_with_missing_parent_retry fs p c (as_fs st)")
  have ex: "delta_exact (as_delta st)" "regular fs (as_fs st) p" "ow = fs_view fs (as_fs st) p" if b
    using read_optional_exact [of fs p "as_fs st"] ro that by auto
  have v: "fs_view fs s' = (fs_view fs (as_fs st))(p \<mapsto> c)" if b "w = Ok ()"
    using write_retry_view(1) [OF law ex(2)] wr that by simp
  show "sound_step fs st st'"
    using run ro wr ex v
    by (cases w) (auto simp: apply_add_file_def sound_step_def replay_def)
  show "fs_view fs (as_fs st') = (fs_view fs (as_fs st))(p \<mapsto> c)"
    if "r = Ok ()" "delta_exact (as_delta st')"
    using run ro wr v that by (cases w) (auto simp: apply_add_file_def)
qed

lemma remove_ok_view:
  assumes "lawful_fs fs" "regular fs s p" "remove_file fs p s = (s', Ok ())"
  shows "fs_view fs s' = (fs_view fs s)(p := None)"
  using assms unfolding lawful_fs_def lawful_remove_def by blast

lemma remove_err_view:
  assumes "lawful_fs fs" "regular fs s p" "remove_file fs p s = (s', Err e)"
    and "remove_failure_was_side_effect_free fs p (fs_view fs s p) s'"
  shows "fs_view fs s' = fs_view fs s"
proof
  fix q
  have "fs_view fs s' q = fs_view fs s q" if "q \<noteq> p"
    using assms(1-3) that unfolding lawful_fs_def lawful_remove_def by blast
  moreover have "fs_view fs s' p = fs_view fs s p"
    using assms(4) by (auto simp: remove_failure_was_side_effect_free_def fs_view_def
        split: option.splits result.splits)
  ultimately show "fs_view fs s' q = fs_view fs s q" by blast
qed

lemma apply_delete_file_sound:
  assumes law: "lawful_fs fs" and run: "apply_delete_file fs a p st = (st', r)"
  shows "sound_step fs st st'"
    "r = Ok () \<Longrightarrow> delta_exact (as_delta st') \<Longrightarrow>
       fs_view fs (as_fs st) p \<noteq> None \<and> fs_view fs (as_fs st') = (fs_view fs (as_fs st))(p := None)"
proof -
  let ?s = "as_fs st"
  let ?b = "fs_view fs ?s p \<noteq> None \<and> delta_exact (as_delta st) \<and> regular fs ?s p"
  obtain s' w where rm: "remove_file fs p ?s = (s', w)" by (cases "remove_file fs p ?s")
  have del: "fs_view fs s' = (fs_view fs ?s)(p := None)" if ?b "w = Ok ()"
    using remove_ok_view [OF law] rm that by simp
  have keep: "fs_view fs s' = fs_view fs ?s"
    if ?b "w = Err e" "remove_failure_was_side_effect_free fs p (fs_view fs ?s p) s'" for e
    using remove_err_view [OF law, of ?s p s' e] rm that by blast
  have vd: "ok (read_file_text fs p ?s) = fs_view fs ?s p" by (simp add: fs_view_def)
  note unfolded = run [unfolded apply_delete_file_def Let_def vd note_existing_iff]
  show "sound_step fs st st'"
  proof (cases "ensure_not_directory fs p ?s")
    case (Ok u)
    show ?thesis
    proof (cases w)
      case w: (Ok u)
      then show ?thesis using unfolded Ok rm del
        by (auto simp: sound_step_def replay_def fun_upd_idem split: option.splits if_splits)
    next
      case w: (Err e)
      then show ?thesis using unfolded Ok rm keep
        by (auto simp: sound_step_def replay_def split: if_splits)
    qed
  next
    case (Err e)
    then show ?thesis using unfolded
      by (auto simp: sound_step_def replay_def split: if_splits)
  qed
  show "fs_view fs ?s p \<noteq> None \<and> fs_view fs (as_fs st') = (fs_view fs ?s)(p := None)"
    if "r = Ok ()" "delta_exact (as_delta st')"
    using unfolded rm del that
    by (cases "ensure_not_directory fs p ?s"; cases w) (auto split: option.splits if_splits)
qed

lemma apply_in_place_sound:
  assumes law: "lawful_fs fs" and run: "apply_in_place fs a p patch st = (st', r)"
    and reg: "delta_exact (as_delta st) \<Longrightarrow> regular fs (as_fs st) p"
    and old: "fs_view fs (as_fs st) p = Some (original_contents patch)"
  shows "sound_step fs st st'"
    "r = Ok () \<Longrightarrow> delta_exact (as_delta st') \<Longrightarrow>
       fs_view fs (as_fs st') = (fs_view fs (as_fs st))(p \<mapsto> new_contents patch)"
proof -
  obtain s' w where wr: "write_file fs p (new_contents patch) (as_fs st) = (s', w)"
    by (cases "write_file fs p (new_contents patch) (as_fs st)")
  have v: "fs_view fs s' = (fs_view fs (as_fs st))(p \<mapsto> new_contents patch)"
    if "delta_exact (as_delta st)" "w = Ok ()"
    using law reg that wr unfolding lawful_fs_def lawful_write_def by blast
  show "sound_step fs st st'"
    using run wr v old
    by (cases w) (auto simp: apply_in_place_def sound_step_def replay_def fun_upd_idem)
  show "fs_view fs (as_fs st') = (fs_view fs (as_fs st))(p \<mapsto> new_contents patch)"
    if "r = Ok ()" "delta_exact (as_delta st')"
    using run wr v that by (cases w) (auto simp: apply_in_place_def)
qed

lemma apply_move_sound:
  assumes law: "lawful_fs fs" and run: "apply_move fs a p d patch st = (st', r)"
    and reg: "delta_exact (as_delta st) \<Longrightarrow> regular fs (as_fs st) p"
    and old: "fs_view fs (as_fs st) p = Some (original_contents patch)"
  shows "d \<noteq> p \<Longrightarrow> sound_step fs st st'"
    "r = Ok () \<Longrightarrow> delta_exact (as_delta st') \<Longrightarrow>
       fs_view fs (as_fs st') = (fs_view fs (as_fs st))(d \<mapsto> new_contents patch, p := None)"
proof -
  let ?s = "as_fs st" and ?new = "new_contents patch"
  obtain ow b where ro: "read_optional_file_text_for_delta fs d ?s (delta_exact (as_delta st)) = (ow, b)"
    by (cases "read_optional_file_text_for_delta fs d ?s (delta_exact (as_delta st))")
  obtain s1 w where wr: "write_file_with_missing_parent_retry fs d ?new ?s = (s1, w)"
    by (cases "write_file_with_missing_parent_retry fs d ?new ?s")
  obtain s2 m where rm: "remove_file fs p s1 = (s2, m)" by (cases "remove_file fs p s1")
  have ex: "delta_exact (as_delta st)" "regular fs ?s d" "ow = fs_view fs ?s d" if b
    using read_optional_exact [of fs d ?s] ro that by auto
  have v1: "fs_view fs s1 = (fs_view fs ?s)(d \<mapsto> ?new)" "regular fs s1 p" if b "w = Ok ()"
    using write_retry_view [OF law ex(2) [OF that(1)]] wr that reg ex(1) old by auto
  have v2: "fs_view fs s2 = (fs_view fs ?s)(d \<mapsto> ?new, p := None)" if b "w = Ok ()" "m = Ok ()"
    using remove_ok_view [OF law v1(2)] v1(1) rm that by simp
  have keep: "fs_view fs s2 = (fs_view fs ?s)(d \<mapsto> ?new)"
    if b "w = Ok ()" "m = Err e" "d \<noteq> p"
      "remove_failure_was_side_effect_free fs p (Some (original_contents patch)) s2" for e
    using remove_err_view [OF law v1(2)] v1(1) rm that old by simp
  note unfolded = run [unfolded apply_move_def Let_def ro]
  show "sound_step fs st st'" if "d \<noteq> p"
  proof (cases w)
    case (Err e)
    then show ?thesis using unfolded wr by (auto simp: sound_step_def)
  next
    case w: (Ok u)
    consider e where "ensure_not_directory fs p s1 = Err e"
      | "ensure_not_directory fs p s1 = Ok ()" "m = Ok ()"
      | e where "ensure_not_directory fs p s1 = Ok ()" "m = Err e"
      by (cases "ensure_not_directory fs p s1"; cases m) auto
    then show ?thesis
    proof cases
      case 1
      then show ?thesis using unfolded wr w ex v1(1)
        by (auto simp: sound_step_def replay_def)
    next
      case 2
      then show ?thesis using unfolded wr w rm ex v2 that old
        by (auto simp: sound_step_def replay_def fun_upd_twist fun_upd_idem)
    next
      case 3
      then show ?thesis using unfolded wr w rm ex keep that
        by (auto simp: sound_step_def replay_def)
    qed
  qed
  show "fs_view fs (as_fs st') = (fs_view fs ?s)(d \<mapsto> ?new, p := None)"
    if "r = Ok ()" "delta_exact (as_delta st')"
    using unfolded wr rm v2 that
    by (cases w; cases "ensure_not_directory fs p s1"; cases m) auto
qed

section \<open>Hunks\<close>

lemma derive_Some:
  assumes "derive_new_contents_from_chunks fs p chunks s = Some (Ok patch)"
  shows "fs_view fs s p = Some (original_contents patch)"
    "new_contents_from_chunks p (original_contents patch) chunks = Some (Ok (new_contents patch))"
  using assms by (auto simp: derive_new_contents_from_chunks_def fs_view_def result_simps split: result.splits)

text \<open>A hunk that moves a file onto itself is excluded where the record of the move matters.\<close>

fun self_move :: "str option \<Rightarrow> str \<Rightarrow> hunk \<Rightarrow> bool" where
  "self_move home cwd (UpdateFile path (Some dest) chunks) \<longleftrightarrow>
     resolve_path_against_base home path cwd = resolve_path_against_base home dest cwd"
| "self_move home cwd h \<longleftrightarrow> False"

lemma apply_update_file_sound:
  assumes law: "lawful_fs fs"
    and run: "apply_update_file fs home cwd a p mv chunks st = (st', r)"
  shows "(\<And>d. mv = Some d \<Longrightarrow> resolve_path_against_base home d cwd \<noteq> p) \<Longrightarrow> sound_step fs st st'"
    "r = Ok () \<Longrightarrow> delta_exact (as_delta st') \<Longrightarrow>
       \<exists>old new. fs_view fs (as_fs st) p = Some old \<and> new_contents_from_chunks p old chunks = Some (Ok new) \<and>
         fs_view fs (as_fs st') = (case mv of
            None \<Rightarrow> (fs_view fs (as_fs st))(p \<mapsto> new)
          | Some d \<Rightarrow> (fs_view fs (as_fs st))(resolve_path_against_base home d cwd \<mapsto> new, p := None))"
proof -
  define st1 where
    "st1 = set_exact (note_existing_path_delta_support fs p (as_fs st) (delta_exact (as_delta st))) st"
  have fs1: "as_fs st1 = as_fs st" by (simp add: st1_def)
  have step1: "sound_step fs st st1"
    by (auto simp: st1_def note_existing_iff sound_step_def replay_def)
  have reg: "delta_exact (as_delta st1) \<Longrightarrow> regular fs (as_fs st1) p"
    by (simp add: st1_def note_existing_iff)
  note run1 = run [unfolded apply_update_file_def Let_def, folded st1_def]
  show "sound_step fs st st'" if nd: "\<And>d. mv = Some d \<Longrightarrow> resolve_path_against_base home d cwd \<noteq> p"
  proof (cases "\<exists>patch. derive_new_contents_from_chunks fs p chunks (as_fs st1) = Some (Ok patch)")
    case False
    then have "st' = st1" using run1 by (auto split: option.splits result.splits)
    then show ?thesis using step1 by simp
  next
    case True
    then obtain patch where d: "derive_new_contents_from_chunks fs p chunks (as_fs st1) = Some (Ok patch)" ..
    have "sound_step fs st1 st'"
      using run1 d nd apply_move_sound(1) [OF law _ reg derive_Some(1) [OF d]]
        apply_in_place_sound(1) [OF law _ reg derive_Some(1) [OF d]]
      by (cases mv) auto
    then show ?thesis using step1 sound_step_trans by blast
  qed
  assume ok: "r = Ok ()" "delta_exact (as_delta st')"
  with run1 obtain patch where d: "derive_new_contents_from_chunks fs p chunks (as_fs st1) = Some (Ok patch)"
    by (auto split: option.splits result.splits)
  show "\<exists>old new. fs_view fs (as_fs st) p = Some old \<and> new_contents_from_chunks p old chunks = Some (Ok new) \<and>
         fs_view fs (as_fs st') = (case mv of
            None \<Rightarrow> (fs_view fs (as_fs st))(p \<mapsto> new)
          | Some d \<Rightarrow> (fs_view fs (as_fs st))(resolve_path_against_base home d cwd \<mapsto> new, p := None))"
    using run1 d ok derive_Some [OF d] fs1 apply_move_sound(2) [OF law _ reg derive_Some(1) [OF d]]
      apply_in_place_sound(2) [OF law _ reg derive_Some(1) [OF d]]
    by (cases mv) auto
qed

lemma apply_hunk_sound:
  assumes law: "lawful_fs fs" and run: "apply_hunk fs home cwd h st = (st', r)"
  shows "\<not> self_move home cwd h \<Longrightarrow> sound_step fs st st'"
    "r = Ok () \<Longrightarrow> delta_exact (as_delta st') \<Longrightarrow>
       spec_hunk home cwd h (fs_view fs (as_fs st)) = Some (fs_view fs (as_fs st'))"
proof -
  let ?p = "resolve_path_against_base home (hunk_source_path h) cwd"
  show "sound_step fs st st'" if "\<not> self_move home cwd h"
  proof (cases h)
    case (UpdateFile path mv chunks)
    then show ?thesis using run that
      by (intro apply_update_file_sound(1) [OF law, of home cwd "hunk_path h" ?p mv chunks _ _ r]) auto
  qed (use run apply_add_file_sound(1) [OF law] apply_delete_file_sound(1) [OF law] in auto)
  show "spec_hunk home cwd h (fs_view fs (as_fs st)) = Some (fs_view fs (as_fs st'))"
    if "r = Ok ()" "delta_exact (as_delta st')"
  proof (cases h)
    case (AddFile path c)
    then show ?thesis using run apply_add_file_sound(2) [OF law, of "hunk_path h" ?p c st st' r] that by simp
  next
    case (DeleteFile path)
    then show ?thesis using run apply_delete_file_sound(2) [OF law, of "hunk_path h" ?p st st' r] that
      by auto
  next
    case (UpdateFile path mv chunks)
    then show ?thesis
      using run apply_update_file_sound(2) [OF law, of home cwd "hunk_path h" ?p mv chunks st st' r] that
      by (cases mv) auto
  qed
qed

text \<open>An inexact delta stays inexact, so exactness at the end means exactness after every hunk.\<close>

lemma read_optional_mono: "snd (read_optional_file_text_for_delta fs p s b) \<Longrightarrow> b"
  using read_optional_exact(1) [of fs p s b] by (metis prod.collapse)

lemma apply_hunk_exact_mono:
  assumes "apply_hunk fs home cwd h st = (st', r)" "delta_exact (as_delta st')"
  shows "delta_exact (as_delta st)"
proof -
  let ?p = "resolve_path_against_base home (hunk_source_path h) cwd"
  have m: "delta_exact (as_delta t)" if "apply_move fs a p d patch t = (t', r')" "delta_exact (as_delta t')"
    for a p d patch t t' r'
    using that read_optional_mono [of fs d "as_fs t" "delta_exact (as_delta t)"]
    by (auto simp: apply_move_def Let_def split: prod.splits result.splits)
  show ?thesis
  proof (cases h)
    case (AddFile path c)
    then show ?thesis
      using assms read_optional_mono [of fs ?p "as_fs st" "delta_exact (as_delta st)"]
      by (auto simp: apply_add_file_def Let_def split: prod.splits result.splits)
  next
    case (DeleteFile path)
    then show ?thesis
      using assms
      by (auto simp: apply_delete_file_def Let_def note_existing_iff
          split: prod.splits result.splits option.splits if_splits)
  next
    case (UpdateFile path mv chunks)
    then show ?thesis
      using assms
      by (auto simp: apply_update_file_def apply_in_place_def Let_def note_existing_iff
          split: prod.splits result.splits option.splits dest!: m)
  qed
qed

lemma apply_hunks_loop_exact_mono:
  "apply_hunks_loop fs home cwd hs st = (st', r) \<Longrightarrow> delta_exact (as_delta st') \<Longrightarrow> delta_exact (as_delta st)"
proof (induction hs arbitrary: st)
  case (Cons h hs)
  obtain st1 r1 where h: "apply_hunk fs home cwd h st = (st1, r1)" by (cases "apply_hunk fs home cwd h st")
  then show ?case
    using Cons apply_hunk_exact_mono [OF h] by (cases r1) (auto simp del: apply_hunk.simps)
qed simp

lemma apply_hunks_loop_sound:
  assumes law: "lawful_fs fs"
  shows "apply_hunks_loop fs home cwd hs st = (st', r) \<Longrightarrow> \<forall>h\<in>set hs. \<not> self_move home cwd h \<Longrightarrow>
     sound_step fs st st'"
proof (induction hs arbitrary: st)
  case (Cons h hs)
  obtain st1 r1 where h: "apply_hunk fs home cwd h st = (st1, r1)" by (cases "apply_hunk fs home cwd h st")
  have s1: "sound_step fs st st1" using apply_hunk_sound(1) [OF law h] Cons.prems(2) by simp
  show ?case
  proof (cases r1)
    case (Err e)
    then show ?thesis using Cons.prems(1) h s1 by (simp del: apply_hunk.simps)
  next
    case (Ok u)
    then show ?thesis
      using Cons.IH [of st1] Cons.prems h s1 sound_step_trans by (fastforce simp del: apply_hunk.simps)
  qed
qed (simp add: sound_step_refl)

lemma apply_hunks_loop_spec:
  assumes law: "lawful_fs fs"
  shows "apply_hunks_loop fs home cwd hs st = (st', Ok ()) \<Longrightarrow> delta_exact (as_delta st') \<Longrightarrow>
     spec_hunks home cwd hs (fs_view fs (as_fs st)) = Some (fs_view fs (as_fs st'))"
proof (induction hs arbitrary: st)
  case (Cons h hs)
  obtain st1 r1 where h: "apply_hunk fs home cwd h st = (st1, r1)" by (cases "apply_hunk fs home cwd h st")
  then have rest: "r1 = Ok ()" "apply_hunks_loop fs home cwd hs st1 = (st', Ok ())"
    using Cons.prems(1) by (cases r1; auto simp del: apply_hunk.simps)+
  have "delta_exact (as_delta st1)" by (rule apply_hunks_loop_exact_mono [OF rest(2) Cons.prems(2)])
  then show ?case
    using apply_hunk_sound(2) [OF law h rest(1)] Cons.IH [OF rest(2) Cons.prems(2)] by simp
qed simp

section \<open>Reported paths\<close>

fun is_add :: "hunk \<Rightarrow> bool" where
  "is_add (AddFile path contents) \<longleftrightarrow> True" | "is_add h \<longleftrightarrow> False"

fun is_update :: "hunk \<Rightarrow> bool" where
  "is_update (UpdateFile path mv chunks) \<longleftrightarrow> True" | "is_update h \<longleftrightarrow> False"

fun is_delete :: "hunk \<Rightarrow> bool" where
  "is_delete (DeleteFile path) \<longleftrightarrow> True" | "is_delete h \<longleftrightarrow> False"

definition extend_affected :: "affected_paths \<Rightarrow> hunk list \<Rightarrow> affected_paths" where
  "extend_affected a hs =
     \<lparr>added = added a @ map hunk_path (filter is_add hs),
      modified = modified a @ map hunk_path (filter is_update hs),
      deleted = deleted a @ map hunk_path (filter is_delete hs)\<rparr>"

lemma apply_hunk_affected:
  assumes "apply_hunk fs home cwd h st = (st', Ok u)"
  shows "as_affected st' = extend_affected (as_affected st) [h]"
  using assms
  by (cases h) (auto simp: apply_add_file_def apply_delete_file_def apply_update_file_def apply_move_def
      apply_in_place_def extend_affected_def Let_def split: prod.splits result.splits option.splits)

lemma apply_hunks_loop_affected:
  "apply_hunks_loop fs home cwd hs st = (st', Ok u) \<Longrightarrow>
     as_affected st' = extend_affected (as_affected st) hs"
proof (induction hs arbitrary: st)
  case (Cons h hs)
  obtain st1 r1 where h: "apply_hunk fs home cwd h st = (st1, r1)" by (cases "apply_hunk fs home cwd h st")
  then have "r1 = Ok ()" "apply_hunks_loop fs home cwd hs st1 = (st', Ok u)"
    using Cons.prems by (cases r1; auto simp del: apply_hunk.simps)+
  then show ?case
    using Cons.IH [of st1] apply_hunk_affected [of fs home cwd h st st1 "()"] h
    by (simp add: extend_affected_def del: apply_hunk.simps)
qed (simp add: extend_affected_def)

section \<open>No panic\<close>

lemma derive_total: "derive_new_contents_from_chunks fs p chunks s \<noteq> None"
proof (cases "read_file_text fs p s")
  case (Ok original)
  have "new_contents_from_chunks p original chunks \<noteq> None"
    using apply_computed_total
    by (cases "compute_replacements (split_original_lines original) p chunks")
      (force simp: new_contents_from_chunks_def Let_def)+
  then show ?thesis using Ok by (simp add: derive_new_contents_from_chunks_def)
qed (simp add: derive_new_contents_from_chunks_def)

lemma write_retry_no_panic: "snd (write_file_with_missing_parent_retry fs p c s) \<noteq> Err Panicked"
  by (auto simp: write_file_with_missing_parent_retry_def Let_def split: prod.splits result.splits option.splits)

lemma apply_hunk_no_panic: "snd (apply_hunk fs home cwd h st) \<noteq> Err Panicked"
proof (cases h)
  case (AddFile path c)
  then show ?thesis using write_retry_no_panic [of fs _ c]
    by (auto simp: apply_add_file_def Let_def split: prod.splits result.splits) (metis snd_conv)+
next
  case (DeleteFile path)
  then show ?thesis by (auto simp: apply_delete_file_def Let_def split: prod.splits result.splits)
next
  case (UpdateFile path mv chunks)
  have "snd (apply_move fs a p d patch t) \<noteq> Err Panicked" for a p d patch t
    using write_retry_no_panic [of fs d "new_contents patch"]
    by (auto simp: apply_move_def Let_def split: prod.splits result.splits) (metis snd_conv)+
  moreover have "snd (apply_in_place fs a p patch t) \<noteq> Err Panicked" for a p patch t
    by (auto simp: apply_in_place_def split: prod.splits result.splits)
  ultimately show ?thesis using UpdateFile derive_total [of fs _ chunks]
    by (auto simp: apply_update_file_def Let_def split: option.splits result.splits)
qed

lemma apply_hunks_loop_no_panic: "snd (apply_hunks_loop fs home cwd hs st) \<noteq> Err Panicked"
proof (induction hs arbitrary: st)
  case (Cons h hs)
  then show ?case using apply_hunk_no_panic [of fs home cwd h st]
    by (auto split: prod.splits result.splits simp del: apply_hunk.simps)
qed simp

section \<open>A file system in memory\<close>

definition not_found :: io_error where "not_found = Io_Error NotFound (lit ''not found'')"

definition plain_metadata :: file_metadata where
  "plain_metadata =
     \<lparr>is_directory = False, is_file = True, is_symlink = False, created_at_ms = 0, modified_at_ms = 0\<rparr>"

definition mem_fs :: "text_view executor_fs" where
  "mem_fs =
     \<lparr>read_file_text = (\<lambda>p s. case s p of Some c \<Rightarrow> Ok c | None \<Rightarrow> Err not_found),
      write_file = (\<lambda>p c s. (s(p \<mapsto> c), Ok ())),
      create_directory = (\<lambda>p s. (s, Ok ())),
      get_metadata = (\<lambda>p s. case s p of Some c \<Rightarrow> Ok plain_metadata | None \<Rightarrow> Err not_found),
      remove_file = (\<lambda>p s. case s p of Some c \<Rightarrow> (s(p := None), Ok ()) | None \<Rightarrow> (s, Err not_found))\<rparr>"

lemma mem_fs_view: "fs_view mem_fs s = s"
  by (rule ext) (simp add: fs_view_def mem_fs_def split: option.splits)

lemma mem_fs_regular: "regular mem_fs s p"
  by (simp add: regular_def mem_fs_def plain_metadata_def not_found_def split: option.splits)

lemma mem_fs_lawful: "lawful_fs mem_fs"
  unfolding lawful_fs_def lawful_write_def lawful_create_directory_def lawful_remove_def
    mem_fs_view
  by (auto simp: mem_fs_regular) (auto simp: mem_fs_def split: option.splits)

section \<open>A run\<close>

lemmas path_eval = resolve_path_against_base_def maybe_expand_home_directory_def absolutize_from_def
  path_with_base_def normalize_path_def text_eval

definition sample_files :: text_view where
  "sample_files = [lit ''/w/f'' \<mapsto> lit ''a'' @ [newline]]"

definition sample_run_hunks :: "str option \<Rightarrow> hunk list" where
  "sample_run_hunks dest =
     [UpdateFile (lit ''f'') dest
       [\<lparr>change_context = None, old_lines = [lit ''a''], new_lines = [lit ''b''], is_end_of_file = False\<rparr>]]"

lemma sample_paths:
  "resolve_path_against_base None (lit ''f'') (lit ''/w'') = lit ''/w/f''"
  "resolve_path_against_base None (lit ''g'') (lit ''/w'') = lit ''/w/g''"
  by (simp_all add: path_eval)

lemma sample_contents:
  "new_contents_from_chunks (lit ''/w/f'') (lit ''a'' @ [newline])
     [\<lparr>change_context = None, old_lines = [lit ''a''], new_lines = [lit ''b''], is_end_of_file = False\<rparr>] =
   Some (Ok (lit ''b'' @ [newline]))"
proof -
  have "compute_replacements [lit ''a''] (lit ''/w/f'') [sample_chunk [lit ''a''] [lit ''b''] False] =
      Ok [(0, 1, [lit ''b''])]"
    by (simp add: compute_eval)
  moreover have "split_original_lines (lit ''a'' @ [newline]) = [lit ''a'']"
    by (simp add: split_original_lines_def last_is_empty_def text_eval)
  ultimately show ?thesis
    by (simp add: new_contents_from_chunks_def apply_replacements_def apply_each_Cons splice_def
        join_new_lines_def last_is_empty_def sample_chunk_def)
qed

lemmas apply_eval = apply_hunks_to_files_def sample_run_hunks_def sample_paths sample_contents
  apply_update_file_def apply_move_def apply_in_place_def derive_new_contents_from_chunks_def
  note_existing_path_delta_support_def read_optional_file_text_for_delta_def
  write_file_with_missing_parent_retry_def ensure_not_directory_def delta_empty_def mem_fs_def
  plain_metadata_def sample_files_def Let_def

lemma sample_run_move:
  "\<exists>st. apply_hunks_to_files mem_fs None (lit ''/w'') (sample_run_hunks (Some (lit ''g''))) delta_empty sample_files =
      (st, Ok (as_affected st)) \<and> delta_exact (as_delta st)"
  by (simp add: apply_eval) (simp add: text_eval not_found_def)

lemma sample_run_self:
  "\<exists>st. apply_hunks_to_files mem_fs None (lit ''/w'') (sample_run_hunks (Some (lit ''f''))) delta_empty sample_files =
      (st, Ok (as_affected st)) \<and> delta_exact (as_delta st)"
  by (simp add: apply_eval)

section \<open>Properties\<close>



lemma apply_hunks_delta:
  assumes "lawful_fs fs" and "\<forall>h\<in>set hs. \<not> self_move home cwd h"
    and "apply_hunks_to_files fs home cwd hs delta_empty s = (st, r)"
    and "delta_exact (as_delta st)"
  shows "truthful (delta_changes (as_delta st)) (fs_view fs s)"
    and "replay (delta_changes (as_delta st)) (fs_view fs s) = fs_view fs (as_fs st)"
proof -
  let ?st0 = "\<lparr>as_fs = s, as_delta = delta_empty, as_affected = no_affected\<rparr>"
  have "sound_step fs ?st0 st"
  proof (cases "hs = []")
    case True
    then show ?thesis using assms(3) by (auto simp: apply_hunks_to_files_def intro: sound_step_refl)
  next
    case False
    then obtain r' where "apply_hunks_loop fs home cwd hs ?st0 = (st, r')"
      using assms(3) by (auto simp: apply_hunks_to_files_def Let_def split: prod.splits result.splits)
    then show ?thesis using apply_hunks_loop_sound [OF assms(1)] assms(2) by blast
  qed
  then show "truthful (delta_changes (as_delta st)) (fs_view fs s)"
      "replay (delta_changes (as_delta st)) (fs_view fs s) = fs_view fs (as_fs st)"
    using assms(4) by (auto simp: sound_step_def delta_empty_def)
qed



text \<open>
  a move whose destination resolves to the file itself destroys the file: the new content is written
  to the path and the path is then removed. The run reports success and an exact delta.
\<close>

theorem self_move_deletes_file:
  assumes "lawful_fs fs" and "self_move home cwd h"
    and "apply_hunks_to_files fs home cwd [h] delta_empty s = (st, Ok affected)"
    and "delta_exact (as_delta st)"
  shows "fs_view fs (as_fs st) (resolve_path_against_base home (hunk_source_path h) cwd) = None"
proof -
  obtain path dest chunks where h: "h = UpdateFile path (Some dest) chunks"
      "resolve_path_against_base home path cwd = resolve_path_against_base home dest cwd"
    using assms(2) by (cases "(home, cwd, h)" rule: self_move.cases) auto
  have "apply_hunks_loop fs home cwd [h]
      \<lparr>as_fs = s, as_delta = delta_empty, as_affected = no_affected\<rparr> = (st, Ok ())"
    using assms(3) by (auto simp: apply_hunks_to_files_def Let_def split: if_splits prod.splits result.splits)
  from apply_hunks_loop_spec [OF assms(1) this assms(4)] h show ?thesis
    by (auto simp: Let_def split: option.splits result.splits)
      (metis fun_upd_same option.inject)
qed

theorem self_move_deletes_file_witness:
  "\<exists>st. apply_hunks_to_files mem_fs None (lit ''/w'') (sample_run_hunks (Some (lit ''f''))) delta_empty sample_files =
      (st, Ok (as_affected st)) \<and> sample_files (lit ''/w/f'') \<noteq> None \<and> as_fs st (lit ''/w/f'') = None"
proof -
  obtain st where st: "apply_hunks_to_files mem_fs None (lit ''/w'') (sample_run_hunks (Some (lit ''f'')))
      delta_empty sample_files = (st, Ok (as_affected st))" "delta_exact (as_delta st)"
    using sample_run_self by blast
  from self_move_deletes_file [OF mem_fs_lawful _ st(1) [unfolded sample_run_hunks_def] st(2)] show ?thesis
    using st(1) by (auto simp: mem_fs_view sample_paths sample_files_def)
qed

text \<open>
  applying hunks never panics, on any file system and for any hunks, and a successful run reports
  exactly the added, modified and deleted paths of its hunks, in order.
\<close>

theorem apply_hunks_outcome:
  "snd (apply_hunks_to_files fs home cwd hs d s) \<noteq> Err Panicked \<and>
   (case snd (apply_hunks_to_files fs home cwd hs d s) of
      Ok affected \<Rightarrow> hs \<noteq> [] \<and> affected = extend_affected no_affected hs
    | Err e \<Rightarrow> True)"
proof -
  let ?st0 = "\<lparr>as_fs = s, as_delta = d, as_affected = no_affected\<rparr>"
  obtain st r where l: "apply_hunks_loop fs home cwd hs ?st0 = (st, r)"
    by (cases "apply_hunks_loop fs home cwd hs ?st0")
  have "r \<noteq> Err Panicked" using apply_hunks_loop_no_panic [of fs home cwd hs ?st0] l by simp
  moreover have "as_affected st = extend_affected no_affected hs" if "r = Ok u" for u
    using apply_hunks_loop_affected [of fs home cwd hs ?st0 st u] l that by simp
  ultimately show ?thesis
    using l by (cases r) (auto simp: apply_hunks_to_files_def Let_def)
qed

text \<open>
  a patch that does not parse touches no file: the file system is unchanged, the failure carries an
  empty delta, and it is the parse error unless the error line itself could not be written.
\<close>

theorem unparsable_patch_is_inert:
  assumes "parse_patch patch = Err e"
  shows "rs_fs (fst (apply_patch fs home wr patch cwd rs)) = rs_fs rs \<and>
         rs_stdout (fst (apply_patch fs home wr patch cwd rs)) = rs_stdout rs \<and>
         (\<exists>err. snd (apply_patch fs home wr patch cwd rs) = Err (err, delta_empty) \<and>
            (err = ParseError e \<or>
             (\<exists>io. snd (wr (invalid_patch_line e) (rs_stderr rs)) = Err io \<and> err = from_io io)))"
  using assms by (auto simp: apply_patch_def split: prod.splits result.splits)

theorem unparsable_patch_is_inert_witness:
  "snd (apply_patch mem_fs None (\<lambda>l out. (out @ [l], Ok ())) [] (lit ''/w'')
     \<lparr>rs_fs = sample_files, rs_stdout = [], rs_stderr = []\<rparr>) =
   Err (ParseError (InvalidPatchError last_line_message), delta_empty)"
proof -
  have "parse_patch [] = Err (InvalidPatchError last_line_message)"
    by (simp add: parse_patch_def PARSE_IN_STRICT_MODE_def parse_patch_text_def str_lines_def trim_def
        trim_start_def trim_end_def check_patch_boundaries_lenient_def check_patch_boundaries_strict_def
        check_start_and_end_lines_strict_def)
  from unparsable_patch_is_inert [OF this, of mem_fs None "\<lambda>l out. (out @ [l], Ok ())" "lit ''/w''"
      "\<lparr>rs_fs = sample_files, rs_stdout = [], rs_stderr = []\<rparr>"]
  show ?thesis by auto
qed

end
