(* ===== verification/Patch_Invocation.thy ===== *)
theory Patch_Invocation
  imports Apply_Refinement
begin

text \<open>
  Model of \<^verbatim>\<open>apply-patch/src/invocation.rs\<close>: recognising an \<open>apply_patch\<close> command line and computing the
  file changes that are shown for approval. Two third-party parts are parameters: the matches of the
  tree-sitter query on a shell script, as lists of named captures, and the unified diff of the
  \<open>similar\<close> crate. A panic while a file is rebuilt is the value \<open>None\<close>.
\<close>

section \<open>Recognising the command\<close>

definition APPLY_PATCH_COMMANDS :: "str list" where
  [text_eval]: "APPLY_PATCH_COMMANDS = [lit ''apply_patch'', lit ''applypatch'']"

datatype apply_patch_shell = Unix | PowerShell | Cmd

datatype extract_heredoc_error =
    CommandDidNotStartWithApplyPatch
  | FailedToLoadBashGrammar str
  | HeredocNotUtf8 str
  | FailedToParsePatchIntoAst
  | FailedToFindHeredocBody

datatype maybe_apply_patch =
    MaybeBody apply_patch_args
  | MaybeShellParseError extract_heredoc_error
  | MaybePatchParseError parse_error
  | MaybeNotApplyPatch

text \<open>\<open>Path::file_stem\<close>: the last name without its last extension; a leading dot is not an extension.\<close>

definition file_stem_of :: "str \<Rightarrow> str" where
  [text_eval]: "file_stem_of name =
     (let stem = butlast (split_on 46 name)
      in if join [46] stem = [] then name else join [46] stem)"

definition classify_shell_name :: "str \<Rightarrow> str option" where
  [text_eval]: "classify_shell_name shell =
     map_option (\<lambda>name. to_ascii_lowercase (file_stem_of name)) (path_file_name shell)"

definition eq_ignore_ascii_case :: "str \<Rightarrow> str \<Rightarrow> bool" where
  [text_eval]: "eq_ignore_ascii_case a b \<longleftrightarrow> to_ascii_lowercase a = to_ascii_lowercase b"

definition classify_shell :: "str \<Rightarrow> str \<Rightarrow> apply_patch_shell option" where
  [text_eval]: "classify_shell shell flag =
     (case classify_shell_name shell of
        None \<Rightarrow> None
      | Some name \<Rightarrow>
          if name \<in> set [lit ''bash'', lit ''zsh'', lit ''sh''] \<and> flag \<in> set [lit ''-lc'', lit ''-c''] then Some Unix
          else if name \<in> set [lit ''pwsh'', lit ''powershell''] \<and> eq_ignore_ascii_case flag (lit ''-command'')
          then Some PowerShell
          else if name = lit ''cmd'' \<and> eq_ignore_ascii_case flag (lit ''/c'') then Some Cmd
          else None)"

definition can_skip_flag :: "str \<Rightarrow> str \<Rightarrow> bool" where
  [text_eval]: "can_skip_flag shell flag \<longleftrightarrow>
     (case classify_shell_name shell of
        None \<Rightarrow> False
      | Some name \<Rightarrow>
          name \<in> set [lit ''pwsh'', lit ''powershell''] \<and> eq_ignore_ascii_case flag (lit ''-noprofile''))"

fun parse_shell_script :: "str list \<Rightarrow> (apply_patch_shell \<times> str) option" where
  "parse_shell_script [shell, flag, script] = map_option (\<lambda>t. (t, script)) (classify_shell shell flag)"
| "parse_shell_script [shell, skip_flag, flag, script] =
     (if can_skip_flag shell skip_flag then map_option (\<lambda>t. (t, script)) (classify_shell shell flag) else None)"
| "parse_shell_script _ = None"

section \<open>Extracting the heredoc\<close>

text \<open>A match of the query: its captures in order, each with its name and the text of its node.\<close>

type_synonym query_capture = "str \<times> (str, str) result"
type_synonym bash_query = "str \<Rightarrow> (query_capture list list, extract_heredoc_error) result"

definition trim_end_newlines :: "str \<Rightarrow> str" where
  "trim_end_newlines s = rev (dropWhile (\<lambda>c. c = newline) (rev s))"

definition strip_raw_quotes :: "str \<Rightarrow> str" where
  "strip_raw_quotes raw =
     (case strip_prefix [quote] raw of
        None \<Rightarrow> raw
      | Some s \<Rightarrow> (case strip_suffix [quote] s of None \<Rightarrow> raw | Some t \<Rightarrow> t))"

fun captures_loop ::
  "query_capture list \<Rightarrow> str option \<Rightarrow> str option \<Rightarrow> (str option \<times> str option, extract_heredoc_error) result" where
  "captures_loop [] heredoc_text cd_path = Ok (heredoc_text, cd_path)"
| "captures_loop ((name, node_text) # cs) heredoc_text cd_path =
     (if name = lit ''heredoc'' then
        result_bind (map_err HeredocNotUtf8 node_text)
          (\<lambda>txt. captures_loop cs (Some (trim_end_newlines txt)) cd_path)
      else if name = lit ''cd_path'' then
        result_bind (map_err HeredocNotUtf8 node_text) (\<lambda>txt. captures_loop cs heredoc_text (Some txt))
      else if name = lit ''cd_raw_string'' then
        result_bind (map_err HeredocNotUtf8 node_text)
          (\<lambda>raw. captures_loop cs heredoc_text (Some (strip_raw_quotes raw)))
      else captures_loop cs heredoc_text cd_path)"

fun matches_loop :: "query_capture list list \<Rightarrow> (str \<times> str option, extract_heredoc_error) result" where
  "matches_loop [] = Err CommandDidNotStartWithApplyPatch"
| "matches_loop (m # ms) =
     result_bind (captures_loop m None None)
       (\<lambda>(heredoc_text, cd_path).
          case heredoc_text of Some heredoc \<Rightarrow> Ok (heredoc, cd_path) | None \<Rightarrow> matches_loop ms)"

definition extract_apply_patch_from_bash ::
  "bash_query \<Rightarrow> str \<Rightarrow> (str \<times> str option, extract_heredoc_error) result" where
  "extract_apply_patch_from_bash query src = result_bind (query src) matches_loop"

definition extract_apply_patch_from_shell ::
  "bash_query \<Rightarrow> apply_patch_shell \<Rightarrow> str \<Rightarrow> (str \<times> str option, extract_heredoc_error) result" where
  "extract_apply_patch_from_shell query shell script = extract_apply_patch_from_bash query script"

definition maybe_parse_shell :: "bash_query \<Rightarrow> str list \<Rightarrow> maybe_apply_patch" where
  "maybe_parse_shell query argv =
     (case parse_shell_script argv of
        None \<Rightarrow> MaybeNotApplyPatch
      | Some (shell, script) \<Rightarrow>
          (case extract_apply_patch_from_shell query shell script of
             Ok (body, workdir) \<Rightarrow>
               (case parse_patch body of
                  Ok source \<Rightarrow> MaybeBody (source\<lparr>args_workdir := workdir\<rparr>)
                | Err e \<Rightarrow> MaybePatchParseError e)
           | Err CommandDidNotStartWithApplyPatch \<Rightarrow> MaybeNotApplyPatch
           | Err e \<Rightarrow> MaybeShellParseError e))"

definition maybe_parse_apply_patch :: "bash_query \<Rightarrow> str list \<Rightarrow> maybe_apply_patch" where
  "maybe_parse_apply_patch query argv =
     (case argv of
        [cmd, body] \<Rightarrow>
          if cmd \<in> set APPLY_PATCH_COMMANDS then
            (case parse_patch body of Ok source \<Rightarrow> MaybeBody source | Err e \<Rightarrow> MaybePatchParseError e)
          else maybe_parse_shell query argv
      | _ \<Rightarrow> maybe_parse_shell query argv)"

section \<open>Verifying the arguments\<close>

datatype apply_patch_file_change =
    Change_Add str
  | Change_Delete str
  | Change_Update str "str option" str

record apply_patch_action =
  action_changes :: "str \<Rightarrow> apply_patch_file_change option"
  action_patch :: str
  action_cwd :: str

datatype maybe_apply_patch_verified =
    VerifiedBody apply_patch_action
  | VerifiedShellParseError extract_heredoc_error
  | CorrectnessError apply_patch_error
  | VerifiedNotApplyPatch

record apply_patch_file_update =
  unified_diff :: str
  original_content :: str
  update_content :: str

type_synonym text_diff = "nat \<Rightarrow> str \<Rightarrow> str \<Rightarrow> str"

definition unified_diff_from_chunks_with_context ::
  "'fs executor_fs \<Rightarrow> text_diff \<Rightarrow> str \<Rightarrow> update_file_chunk list \<Rightarrow> nat \<Rightarrow> 'fs \<Rightarrow>
     (apply_patch_file_update, apply_patch_error) result option" where
  "unified_diff_from_chunks_with_context fs diff path_abs chunks ctx s =
     map_option (\<lambda>r. result_bind r (\<lambda>patch. Ok
        \<lparr>unified_diff = diff ctx (original_contents patch) (new_contents patch),
         original_content = original_contents patch, update_content = new_contents patch\<rparr>))
       (derive_new_contents_from_chunks fs path_abs chunks s)"

definition unified_diff_from_chunks ::
  "'fs executor_fs \<Rightarrow> text_diff \<Rightarrow> str \<Rightarrow> update_file_chunk list \<Rightarrow> 'fs \<Rightarrow>
     (apply_patch_file_update, apply_patch_error) result option" where
  "unified_diff_from_chunks fs diff path_abs chunks s =
     unified_diff_from_chunks_with_context fs diff path_abs chunks 1 s"

definition verify_hunk ::
  "'fs executor_fs \<Rightarrow> str option \<Rightarrow> text_diff \<Rightarrow> str \<Rightarrow> 'fs \<Rightarrow> hunk \<Rightarrow>
     (apply_patch_file_change, apply_patch_error) result option" where
  "verify_hunk fs home diff effective_cwd s h =
     (let path = resolve_path_against_base home (hunk_source_path h) effective_cwd in
      case h of
        AddFile _ contents \<Rightarrow> Some (Ok (Change_Add contents))
      | DeleteFile _ \<Rightarrow>
          (case read_file_text fs path s of
             Ok content \<Rightarrow> Some (Ok (Change_Delete content))
           | Err e \<Rightarrow> Some (Err (IoError (lit ''Failed to read '' @ path) e)))
      | UpdateFile _ move_path chunks \<Rightarrow>
          map_option (\<lambda>r. result_bind r (\<lambda>u. Ok
             (Change_Update (unified_diff u)
                (map_option (\<lambda>p. resolve_path_against_base home p effective_cwd) move_path)
                (update_content u))))
            (unified_diff_from_chunks fs diff path chunks s))"

fun verify_hunks_loop ::
  "'fs executor_fs \<Rightarrow> str option \<Rightarrow> text_diff \<Rightarrow> str \<Rightarrow> 'fs \<Rightarrow> hunk list \<Rightarrow>
     (str \<Rightarrow> apply_patch_file_change option) \<Rightarrow>
     (str \<Rightarrow> apply_patch_file_change option, apply_patch_error) result option" where
  "verify_hunks_loop fs home diff effective_cwd s [] changes = Some (Ok changes)"
| "verify_hunks_loop fs home diff effective_cwd s (h # hs) changes =
     (case verify_hunk fs home diff effective_cwd s h of
        None \<Rightarrow> None
      | Some (Err e) \<Rightarrow> Some (Err e)
      | Some (Ok c) \<Rightarrow>
          verify_hunks_loop fs home diff effective_cwd s hs
            (changes(resolve_path_against_base home (hunk_source_path h) effective_cwd \<mapsto> c)))"

definition verify_apply_patch_args ::
  "'fs executor_fs \<Rightarrow> str option \<Rightarrow> text_diff \<Rightarrow> apply_patch_args \<Rightarrow> str \<Rightarrow> 'fs \<Rightarrow>
     maybe_apply_patch_verified option" where
  "verify_apply_patch_args fs home diff args cwd s =
     (let effective_cwd =
        (case args_workdir args of Some dir \<Rightarrow> resolve_path_against_base home dir cwd | None \<Rightarrow> cwd)
      in case verify_hunks_loop fs home diff effective_cwd s (args_hunks args) Map.empty of
           None \<Rightarrow> None
         | Some (Err e) \<Rightarrow> Some (CorrectnessError e)
         | Some (Ok changes) \<Rightarrow>
             Some (VerifiedBody \<lparr>action_changes = changes, action_patch = args_patch args,
                                 action_cwd = effective_cwd\<rparr>))"

definition maybe_parse_apply_patch_verified ::
  "'fs executor_fs \<Rightarrow> str option \<Rightarrow> text_diff \<Rightarrow> bash_query \<Rightarrow> str list \<Rightarrow> str \<Rightarrow> 'fs \<Rightarrow>
     maybe_apply_patch_verified option" where
  "maybe_parse_apply_patch_verified fs home diff query argv cwd s =
     (if (case argv of [body] \<Rightarrow> is_ok (parse_patch body) | _ \<Rightarrow> False)
      then Some (CorrectnessError ImplicitInvocation)
      else if (case parse_shell_script argv of Some (_, script) \<Rightarrow> is_ok (parse_patch script) | None \<Rightarrow> False)
      then Some (CorrectnessError ImplicitInvocation)
      else case maybe_parse_apply_patch query argv of
        MaybeBody args \<Rightarrow> verify_apply_patch_args fs home diff args cwd s
      | MaybeShellParseError e \<Rightarrow> Some (VerifiedShellParseError e)
      | MaybePatchParseError e \<Rightarrow> Some (CorrectnessError (ParseError e))
      | MaybeNotApplyPatch \<Rightarrow> Some VerifiedNotApplyPatch)"

section \<open>What is shown against what is applied\<close>

text \<open>The paths a hunk touches, and the state of the files a shown change announces.\<close>

fun touched :: "str option \<Rightarrow> str \<Rightarrow> hunk \<Rightarrow> str list" where
  "touched home cwd (UpdateFile path (Some dest) chunks) =
     [resolve_path_against_base home path cwd, resolve_path_against_base home dest cwd]"
| "touched home cwd h = [resolve_path_against_base home (hunk_source_path h) cwd]"

fun change_done :: "text_view \<Rightarrow> str \<Rightarrow> apply_patch_file_change \<Rightarrow> bool" where
  "change_done v p (Change_Add content) \<longleftrightarrow> v p = Some content"
| "change_done v p (Change_Delete content) \<longleftrightarrow> v p = None"
| "change_done v p (Change_Update diff None new) \<longleftrightarrow> v p = Some new"
| "change_done v p (Change_Update diff (Some dest) new) \<longleftrightarrow> v p = None \<and> v dest = Some new"

definition shown_at :: "str option \<Rightarrow> str \<Rightarrow> (str \<Rightarrow> apply_patch_file_change option) \<Rightarrow> text_view \<Rightarrow> hunk \<Rightarrow> bool" where
  "shown_at home cwd changes v h \<longleftrightarrow>
     (let p = resolve_path_against_base home (hunk_source_path h) cwd
      in case changes p of None \<Rightarrow> False | Some c \<Rightarrow> change_done v p c)"

lemma source_touched: "resolve_path_against_base home (hunk_source_path h) cwd \<in> set (touched home cwd h)"
  by (cases "(home, cwd, h)" rule: touched.cases) auto

lemma change_done_cong:
  assumes "change_done v p c" "v' p = v p" "\<And>diff d new. c = Change_Update diff (Some d) new \<Longrightarrow> v' d = v d"
  shows "change_done v' p c"
  using assms by (cases "(v, p, c)" rule: change_done.cases) auto

lemma verify_hunk_update:
  assumes "verify_hunk fs home diff cwd s (UpdateFile path mv chunks) = Some (Ok c)"
  obtains old new where "fs_view fs s (resolve_path_against_base home path cwd) = Some old"
    "new_contents_from_chunks (resolve_path_against_base home path cwd) old chunks = Some (Ok new)"
    "c = Change_Update (diff 1 old new) (map_option (\<lambda>p. resolve_path_against_base home p cwd) mv) new"
proof -
  let ?p = "resolve_path_against_base home path cwd"
  from assms obtain patch where d: "derive_new_contents_from_chunks fs ?p chunks s = Some (Ok patch)"
    and c: "c = Change_Update (diff 1 (original_contents patch) (new_contents patch))
      (map_option (\<lambda>p. resolve_path_against_base home p cwd) mv) (new_contents patch)"
    by (auto simp: verify_hunk_def unified_diff_from_chunks_def unified_diff_from_chunks_with_context_def
        result_simps)
  from derive_Some [OF d] c show ?thesis by (intro that)
qed

text \<open>One hunk: the change shown for the files \<open>s\<close> is what the specification does.\<close>

lemma verify_hunk_done:
  assumes v: "verify_hunk fs home diff cwd s h = Some (Ok c)"
    and spec: "spec_hunk home cwd h v = Some v'"
    and same: "\<forall>q\<in>set (touched home cwd h). v q = fs_view fs s q"
    and dist: "distinct (touched home cwd h)"
  shows "change_done v' (resolve_path_against_base home (hunk_source_path h) cwd) c"
    "q \<notin> set (touched home cwd h) \<Longrightarrow> v' q = v q"
    "c = Change_Update d (Some dest) new \<Longrightarrow> dest \<in> set (touched home cwd h)"
proof -
  have "change_done v' (resolve_path_against_base home (hunk_source_path h) cwd) c \<and>
      (q \<notin> set (touched home cwd h) \<longrightarrow> v' q = v q) \<and>
      (c = Change_Update d (Some dest) new \<longrightarrow> dest \<in> set (touched home cwd h))"
  proof (cases h)
    case (AddFile path contents)
    then show ?thesis using v spec by (auto simp: verify_hunk_def)
  next
    case (DeleteFile path)
    then show ?thesis using v spec by (auto simp: verify_hunk_def Let_def split: result.splits option.splits)
  next
    case (UpdateFile path mv chunks)
    from v [unfolded UpdateFile] obtain old new' where
      "fs_view fs s (resolve_path_against_base home path cwd) = Some old"
      "new_contents_from_chunks (resolve_path_against_base home path cwd) old chunks = Some (Ok new')"
      "c = Change_Update (diff 1 old new') (map_option (\<lambda>p. resolve_path_against_base home p cwd) mv) new'"
      by (rule verify_hunk_update)
    then show ?thesis using UpdateFile spec same dist by (cases mv) auto
  qed
  then show "change_done v' (resolve_path_against_base home (hunk_source_path h) cwd) c"
    "q \<notin> set (touched home cwd h) \<Longrightarrow> v' q = v q"
    "c = Change_Update d (Some dest) new \<Longrightarrow> dest \<in> set (touched home cwd h)" by auto
qed

lemma verify_loop_keeps:
  assumes "p \<notin> (\<Union>h\<in>set hs. set (touched home cwd h))"
  shows "verify_hunks_loop fs home diff cwd s hs acc = Some (Ok changes) \<Longrightarrow> changes p = acc p"
  using assms
proof (induction hs arbitrary: acc)
  case (Cons h hs)
  from Cons.prems(1) obtain c where "verify_hunks_loop fs home diff cwd s hs
      (acc(resolve_path_against_base home (hunk_source_path h) cwd \<mapsto> c)) = Some (Ok changes)"
    by (auto split: option.splits result.splits)
  moreover have "p \<noteq> resolve_path_against_base home (hunk_source_path h) cwd"
    using Cons.prems(2) source_touched [of home h cwd] by auto
  ultimately show ?case using Cons.IH Cons.prems(2) by fastforce
qed simp

lemma verify_loop_done:
  "verify_hunks_loop fs home diff cwd s hs acc = Some (Ok changes) \<Longrightarrow>
   spec_hunks home cwd hs v = Some v' \<Longrightarrow>
   distinct (concat (map (touched home cwd) hs)) \<Longrightarrow>
   \<forall>q\<in>(\<Union>h\<in>set hs. set (touched home cwd h)). v q = fs_view fs s q \<Longrightarrow>
   (\<forall>h\<in>set hs. shown_at home cwd changes v' h) \<and>
   (\<forall>q. q \<notin> (\<Union>h\<in>set hs. set (touched home cwd h)) \<longrightarrow> v' q = v q)"
proof (induction hs arbitrary: acc v)
  case (Cons h hs)
  let ?p = "resolve_path_against_base home (hunk_source_path h) cwd"
  let ?T = "\<Union>h\<in>set hs. set (touched home cwd h)"
  from Cons.prems(1) obtain c where c: "verify_hunk fs home diff cwd s h = Some (Ok c)"
      and loop: "verify_hunks_loop fs home diff cwd s hs (acc(?p \<mapsto> c)) = Some (Ok changes)"
    by (auto split: option.splits result.splits)
  from Cons.prems(2) obtain v1 where v1: "spec_hunk home cwd h v = Some v1" "spec_hunks home cwd hs v1 = Some v'"
    by (auto split: option.splits)
  have disj: "set (touched home cwd h) \<inter> ?T = {}" and dist: "distinct (touched home cwd h)"
    using Cons.prems(3) by auto
  note one = verify_hunk_done [OF c v1(1) _ dist]
  have same: "\<forall>q\<in>set (touched home cwd h). v q = fs_view fs s q" using Cons.prems(4) by simp
  have "\<forall>q\<in>?T. v1 q = fs_view fs s q"
  proof
    fix q assume "q \<in> ?T"
    then show "v1 q = fs_view fs s q" using one(2) [OF same, of q] Cons.prems(4) disj by fastforce
  qed
  with Cons.IH [OF loop v1(2)] Cons.prems(3)
  have rest: "\<forall>h\<in>set hs. shown_at home cwd changes v' h" "\<And>q. q \<notin> ?T \<Longrightarrow> v' q = v1 q" by auto
  have pT: "?p \<notin> ?T" using disj source_touched [of home h cwd] by auto
  have "changes ?p = Some c" using verify_loop_keeps [OF pT loop] by simp
  moreover have "change_done v' ?p c"
  proof (rule change_done_cong [OF one(1) [OF same]])
    show "v' ?p = v1 ?p" using rest(2) pT by simp
    show "v' d = v1 d" if "c = Change_Update diff' (Some d) new" for diff' d new
      using one(3) [OF same that] disj rest(2) [of d] by blast
  qed
  ultimately have "shown_at home cwd changes v' h" by (simp add: shown_at_def)
  then show ?case using rest one(2) [OF same] by auto
qed simp

lemma verify_hunk_total: "verify_hunk fs home diff cwd s h \<noteq> None"
  using derive_total [of fs _ _ s]
  by (cases h) (auto simp: verify_hunk_def unified_diff_from_chunks_def Let_def
      unified_diff_from_chunks_with_context_def split: result.splits)

lemma verify_hunks_loop_total: "verify_hunks_loop fs home diff cwd s hs acc \<noteq> None"
proof (induction hs arbitrary: acc)
  case (Cons h hs)
  then show ?case using verify_hunk_total [of fs home diff cwd s h]
    by (auto split: option.splits result.splits)
qed simp

lemma verify_args_total: "verify_apply_patch_args fs home diff args cwd s \<noteq> None"
  using verify_hunks_loop_total [of fs home diff _ s "args_hunks args" Map.empty]
  by (auto simp: verify_apply_patch_args_def Let_def split: option.splits result.splits)

section \<open>Properties\<close>


lemma sample_move_verified:
  "verify_apply_patch_args mem_fs None (\<lambda>n a b. []) \<lparr>args_patch = [], args_hunks = sample_run_hunks (Some (lit ''g'')),
      args_workdir = None, args_environment_id = None\<rparr> (lit ''/w'') sample_files =
   Some (VerifiedBody \<lparr>action_changes = [lit ''/w/f'' \<mapsto> Change_Update [] (Some (lit ''/w/g'')) (lit ''b'' @ [newline])],
      action_patch = [], action_cwd = lit ''/w''\<rparr>)"
  by (simp add: verify_apply_patch_args_def verify_hunk_def unified_diff_from_chunks_def
      unified_diff_from_chunks_with_context_def apply_eval)


definition two_edits :: "hunk list" where
  "two_edits =
     [UpdateFile (lit ''f'') None [sample_chunk [lit ''a''] [lit ''x''] False],
      UpdateFile (lit ''f'') None [sample_chunk [lit ''b''] [lit ''y''] False]]"

text \<open>
  two update hunks for the same file are verified against the original file each, and the later one
  replaces the earlier one in the shown changes; applying them writes both edits. What is approved is
  then not what ends up in the file.
\<close>

theorem repeated_file_shows_other_content:
  "\<exists>changes st d.
     verify_apply_patch_args mem_fs None diff
       \<lparr>args_patch = [], args_hunks = two_edits, args_workdir = None, args_environment_id = None\<rparr>
       (lit ''/w'') [lit ''/w/f'' \<mapsto> join [newline] [lit ''a'', lit ''b'', []]] =
       Some (VerifiedBody \<lparr>action_changes = changes, action_patch = [], action_cwd = lit ''/w''\<rparr>) \<and>
     changes (lit ''/w/f'') = Some (Change_Update d None (join [newline] [lit ''a'', lit ''y'', []])) \<and>
     apply_hunks_to_files mem_fs None (lit ''/w'') two_edits delta_empty
       [lit ''/w/f'' \<mapsto> join [newline] [lit ''a'', lit ''b'', []]] = (st, Ok (as_affected st)) \<and>
     as_fs st (lit ''/w/f'') = Some (join [newline] [lit ''x'', lit ''y'', []])"
proof -
  have ab: "compute_replacements [lit ''a'', lit ''b''] p [sample_chunk [lit ''a''] [lit ''x''] False] =
      Ok [(0, 1, [lit ''x''])]"
    "compute_replacements [lit ''a'', lit ''b''] p [sample_chunk [lit ''b''] [lit ''y''] False] =
      Ok [(1, 1, [lit ''y''])]"
    "compute_replacements [lit ''x'', lit ''b''] p [sample_chunk [lit ''b''] [lit ''y''] False] =
      Ok [(1, 1, [lit ''y''])]" for p
    by (simp_all add: compute_eval)
  have sp: "split_original_lines (join [newline] [lit [c], lit [d], []]) = [lit [c], lit [d]]"
    if "of_char c \<noteq> (newline :: nat)" "of_char d \<noteq> (newline :: nat)" for c d
    using that by (simp add: split_original_lines_def last_is_empty_def lit_def)
  have j: "join_new_lines [lit [c], lit [d]] = join [newline] [lit [c], lit [d], []]" for c d
    by (simp add: join_new_lines_def last_is_empty_def lit_def)
  have "split_original_lines (join [newline] [lit ''a'', lit ''b'', []]) = [lit ''a'', lit ''b'']"
    "split_original_lines (join [newline] [lit ''x'', lit ''b'', []]) = [lit ''x'', lit ''b'']"
    by (intro sp; simp)+
  then have "new_contents_from_chunks p (join [newline] [lit ''a'', lit ''b'', []])
        [sample_chunk [lit ''a''] [lit ''x''] False] = Some (Ok (join [newline] [lit ''x'', lit ''b'', []]))"
    "new_contents_from_chunks p (join [newline] [lit ''a'', lit ''b'', []])
        [sample_chunk [lit ''b''] [lit ''y''] False] = Some (Ok (join [newline] [lit ''a'', lit ''y'', []]))"
    "new_contents_from_chunks p (join [newline] [lit ''x'', lit ''b'', []])
        [sample_chunk [lit ''b''] [lit ''y''] False] = Some (Ok (join [newline] [lit ''x'', lit ''y'', []]))" for p
    by (simp_all only: new_contents_from_chunks_def ab Let_def)
      (simp_all add: apply_replacements_def apply_each_Cons splice_def j del: join.simps)
  then show ?thesis
    by (simp del: join.simps add: verify_apply_patch_args_def verify_hunk_def unified_diff_from_chunks_def
        unified_diff_from_chunks_with_context_def apply_eval two_edits_def)
qed

text \<open>
  verification always returns, and an action only comes out of an explicit invocation: either the
  two-word direct form with one of the two command names, or a recognised shell whose script is not
  itself a patch and yields a heredoc. In both cases the patch text parses and its hunks are well formed.
\<close>

theorem verified_body_is_explicit:
  "(\<exists>r. maybe_parse_apply_patch_verified fs home diff query argv cwd s = Some r) \<and>
   (\<forall>action. maybe_parse_apply_patch_verified fs home diff query argv cwd s = Some (VerifiedBody action) \<longrightarrow>
     (\<exists>body args. parse_patch body = Ok args \<and> (\<forall>h\<in>set (args_hunks args). wf_hunk h) \<and>
        ((\<exists>cmd. argv = [cmd, body] \<and> cmd \<in> set APPLY_PATCH_COMMANDS) \<or>
         (\<exists>shell script workdir. parse_shell_script argv = Some (shell, script) \<and>
            (\<exists>e. parse_patch script = Err e) \<and>
            extract_apply_patch_from_bash query script = Ok (body, workdir)))))"
proof (intro conjI allI impI)
  show "\<exists>r. maybe_parse_apply_patch_verified fs home diff query argv cwd s = Some r"
    using verify_args_total [of fs home diff _ cwd s]
    by (auto simp: maybe_parse_apply_patch_verified_def split: maybe_apply_patch.splits)
next
  fix action
  assume a: "maybe_parse_apply_patch_verified fs home diff query argv cwd s = Some (VerifiedBody action)"
  then obtain args0 where m: "maybe_parse_apply_patch query argv = MaybeBody args0"
    by (auto simp: maybe_parse_apply_patch_verified_def split: if_splits maybe_apply_patch.splits)
  have raw: "\<exists>e. parse_patch script = Err e" if "parse_shell_script argv = Some (shell, script)" for shell script
    using a that by (cases "parse_patch script")
      (auto simp: maybe_parse_apply_patch_verified_def split: if_splits list.splits)
  consider (direct) cmd body where "argv = [cmd, body]" "cmd \<in> set APPLY_PATCH_COMMANDS" "parse_patch body = Ok args0"
    | (shell) "maybe_parse_shell query argv = MaybeBody args0"
    using m by (auto simp: maybe_parse_apply_patch_def split: list.splits if_splits result.splits)
  then show "\<exists>body args. parse_patch body = Ok args \<and> (\<forall>h\<in>set (args_hunks args). wf_hunk h) \<and>
        ((\<exists>cmd. argv = [cmd, body] \<and> cmd \<in> set APPLY_PATCH_COMMANDS) \<or>
         (\<exists>shell script workdir. parse_shell_script argv = Some (shell, script) \<and>
            (\<exists>e. parse_patch script = Err e) \<and>
            extract_apply_patch_from_bash query script = Ok (body, workdir)))"
  proof cases
    case direct
    then show ?thesis using parse_patch_hunks_wf [of body] by blast
  next
    case shell
    then obtain sh script body workdir source where
      "parse_shell_script argv = Some (sh, script)" "parse_patch body = Ok source"
      "extract_apply_patch_from_bash query script = Ok (body, workdir)"
      by (auto simp: maybe_parse_shell_def extract_apply_patch_from_shell_def
          split: option.splits result.splits extract_heredoc_error.splits)
    then show ?thesis using parse_patch_hunks_wf [of body] raw by blast
  qed
qed

theorem verified_body_is_explicit_witness:
  "\<exists>r. maybe_parse_apply_patch_verified mem_fs None (\<lambda>n a b. []) (\<lambda>src. Ok [])
     [lit ''apply_patch'', lit ''x''] (lit ''/w'') sample_files = Some r"
  using verified_body_is_explicit [of mem_fs None "\<lambda>n a b. []" "\<lambda>src. Ok []"
      "[lit ''apply_patch'', lit ''x'']" "lit ''/w''" sample_files] by blast

end
