(* ===== verification/Exec_Policy_Rules.thy ===== *)
theory Exec_Policy_Rules
  imports Absolute_Path
begin

text \<open>
  Model of \<^verbatim>\<open>execpolicy/src/decision.rs\<close>, \<^verbatim>\<open>execpolicy/src/error.rs\<close> and \<^verbatim>\<open>execpolicy/src/rule.rs\<close>: decisions
  with their severity order, prefix rules and what they match, and network rules with the
  normalisation of their hosts. The locale \<open>rule_contract\<close> is what a policy relies on of the \<open>Rule\<close>
  trait; prefix rules, its only implementation, interpret it.
\<close>

section \<open>Decisions\<close>

datatype decision = Allow | Prompt | Forbidden

fun severity :: "decision \<Rightarrow> nat" where
  "severity Allow = 0" | "severity Prompt = 1" | "severity Forbidden = 2"

lemma severity_inject [simp]: "severity a = severity b \<longleftrightarrow> a = b"
  by (cases a; cases b) auto

text \<open>The derived \<open>Ord\<close> follows the order of the variants.\<close>

instantiation decision :: linorder
begin

definition less_eq_decision :: "decision \<Rightarrow> decision \<Rightarrow> bool" where
  "less_eq_decision a b \<longleftrightarrow> severity a \<le> severity b"

definition less_decision :: "decision \<Rightarrow> decision \<Rightarrow> bool" where
  "less_decision a b \<longleftrightarrow> severity a < severity b"

instance
  by standard (auto simp: less_eq_decision_def less_decision_def)

end

lemma decision_bounds [simp]: "Allow \<le> d" "d \<le> Forbidden"
  by (cases d; simp add: less_eq_decision_def)+

section \<open>Errors\<close>

record text_position =
  pos_line :: nat
  pos_column :: nat

record text_range =
  range_start :: text_position
  range_end :: text_position

record error_location =
  location_path :: str
  location_range :: text_range

text \<open>An error of the Starlark interpreter: its own message, or an error that a builtin returned.\<close>

datatype policy_error =
    InvalidDecision str
  | InvalidPattern str
  | InvalidExample str
  | InvalidRule str
  | ExampleDidNotMatch "str list" "str list" "error_location option"
  | ExampleDidMatch str str "error_location option"
  | Starlark "str + policy_error"

fun with_location :: "policy_error \<Rightarrow> error_location \<Rightarrow> policy_error" where
  "with_location (ExampleDidNotMatch rules examples None) location =
     ExampleDidNotMatch rules examples (Some location)"
| "with_location (ExampleDidMatch rule example None) location = ExampleDidMatch rule example (Some location)"
| "with_location other location = other"

text \<open>The message of an error; the debug rendering of the lists and Starlark's own message are parameters.\<close>

fun policy_error_message :: "(str list \<Rightarrow> str) \<Rightarrow> (str + policy_error \<Rightarrow> str) \<Rightarrow> policy_error \<Rightarrow> str" where
  "policy_error_message debug starlark (InvalidDecision s) = lit ''invalid decision: '' @ s"
| "policy_error_message debug starlark (InvalidPattern s) = lit ''invalid pattern element: '' @ s"
| "policy_error_message debug starlark (InvalidExample s) = lit ''invalid example: '' @ s"
| "policy_error_message debug starlark (InvalidRule s) = lit ''invalid rule: '' @ s"
| "policy_error_message debug starlark (ExampleDidNotMatch rules examples location) =
     lit ''expected every example to match at least one rule. rules: '' @ debug rules @
     lit ''; unmatched examples: '' @ debug examples"
| "policy_error_message debug starlark (ExampleDidMatch rule example location) =
     lit ''expected example to not match rule `'' @ rule @ lit ''`: '' @ example"
| "policy_error_message debug starlark (Starlark e) = lit ''starlark error: '' @ starlark e"

definition decision_parse :: "str \<Rightarrow> (decision, policy_error) result" where
  "decision_parse raw =
     (if raw = lit ''allow'' then Ok Allow
      else if raw = lit ''prompt'' then Ok Prompt
      else if raw = lit ''forbidden'' then Ok Forbidden
      else Err (InvalidDecision raw))"

section \<open>Prefix patterns\<close>

datatype pattern_token = Single str | Alts "str list"

fun token_matches :: "pattern_token \<Rightarrow> str \<Rightarrow> bool" where
  "token_matches (Single expected) tok \<longleftrightarrow> expected = tok"
| "token_matches (Alts alternatives) tok \<longleftrightarrow> list_ex (\<lambda>alt. alt = tok) alternatives"

fun alternatives :: "pattern_token \<Rightarrow> str list" where
  "alternatives (Single expected) = [expected]"
| "alternatives (Alts alts) = alts"

record prefix_pattern =
  pattern_first :: str
  pattern_rest :: "pattern_token list"

fun tokens_match :: "pattern_token list \<Rightarrow> str list \<Rightarrow> bool" where
  "tokens_match (p # ps) (t # ts) = (if \<not> token_matches p t then False else tokens_match ps ts)"
| "tokens_match _ _ = True"

definition matches_prefix :: "prefix_pattern \<Rightarrow> str list \<Rightarrow> str list option" where
  "matches_prefix pat cmd =
     (let pattern_length = length (pattern_rest pat) + 1 in
      if length cmd < pattern_length \<or> cmd ! 0 \<noteq> pattern_first pat then None
      else if \<not> tokens_match (pattern_rest pat) (take (pattern_length - 1) (drop 1 cmd)) then None
      else Some (take pattern_length cmd))"

datatype rule_match =
    PrefixRuleMatch "str list" decision "str option" "str option"
  | HeuristicsRuleMatch "str list" decision

fun match_decision :: "rule_match \<Rightarrow> decision" where
  "match_decision (PrefixRuleMatch matched_prefix d resolved_program justification) = d"
| "match_decision (HeuristicsRuleMatch command d) = d"

fun with_resolved_program :: "rule_match \<Rightarrow> str \<Rightarrow> rule_match" where
  "with_resolved_program (PrefixRuleMatch matched_prefix d resolved_program justification) program =
     PrefixRuleMatch matched_prefix d (Some program) justification"
| "with_resolved_program other program = other"

record prefix_rule =
  rule_pattern :: prefix_pattern
  rule_decision :: decision
  rule_justification :: "str option"

definition rule_program :: "prefix_rule \<Rightarrow> str" where
  "rule_program r = pattern_first (rule_pattern r)"

definition rule_matches :: "prefix_rule \<Rightarrow> str list \<Rightarrow> rule_match option" where
  "rule_matches r cmd =
     map_option (\<lambda>matched_prefix. PrefixRuleMatch matched_prefix (rule_decision r) None (rule_justification r))
       (matches_prefix (rule_pattern r) cmd)"

section \<open>Network rules\<close>

datatype network_rule_protocol = Http | Https | Socks5Tcp | Socks5Udp

definition protocol_parse :: "str \<Rightarrow> (network_rule_protocol, policy_error) result" where
  "protocol_parse raw =
     (if raw = lit ''http'' then Ok Http
      else if raw = lit ''https'' \<or> raw = lit ''https_connect'' \<or> raw = lit ''http-connect'' then Ok Https
      else if raw = lit ''socks5_tcp'' then Ok Socks5Tcp
      else if raw = lit ''socks5_udp'' then Ok Socks5Udp
      else Err (InvalidRule
        (lit ''network_rule protocol must be one of http, https, socks5_tcp, socks5_udp (got '' @ raw @ lit '')'')))"

fun as_policy_string :: "network_rule_protocol \<Rightarrow> str" where
  "as_policy_string Http = lit ''http''"
| "as_policy_string Https = lit ''https''"
| "as_policy_string Socks5Tcp = lit ''socks5_tcp''"
| "as_policy_string Socks5Udp = lit ''socks5_udp''"

record network_rule =
  net_host :: str
  net_protocol :: network_rule_protocol
  net_decision :: decision
  net_justification :: "str option"

text \<open>\<open>str::rsplit_once\<close> on a character, and \<open>trim_end_matches\<close> on a character.\<close>

definition rsplit_once :: "uchar \<Rightarrow> str \<Rightarrow> (str \<times> str) option" where
  [text_eval]: "rsplit_once c s = map_option (\<lambda>(a, b). (rev b, rev a)) (split_once c (rev s))"

definition trim_end_char :: "uchar \<Rightarrow> str \<Rightarrow> str" where
  [text_eval]: "trim_end_char c s = rev (dropWhile (\<lambda>x. x = c) (rev s))"

definition all_digits :: "str \<Rightarrow> bool" where
  [text_eval]: "all_digits s \<longleftrightarrow> list_all is_ascii_digit s"

definition strip_bracketed_host :: "str \<Rightarrow> str \<Rightarrow> (str, policy_error) result" where
  [text_eval]: "strip_bracketed_host raw stripped =
     (case split_once 93 stripped of
        None \<Rightarrow> Err (InvalidRule (lit ''network_rule host has an invalid bracketed IPv6 literal''))
      | Some (inside, rest) \<Rightarrow>
          (let port_ok = (case strip_prefix [58] rest of Some port \<Rightarrow> port \<noteq> [] \<and> all_digits port | None \<Rightarrow> False)
           in if rest \<noteq> [] \<and> \<not> port_ok
              then Err (InvalidRule (lit ''network_rule host contains an unsupported suffix: '' @ raw))
              else Ok inside))"

definition strip_host_port :: "str \<Rightarrow> str" where
  [text_eval]: "strip_host_port host =
     (if length (filter (\<lambda>c. c = 58) host) = 1
      then (case rsplit_once 58 host of
              Some (candidate, port) \<Rightarrow>
                if candidate \<noteq> [] \<and> port \<noteq> [] \<and> all_digits port then candidate else host
            | None \<Rightarrow> host)
      else host)"

definition normalize_network_rule_host :: "str \<Rightarrow> (str, policy_error) result" where
  [text_eval]: "normalize_network_rule_host raw =
     (let host = trim raw in
      if host = [] then Err (InvalidRule (lit ''network_rule host cannot be empty''))
      else if contains_str (lit ''://'') host \<or> contains_str (lit ''/'') host \<or> contains_str (lit ''?'') host \<or>
        contains_str (lit ''#'') host
      then Err (InvalidRule
        (lit ''network_rule host must be a hostname or IP literal (without scheme or path)''))
      else
        result_bind
          (case strip_prefix (lit ''['') host of
             Some stripped \<Rightarrow> strip_bracketed_host raw stripped
           | None \<Rightarrow> Ok (strip_host_port host))
          (\<lambda>host.
             let normalized = to_ascii_lowercase (trim (trim_end_char 46 host)) in
             if normalized = [] then Err (InvalidRule (lit ''network_rule host cannot be empty''))
             else if contains_str (lit ''*'') normalized
             then Err (InvalidRule (lit ''network_rule host must be a specific host; wildcards are not allowed''))
             else if list_ex is_whitespace normalized
             then Err (InvalidRule (lit ''network_rule host cannot contain whitespace''))
             else Ok normalized))"

section \<open>What a policy relies on of a rule\<close>

locale rule_contract =
  fixes program :: "'r \<Rightarrow> str"
    and rmatches :: "'r \<Rightarrow> str list \<Rightarrow> 'm option"
  assumes matches_program: "rmatches r cmd = Some m \<Longrightarrow> cmd \<noteq> [] \<and> hd cmd = program r"
    and matches_extend: "rmatches r cmd = Some m \<Longrightarrow> rmatches r (cmd @ extra) = Some m"
begin

definition rule_hits :: "'r list \<Rightarrow> str list \<Rightarrow> 'm list" where
  "rule_hits rs cmd = filter_map (\<lambda>r. rmatches r cmd) rs"

lemma rule_hits_extend: "set (rule_hits rs cmd) \<subseteq> set (rule_hits rs (cmd @ extra))"
  unfolding rule_hits_def by (rule subsetI) (auto simp: set_filter_map intro: matches_extend)

lemma rule_hits_other_program:
  "\<forall>r\<in>set rs. program r \<noteq> hd cmd \<Longrightarrow> rule_hits rs cmd = []"
  unfolding rule_hits_def filter_map_empty using matches_program by (metis not_Some_eq)

end

lemma tokens_match_iff:
  "length ps = length ts \<Longrightarrow> tokens_match ps ts \<longleftrightarrow> list_all2 token_matches ps ts"
  by (induction ps ts rule: tokens_match.induct) auto

lemma matches_prefix_iff:
  "matches_prefix pat cmd = Some matched \<longleftrightarrow>
     (\<exists>toks rest. cmd = pattern_first pat # toks @ rest \<and> matched = pattern_first pat # toks \<and>
        list_all2 token_matches (pattern_rest pat) toks)"
proof
  let ?n = "length (pattern_rest pat)"
  assume m: "matches_prefix pat cmd = Some matched"
  then obtain cs where c: "cmd = pattern_first pat # cs" "?n \<le> length cs"
    by (cases cmd) (auto simp: matches_prefix_def Let_def split: if_splits)
  with m have "list_all2 token_matches (pattern_rest pat) (take ?n cs)" "matched = pattern_first pat # take ?n cs"
    by (auto simp: matches_prefix_def Let_def tokens_match_iff split: if_splits)
  with c show "\<exists>toks rest. cmd = pattern_first pat # toks @ rest \<and> matched = pattern_first pat # toks \<and>
      list_all2 token_matches (pattern_rest pat) toks"
    by (metis append_take_drop_id)
next
  assume "\<exists>toks rest. cmd = pattern_first pat # toks @ rest \<and> matched = pattern_first pat # toks \<and>
      list_all2 token_matches (pattern_rest pat) toks"
  then obtain toks rest where c: "cmd = pattern_first pat # toks @ rest" "matched = pattern_first pat # toks"
      and l: "list_all2 token_matches (pattern_rest pat) toks" by blast
  have n: "length (pattern_rest pat) = length toks" using l by (rule list_all2_lengthD)
  then have "tokens_match (pattern_rest pat) toks" using l by (simp add: tokens_match_iff)
  then show "matches_prefix pat cmd = Some matched" using c n by (simp add: matches_prefix_def Let_def)
qed

interpretation prefix_rules: rule_contract rule_program rule_matches
proof
  fix r cmd m
  assume "rule_matches r cmd = Some m"
  then obtain matched where *: "matches_prefix (rule_pattern r) cmd = Some matched"
      and m: "m = PrefixRuleMatch matched (rule_decision r) None (rule_justification r)"
    by (auto simp: rule_matches_def)
  show "cmd \<noteq> [] \<and> hd cmd = rule_program r"
    using * by (auto simp: matches_prefix_iff rule_program_def)
  have "matches_prefix (rule_pattern r) (cmd @ extra) = Some matched" for extra
    using * unfolding matches_prefix_iff by (metis append_Cons append_assoc)
  then show "rule_matches r (cmd @ extra) = Some m" for extra
    using m by (simp add: rule_matches_def)
qed

section \<open>Normal forms of hosts\<close>

text \<open>A stored host is non-empty, without white space, wildcard or upper-case ASCII letters.\<close>

definition normal_host :: "str \<Rightarrow> bool" where
  "normal_host h \<longleftrightarrow> h \<noteq> [] \<and> list_all (\<lambda>c. \<not> is_whitespace c \<and> c \<noteq> 42 \<and> \<not> (65 \<le> c \<and> c \<le> 90)) h"

lemma contains_char: "contains_str [c] s \<longleftrightarrow> c \<in> set s"
  by (induction s) (auto simp: starts_with_def)

lemma lowercase_chars: "c \<in> set (to_ascii_lowercase s) \<Longrightarrow> \<not> (65 \<le> c \<and> c \<le> 90)"
  by (auto simp: to_ascii_lowercase_def)

lemma normalize_host_normal:
  assumes "normalize_network_rule_host raw = Ok h"
  shows "normal_host h"
proof -
  obtain host where h: "h = to_ascii_lowercase (trim (trim_end_char 46 host))"
      "h \<noteq> []" "\<not> contains_str (lit ''*'') h" "\<not> list_ex is_whitespace h"
    using assms by (auto simp: normalize_network_rule_host_def Let_def result_simps split: if_splits)
  then have "42 \<notin> set h" using contains_char [of 42 h] by (simp add: lit_def)
  then show ?thesis using h(2,4) lowercase_chars [of _ "trim (trim_end_char 46 host)"] h(1)
    by (auto simp: normal_host_def list_all_iff list_ex_iff)
qed

end
