(* ===== verification/Exec_Policy.thy ===== *)
theory Exec_Policy
  imports Exec_Policy_Rules "HOL-Library.List_Lexorder"
begin

text \<open>
  Model of \<^verbatim>\<open>execpolicy/src/policy.rs\<close> and \<^verbatim>\<open>execpolicy/src/executable_name.rs\<close>: the rule store, looking up the
  rules that match a command, merging policies and compiling the network domains. A \<open>MultiMap\<close> is an
  association list from keys to value vectors; nothing depends on its iteration order. The home and
  current directories, which \<open>AbsolutePathBuf::try_from\<close> asks from the system, are parameters. The
  panic of \<open>expect\<close> on an empty match vector is the value \<open>None\<close>.
\<close>

section \<open>Multi-maps\<close>

type_synonym ('k, 'v) multimap = "('k \<times> 'v list) list"

definition multimap_get_vec :: "('k, 'v) multimap \<Rightarrow> 'k \<Rightarrow> 'v list option" where
  "multimap_get_vec m k = map_of m k"

fun multimap_insert :: "'k \<Rightarrow> 'v \<Rightarrow> ('k, 'v) multimap \<Rightarrow> ('k, 'v) multimap" where
  "multimap_insert k v [] = [(k, [v])]"
| "multimap_insert k v ((k', vs) # m) =
     (if k = k' then (k', vs @ [v]) # m else (k', vs) # multimap_insert k v m)"

definition multimap_values :: "('k, 'v) multimap \<Rightarrow> 'k \<Rightarrow> 'v list" where
  "multimap_values m k = (case multimap_get_vec m k of Some vs \<Rightarrow> vs | None \<Rightarrow> [])"

section \<open>Policies\<close>

record path_env =
  env_home :: "str option"
  env_current_dir :: "(str, str) result"

record match_options =
  resolve_host_executables :: bool

definition default_options :: match_options where
  "default_options = \<lparr>resolve_host_executables = False\<rparr>"

record policy =
  rules_by_program :: "(str, prefix_rule) multimap"
  network_rules :: "network_rule list"
  host_executables_by_name :: "str \<Rightarrow> str list option"

definition policy_from_parts ::
  "(str, prefix_rule) multimap \<Rightarrow> network_rule list \<Rightarrow> (str \<Rightarrow> str list option) \<Rightarrow> policy" where
  "policy_from_parts rules nets hosts =
     \<lparr>rules_by_program = rules, network_rules = nets, host_executables_by_name = hosts\<rparr>"

definition policy_new :: "(str, prefix_rule) multimap \<Rightarrow> policy" where
  "policy_new rules = policy_from_parts rules [] Map.empty"

definition policy_empty :: policy where
  "policy_empty = policy_new []"

fun render_pattern_token :: "pattern_token \<Rightarrow> str" where
  "render_pattern_token (Single value) = value"
| "render_pattern_token (Alts alts) = lit ''['' @ join (lit ''|'') alts @ lit '']''"

definition get_allowed_prefixes :: "policy \<Rightarrow> str list list" where
  "get_allowed_prefixes p =
     remdups_adj (sort (concat (map (\<lambda>(prog, rules).
       map (\<lambda>r. pattern_first (rule_pattern r) # map render_pattern_token (pattern_rest (rule_pattern r)))
         (filter (\<lambda>r. rule_decision r = Allow) rules)) (rules_by_program p))))"

definition add_prefix_rule :: "policy \<Rightarrow> str list \<Rightarrow> decision \<Rightarrow> (policy, policy_error) result" where
  "add_prefix_rule p prefix_tokens d =
     (case prefix_tokens of
        [] \<Rightarrow> Err (InvalidPattern (lit ''prefix cannot be empty''))
      | first_token # rest \<Rightarrow>
          (let r = \<lparr>rule_pattern = \<lparr>pattern_first = first_token, pattern_rest = map Single rest\<rparr>,
                    rule_decision = d, rule_justification = None\<rparr>
           in Ok (p\<lparr>rules_by_program := multimap_insert first_token r (rules_by_program p)\<rparr>)))"

definition add_network_rule ::
  "policy \<Rightarrow> str \<Rightarrow> network_rule_protocol \<Rightarrow> decision \<Rightarrow> str option \<Rightarrow> (policy, policy_error) result" where
  "add_network_rule p host protocol d justification =
     result_bind (normalize_network_rule_host host)
       (\<lambda>host.
          if (case justification of Some raw \<Rightarrow> trim raw = [] | None \<Rightarrow> False)
          then Err (InvalidRule (lit ''justification cannot be empty''))
          else Ok (p\<lparr>network_rules := network_rules p @
                 [\<lparr>net_host = host, net_protocol = protocol, net_decision = d,
                   net_justification = justification\<rparr>]\<rparr>))"

definition set_host_executable_paths :: "policy \<Rightarrow> str \<Rightarrow> str list \<Rightarrow> policy" where
  "set_host_executable_paths p name paths =
     p\<lparr>host_executables_by_name := (host_executables_by_name p)(name \<mapsto> paths)\<rparr>"

fun insert_rules :: "str \<Rightarrow> prefix_rule list \<Rightarrow> (str, prefix_rule) multimap \<Rightarrow> (str, prefix_rule) multimap" where
  "insert_rules program [] m = m"
| "insert_rules program (r # rs) m = insert_rules program rs (multimap_insert program r m)"

definition merge_overlay :: "policy \<Rightarrow> policy \<Rightarrow> policy" where
  "merge_overlay p overlay =
     policy_from_parts
       (fold (\<lambda>(program, rules) m. insert_rules program rules m) (rules_by_program overlay) (rules_by_program p))
       (network_rules p @ network_rules overlay)
       (host_executables_by_name p ++ host_executables_by_name overlay)"

section \<open>Network domains\<close>

definition retain_other :: "str \<Rightarrow> str list \<Rightarrow> str list" where
  "retain_other host entries = filter (\<lambda>entry. entry \<noteq> host) entries"

definition upsert_domain :: "str list \<Rightarrow> str \<Rightarrow> str list" where
  "upsert_domain entries host = retain_other host entries @ [host]"

fun compile_step :: "network_rule \<Rightarrow> str list \<times> str list \<Rightarrow> str list \<times> str list" where
  "compile_step r (allowed, denied) =
     (case net_decision r of
        Allow \<Rightarrow> (upsert_domain allowed (net_host r), retain_other (net_host r) denied)
      | Forbidden \<Rightarrow> (retain_other (net_host r) allowed, upsert_domain denied (net_host r))
      | Prompt \<Rightarrow> (allowed, denied))"

definition compiled_network_domains :: "policy \<Rightarrow> str list \<times> str list" where
  "compiled_network_domains p = fold compile_step (network_rules p) ([], [])"

section \<open>Matching\<close>

definition executable_lookup_key :: "str \<Rightarrow> str" where
  "executable_lookup_key raw = raw"

definition executable_path_lookup_key :: "str \<Rightarrow> str option" where
  "executable_path_lookup_key path = map_option executable_lookup_key (path_file_name path)"

definition match_exact_rules :: "policy \<Rightarrow> str list \<Rightarrow> rule_match list option" where
  "match_exact_rules p cmd =
     (case cmd of
        [] \<Rightarrow> None
      | first # _ \<Rightarrow>
          Some (case multimap_get_vec (rules_by_program p) first of
                  Some rules \<Rightarrow> filter_map (\<lambda>r. rule_matches r cmd) rules
                | None \<Rightarrow> []))"

definition match_host_executable_rules :: "path_env \<Rightarrow> policy \<Rightarrow> str list \<Rightarrow> rule_match list" where
  "match_host_executable_rules env p cmd =
     (case cmd of
        [] \<Rightarrow> []
      | first # args \<Rightarrow>
          (case from_absolute_path (env_home env) (env_current_dir env) first of
             Err _ \<Rightarrow> []
           | Ok program \<Rightarrow>
               (case executable_path_lookup_key program of
                  None \<Rightarrow> []
                | Some basename \<Rightarrow>
                    (case multimap_get_vec (rules_by_program p) basename of
                       None \<Rightarrow> []
                     | Some rules \<Rightarrow>
                         if (case host_executables_by_name p basename of
                               Some paths \<Rightarrow> \<not> list_ex (\<lambda>path. path = program) paths
                             | None \<Rightarrow> False)
                         then []
                         else map (\<lambda>m. with_resolved_program m program)
                                (filter_map (\<lambda>r. rule_matches r (basename # args)) rules)))))"

definition matches_for_command_with_options ::
  "path_env \<Rightarrow> policy \<Rightarrow> str list \<Rightarrow> (str list \<Rightarrow> decision) option \<Rightarrow> match_options \<Rightarrow> rule_match list" where
  "matches_for_command_with_options env p cmd heuristics_fallback options =
     (let matched_rules =
        (case match_exact_rules p cmd of
           Some (m # ms) \<Rightarrow> m # ms
         | _ \<Rightarrow> if resolve_host_executables options then match_host_executable_rules env p cmd else [])
      in case (matched_rules, heuristics_fallback) of
           ([], Some fallback) \<Rightarrow> [HeuristicsRuleMatch cmd (fallback cmd)]
         | _ \<Rightarrow> matched_rules)"

definition matches_for_command ::
  "path_env \<Rightarrow> policy \<Rightarrow> str list \<Rightarrow> (str list \<Rightarrow> decision) option \<Rightarrow> rule_match list" where
  "matches_for_command env p cmd heuristics_fallback =
     matches_for_command_with_options env p cmd heuristics_fallback default_options"

record evaluation =
  eval_decision :: decision
  eval_matched_rules :: "rule_match list"

fun max_decision :: "decision list \<Rightarrow> decision option" where
  "max_decision [] = None"
| "max_decision (d # ds) = Some (fold max ds d)"

definition from_matches :: "rule_match list \<Rightarrow> evaluation option" where
  "from_matches matched_rules =
     map_option (\<lambda>d. \<lparr>eval_decision = d, eval_matched_rules = matched_rules\<rparr>)
       (max_decision (map match_decision matched_rules))"

definition evaluation_is_match :: "evaluation \<Rightarrow> bool" where
  "evaluation_is_match ev =
     list_ex (\<lambda>m. case m of HeuristicsRuleMatch _ _ \<Rightarrow> False | PrefixRuleMatch _ _ _ _ \<Rightarrow> True)
       (eval_matched_rules ev)"

definition check_with_options ::
  "path_env \<Rightarrow> policy \<Rightarrow> str list \<Rightarrow> (str list \<Rightarrow> decision) \<Rightarrow> match_options \<Rightarrow> evaluation option" where
  "check_with_options env p cmd heuristics_fallback options =
     from_matches (matches_for_command_with_options env p cmd (Some heuristics_fallback) options)"

definition check :: "path_env \<Rightarrow> policy \<Rightarrow> str list \<Rightarrow> (str list \<Rightarrow> decision) \<Rightarrow> evaluation option" where
  "check env p cmd heuristics_fallback =
     from_matches (matches_for_command_with_options env p cmd (Some heuristics_fallback) default_options)"

definition check_multiple_with_options ::
  "path_env \<Rightarrow> policy \<Rightarrow> str list list \<Rightarrow> (str list \<Rightarrow> decision) \<Rightarrow> match_options \<Rightarrow> evaluation option" where
  "check_multiple_with_options env p commands heuristics_fallback options =
     from_matches (concat (map (\<lambda>command.
       matches_for_command_with_options env p command (Some heuristics_fallback) options) commands))"

definition check_multiple ::
  "path_env \<Rightarrow> policy \<Rightarrow> str list list \<Rightarrow> (str list \<Rightarrow> decision) \<Rightarrow> evaluation option" where
  "check_multiple env p commands heuristics_fallback =
     check_multiple_with_options env p commands heuristics_fallback default_options"

section \<open>The multi-map laws\<close>

lemma multimap_values_insert:
  "multimap_values (multimap_insert k v m) k' =
     (if k = k' then multimap_values m k @ [v] else multimap_values m k')"
  by (induction k v m rule: multimap_insert.induct)
    (auto simp: multimap_values_def multimap_get_vec_def split: option.splits)

lemma multimap_values_insert_rules:
  "multimap_values (insert_rules k vs m) k' =
     (if k = k' then multimap_values m k @ vs else multimap_values m k')"
  by (induction k vs m rule: insert_rules.induct) (auto simp: multimap_values_insert)

lemma multimap_values_merge:
  "distinct (map fst o1) \<Longrightarrow>
     multimap_values (fold (\<lambda>(k, vs) m. insert_rules k vs m) o1 m) k' = multimap_values m k' @ multimap_values o1 k'"
proof (induction o1 arbitrary: m)
  case (Cons x o1)
  obtain k vs where x: "x = (k, vs)" by (cases x)
  show ?case
  proof (cases "k = k'")
    case True
    then have "multimap_values o1 k' = []"
      using Cons.prems x by (auto simp: multimap_values_def multimap_get_vec_def split: option.splits dest: map_of_SomeD)
        (metis fst_conv image_eqI map_of_SomeD)
    then show ?thesis using Cons x True
      by (simp add: multimap_values_insert_rules) (simp add: multimap_values_def multimap_get_vec_def)
  next
    case False
    then show ?thesis using Cons x
      by (simp add: multimap_values_insert_rules) (simp add: multimap_values_def multimap_get_vec_def)
  qed
qed (simp add: multimap_values_def multimap_get_vec_def)

lemma multimap_insert_keys: "fst ` set (multimap_insert k v m) = insert k (fst ` set m)"
  by (induction k v m rule: multimap_insert.induct) auto

lemma multimap_insert_distinct: "distinct (map fst m) \<Longrightarrow> distinct (map fst (multimap_insert k v m))"
  by (induction k v m rule: multimap_insert.induct) (auto simp: multimap_insert_keys simp flip: image_iff)

section \<open>The strictest decision\<close>

lemma fold_max_decision:
  "(d :: decision) \<le> fold max ds d \<and> (\<forall>x\<in>set ds. x \<le> fold max ds d) \<and> fold max ds d \<in> insert d (set ds)"
proof (induction ds arbitrary: d)
  case (Cons x ds)
  have a: "max x d \<le> fold max ds (max x d)" "\<forall>y\<in>set ds. y \<le> fold max ds (max x d)"
      "fold max ds (max x d) \<in> insert (max x d) (set ds)"
    using Cons.IH [of "max x d"] by auto
  moreover have "x \<le> max x d" "d \<le> max x d" "max x d \<in> {x, d}" by (auto simp: max_def)
  ultimately show ?case by (auto intro: order_trans)
qed simp

lemma max_decision_Some:
  "max_decision ds = Some d \<longleftrightarrow> d \<in> set ds \<and> (\<forall>x\<in>set ds. x \<le> d)"
proof (cases ds)
  case (Cons x xs)
  have f: "x \<le> fold max xs x" "\<forall>y\<in>set xs. y \<le> fold max xs x" "fold max xs x \<in> insert x (set xs)"
    using fold_max_decision [of x xs] by auto
  show ?thesis
  proof
    assume "max_decision ds = Some d"
    then show "d \<in> set ds \<and> (\<forall>x\<in>set ds. x \<le> d)" using Cons f by auto
  next
    assume d: "d \<in> set ds \<and> (\<forall>x\<in>set ds. x \<le> d)"
    then have "d \<le> fold max xs x" "fold max xs x \<le> d" using Cons f by auto
    then show "max_decision ds = Some d" using Cons by simp
  qed
qed simp

lemma max_decision_None: "max_decision ds = None \<longleftrightarrow> ds = []"
  by (cases ds) auto

lemma from_matches_Some:
  "from_matches ms = Some ev \<longleftrightarrow>
     eval_matched_rules ev = ms \<and> eval_decision ev \<in> match_decision ` set ms \<and>
     (\<forall>m\<in>set ms. match_decision m \<le> eval_decision ev)"
proof -
  have "from_matches ms = Some ev \<longleftrightarrow>
      eval_matched_rules ev = ms \<and> max_decision (map match_decision ms) = Some (eval_decision ev)"
    by (cases ev) (auto simp: from_matches_def)
  then show ?thesis by (simp add: max_decision_Some)
qed

lemma from_matches_None: "from_matches ms = None \<longleftrightarrow> ms = []"
  by (simp add: from_matches_def max_decision_None)

lemma matches_with_fallback_nonempty:
  "matches_for_command_with_options env p cmd (Some h) options \<noteq> []"
  by (auto simp: matches_for_command_with_options_def Let_def split: list.splits option.splits)

section \<open>Rules that match\<close>

lemma match_exact_values:
  "cmd \<noteq> [] \<Longrightarrow> match_exact_rules p cmd =
     Some (prefix_rules.rule_hits (multimap_values (rules_by_program p) (hd cmd)) cmd)"
  by (cases cmd) (auto simp: match_exact_rules_def multimap_values_def prefix_rules.rule_hits_def split: option.splits)

definition exact_hits :: "policy \<Rightarrow> str list \<Rightarrow> rule_match list" where
  "exact_hits p cmd = (case match_exact_rules p cmd of Some ms \<Rightarrow> ms | None \<Rightarrow> [])"

lemma exact_hits_eq:
  "exact_hits p cmd =
     (if cmd = [] then [] else prefix_rules.rule_hits (multimap_values (rules_by_program p) (hd cmd)) cmd)"
  by (simp add: exact_hits_def match_exact_values) (simp add: match_exact_rules_def)

lemma matches_exact:
  assumes "exact_hits p cmd \<noteq> []"
  shows "matches_for_command_with_options env p cmd h options = exact_hits p cmd"
  using assms
  by (auto simp: matches_for_command_with_options_def exact_hits_def Let_def split: option.splits list.splits)

lemma exact_hits_extend:
  assumes "cmd \<noteq> []"
  shows "set (exact_hits p cmd) \<subseteq> set (exact_hits p (cmd @ extra))"
  using assms prefix_rules.rule_hits_extend [of "multimap_values (rules_by_program p) (hd cmd)" cmd extra]
  by (simp add: exact_hits_eq)

text \<open>The rules of a policy whose store has one entry per program, as the operations keep it.\<close>

definition wf_policy :: "policy \<Rightarrow> bool" where
  "wf_policy p \<longleftrightarrow> distinct (map fst (rules_by_program p))"

lemma exact_hits_merge:
  assumes "wf_policy overlay"
  shows "exact_hits (merge_overlay p overlay) cmd = exact_hits p cmd @ exact_hits overlay cmd"
  using multimap_values_merge [of "rules_by_program overlay"] assms
  by (simp add: exact_hits_eq merge_overlay_def policy_from_parts_def wf_policy_def prefix_rules.rule_hits_def)

lemma exact_hits_superset_decision:
  assumes "set (exact_hits p cmd) \<subseteq> set (exact_hits q cmd')" "exact_hits p cmd \<noteq> []"
  shows "\<exists>ev ev'. check_with_options env p cmd h options = Some ev \<and>
           check_with_options env q cmd' h' options' = Some ev' \<and> eval_decision ev \<le> eval_decision ev'"
proof -
  have q: "exact_hits q cmd' \<noteq> []" using assms by auto
  obtain ev where ev: "from_matches (exact_hits p cmd) = Some ev"
    using assms(2) from_matches_None by blast
  obtain ev' where ev': "from_matches (exact_hits q cmd') = Some ev'"
    using q from_matches_None by blast
  have "eval_decision ev \<le> eval_decision ev'"
    using ev ev' assms(1) unfolding from_matches_Some by auto
  then show ?thesis
    using ev ev' assms(2) q by (simp add: check_with_options_def matches_exact)
qed

lemma rule_matches_single:
  "rule_matches \<lparr>rule_pattern = \<lparr>pattern_first = t, pattern_rest = map Single ts\<rparr>, rule_decision = d,
      rule_justification = None\<rparr> cmd =
     (if prefix (t # ts) cmd then Some (PrefixRuleMatch (t # ts) d None None) else None)"
proof -
  have l: "list_all2 token_matches (map Single ts) toks \<longleftrightarrow> toks = ts" for toks
    by (induction ts arbitrary: toks) (auto simp: list_all2_Cons1)
  have "matches_prefix \<lparr>pattern_first = t, pattern_rest = map Single ts\<rparr> cmd =
      (if prefix (t # ts) cmd then Some (t # ts) else None)"
  proof (cases "prefix (t # ts) cmd")
    case True
    then show ?thesis by (auto simp: matches_prefix_iff l prefix_def)
  next
    case False
    then have "matches_prefix \<lparr>pattern_first = t, pattern_rest = map Single ts\<rparr> cmd \<noteq> Some m" for m
      by (auto simp: matches_prefix_iff l prefix_def)
    then show ?thesis using False by auto
  qed
  then show ?thesis by (simp add: rule_matches_def)
qed

section \<open>Compiled network domains\<close>

text \<open>The decision of the last rule for a host that is not a prompt rule.\<close>

definition last_ruling :: "network_rule list \<Rightarrow> str \<Rightarrow> decision option" where
  "last_ruling rs host =
     fold (\<lambda>r acc. if net_host r = host \<and> net_decision r \<noteq> Prompt then Some (net_decision r) else acc) rs None"

lemma last_ruling_snoc:
  "last_ruling (rs @ [r]) host =
     (if net_host r = host \<and> net_decision r \<noteq> Prompt then Some (net_decision r) else last_ruling rs host)"
  by (simp add: last_ruling_def)

lemma compiled_domains:
  "fold compile_step rs ([], []) = (allowed, denied) \<Longrightarrow>
     distinct allowed \<and> distinct denied \<and>
     (\<forall>h. h \<in> set allowed \<longleftrightarrow> last_ruling rs h = Some Allow) \<and>
     (\<forall>h. h \<in> set denied \<longleftrightarrow> last_ruling rs h = Some Forbidden)"
proof (induction rs arbitrary: allowed denied rule: rev_induct)
  case (snoc r rs)
  obtain a d where ad: "fold compile_step rs ([], []) = (a, d)" by (cases "fold compile_step rs ([], [])")
  show ?case
    using snoc.IH [OF ad] snoc.prems ad
    by (cases "net_decision r") (auto simp: last_ruling_snoc upsert_domain_def retain_other_def)
qed (simp add: last_ruling_def)

section \<open>Properties\<close>

text \<open>
  C3: checking a command never panics and never invents a decision: the result lists the matching rules,
  at least one of them, and its decision is the strictest of theirs. Without any matching rule it is
  the decision of the fallback for this very command.
\<close>

theorem check_is_strictest:
  "\<exists>ev. check_with_options env p cmd h options = Some ev \<and>
     eval_matched_rules ev = matches_for_command_with_options env p cmd (Some h) options \<and>
     eval_decision ev \<in> match_decision ` set (eval_matched_rules ev) \<and>
     list_all (\<lambda>m. match_decision m \<le> eval_decision ev) (eval_matched_rules ev) \<and>
     (if matches_for_command_with_options env p cmd None options = [] then
        eval_matched_rules ev = [HeuristicsRuleMatch cmd (h cmd)] \<and> eval_decision ev = h cmd
      else eval_matched_rules ev = matches_for_command_with_options env p cmd None options)"
proof -
  let ?ms = "matches_for_command_with_options env p cmd (Some h) options"
  obtain ev where ev: "from_matches ?ms = Some ev"
    using matches_with_fallback_nonempty [of env p cmd h options] from_matches_None by blast
  have m: "?ms = (if matches_for_command_with_options env p cmd None options = []
      then [HeuristicsRuleMatch cmd (h cmd)] else matches_for_command_with_options env p cmd None options)"
    by (auto simp: matches_for_command_with_options_def Let_def split: list.splits option.splits)
  show ?thesis
    using ev [unfolded from_matches_Some] ev m
    by (intro exI [of _ ev]) (auto simp: check_with_options_def list_all_iff)
qed

text \<open>
  checking several commands at once panics exactly when there is no command; otherwise the decision
  is the strictest of the decisions for the single commands.
\<close>

theorem check_multiple_is_strictest:
  "(case check_multiple_with_options env p cmds h options of
      None \<Rightarrow> cmds = []
    | Some ev \<Rightarrow> cmds \<noteq> [] \<and>
        max_decision (map (\<lambda>cmd. eval_decision (the (check_with_options env p cmd h options))) cmds) =
          Some (eval_decision ev))"
proof -
  let ?M = "\<lambda>cmd. matches_for_command_with_options env p cmd (Some h) options"
  have single: "\<exists>ev. check_with_options env p cmd h options = Some ev \<and>
      eval_decision ev \<in> match_decision ` set (?M cmd) \<and> (\<forall>m\<in>set (?M cmd). match_decision m \<le> eval_decision ev)" for cmd
    using matches_with_fallback_nonempty [of env p cmd h options] from_matches_None [of "?M cmd"]
      from_matches_Some [of "?M cmd"] by (fastforce simp: check_with_options_def)
  define D where "D cmd = eval_decision (the (check_with_options env p cmd h options))" for cmd
  have D: "D cmd \<in> match_decision ` set (?M cmd)" "\<forall>m\<in>set (?M cmd). match_decision m \<le> D cmd" for cmd
    using single [of cmd] by (auto simp: D_def)
  have all_ne: "concat (map ?M cmds) = [] \<longleftrightarrow> cmds = []"
    using matches_with_fallback_nonempty by (auto simp: concat_eq_Nil_conv)
  show ?thesis
  proof (cases "from_matches (concat (map ?M cmds))")
    case None
    then show ?thesis using all_ne by (simp add: check_multiple_with_options_def from_matches_None [symmetric])
  next
    case (Some ev)
    then have e: "eval_decision ev \<in> match_decision ` (\<Union>c\<in>set cmds. set (?M c))"
        "\<forall>c\<in>set cmds. \<forall>m\<in>set (?M c). match_decision m \<le> eval_decision ev"
      unfolding from_matches_Some by auto
    have le: "\<forall>c\<in>set cmds. D c \<le> eval_decision ev" using D(1) e(2) by fastforce
    moreover obtain c where c: "c \<in> set cmds" "eval_decision ev \<le> D c" using D(2) e(1) by auto
    ultimately have "eval_decision ev \<in> D ` set cmds" using order_antisym by blast
    then have "max_decision (map D cmds) = Some (eval_decision ev)" using le by (auto simp: max_decision_Some)
    then show ?thesis using Some c(1) unfolding D_def by (auto simp: check_multiple_with_options_def)
  qed
qed

text \<open>
  adding an allow, prompt or forbid prefix takes effect for exactly the commands that start with
  it: the new rule is among the matches of a command if and only if the tokens are a prefix of the
  command, and the matches of the old policy are kept.
\<close>

theorem add_prefix_rule_matches:
  assumes "add_prefix_rule p toks d = Ok p'"
  shows "exact_hits p' cmd = exact_hits p cmd @
           (if prefix toks cmd then [PrefixRuleMatch toks d None None] else [])"
proof -
  obtain t ts where toks: "toks = t # ts" using assms by (cases toks) (auto simp: add_prefix_rule_def)
  show ?thesis
  proof (cases "cmd \<noteq> [] \<and> hd cmd = t")
    case True
    then show ?thesis using assms toks
      by (auto simp: add_prefix_rule_def exact_hits_eq multimap_values_insert prefix_rules.rule_hits_def
          rule_matches_single)
  next
    case False
    then have "\<not> prefix toks cmd" using toks by (cases cmd) auto
    then show ?thesis using False assms toks
      by (auto simp: add_prefix_rule_def exact_hits_eq multimap_values_insert)
  qed
qed

theorem add_prefix_rule_matches_witness:
  "exact_hits (policy_empty\<lparr>rules_by_program := [(lit ''git'',
       [\<lparr>rule_pattern = \<lparr>pattern_first = lit ''git'', pattern_rest = [Single (lit ''push'')]\<rparr>,
         rule_decision = Prompt, rule_justification = None\<rparr>])]\<rparr>) [lit ''git'', lit ''push'', lit ''-f''] =
     [PrefixRuleMatch [lit ''git'', lit ''push''] Prompt None None]"
proof -
  have "add_prefix_rule policy_empty [lit ''git'', lit ''push''] Prompt = Ok (policy_empty\<lparr>rules_by_program := [(lit ''git'',
       [\<lparr>rule_pattern = \<lparr>pattern_first = lit ''git'', pattern_rest = [Single (lit ''push'')]\<rparr>,
         rule_decision = Prompt, rule_justification = None\<rparr>])]\<rparr>)"
    by (simp add: add_prefix_rule_def policy_empty_def policy_new_def policy_from_parts_def)
  from add_prefix_rule_matches [OF this, of "[lit ''git'', lit ''push'', lit ''-f'']"] show ?thesis
    by (simp add: exact_hits_def match_exact_rules_def policy_empty_def policy_new_def policy_from_parts_def
        multimap_get_vec_def)
qed

text \<open>
  C34: an overlay never loosens a decision that a rule of the base policy has made: when some rule of
  the base matches a command, the merged policy has a decision for it that is at least as strict, and
  its matches are the matches of the base followed by those of the overlay.
\<close>

theorem merge_overlay_never_loosens:
  assumes "wf_policy overlay" and "exact_hits p cmd \<noteq> []"
  shows "\<exists>ev ev'. check_with_options env p cmd h options = Some ev \<and>
           check_with_options env (merge_overlay p overlay) cmd h' options' = Some ev' \<and>
           eval_decision ev \<le> eval_decision ev' \<and>
           eval_matched_rules ev' = eval_matched_rules ev @ exact_hits overlay cmd"
proof -
  have m: "exact_hits (merge_overlay p overlay) cmd = exact_hits p cmd @ exact_hits overlay cmd"
    by (rule exact_hits_merge [OF assms(1)])
  obtain ev ev' where *: "check_with_options env p cmd h options = Some ev"
      "check_with_options env (merge_overlay p overlay) cmd h' options' = Some ev'"
      "eval_decision ev \<le> eval_decision ev'"
    using exact_hits_superset_decision [of p cmd "merge_overlay p overlay" cmd] m assms(2) by fastforce
  then have "eval_matched_rules ev = exact_hits p cmd" "eval_matched_rules ev' = exact_hits p cmd @ exact_hits overlay cmd"
    using m assms(2) by (auto simp: check_with_options_def from_matches_Some matches_exact)
  with * show ?thesis by auto
qed

definition sample_policy :: "str list \<Rightarrow> decision \<Rightarrow> policy" where
  "sample_policy toks d = (case add_prefix_rule policy_empty toks d of Ok p \<Rightarrow> p | Err e \<Rightarrow> policy_empty)"

lemma sample_policy_hits:
  "toks \<noteq> [] \<Longrightarrow> exact_hits (sample_policy toks d) cmd =
     (if prefix toks cmd then [PrefixRuleMatch toks d None None] else [])"
  "wf_policy (sample_policy toks d)"
proof -
  show "exact_hits (sample_policy toks d) cmd =
     (if prefix toks cmd then [PrefixRuleMatch toks d None None] else [])" if ne: "toks \<noteq> []"
  proof -
    obtain t ts where toks: "toks = t # ts" using ne by (cases toks) auto
    show ?thesis
      by (cases cmd) (auto simp: sample_policy_def add_prefix_rule_def toks policy_empty_def policy_new_def
          policy_from_parts_def exact_hits_def match_exact_rules_def multimap_get_vec_def rule_matches_single)
  qed
  show "wf_policy (sample_policy toks d)"
    by (cases toks) (auto simp: sample_policy_def add_prefix_rule_def policy_empty_def policy_new_def
        policy_from_parts_def wf_policy_def)
qed

theorem merge_overlay_never_loosens_witness:
  "\<exists>ev'. check_with_options \<lparr>env_home = None, env_current_dir = Ok (lit ''/'')\<rparr>
      (merge_overlay (sample_policy [lit ''rm''] Forbidden) (sample_policy [lit ''rm''] Allow)) [lit ''rm'', lit ''x'']
      (\<lambda>_. Allow) default_options = Some ev' \<and> eval_decision ev' = Forbidden"
proof -
  have h: "exact_hits (sample_policy [lit ''rm''] Forbidden) [lit ''rm'', lit ''x''] \<noteq> []"
    by (simp add: sample_policy_hits)
  from merge_overlay_never_loosens [OF sample_policy_hits(2) h,
      where env = "\<lparr>env_home = None, env_current_dir = Ok (lit ''/'')\<rparr>" and h = "\<lambda>_. Allow" and h' = "\<lambda>_. Allow"
        and options = default_options and options' = default_options]
  obtain ev ev' where "check_with_options \<lparr>env_home = None, env_current_dir = Ok (lit ''/'')\<rparr>
      (sample_policy [lit ''rm''] Forbidden) [lit ''rm'', lit ''x''] (\<lambda>_. Allow) default_options = Some ev"
    and ev': "check_with_options \<lparr>env_home = None, env_current_dir = Ok (lit ''/'')\<rparr>
      (merge_overlay (sample_policy [lit ''rm''] Forbidden) (sample_policy [lit ''rm''] Allow)) [lit ''rm'', lit ''x'']
      (\<lambda>_. Allow) default_options = Some ev'" "eval_decision ev \<le> eval_decision ev'" by blast
  then have "eval_decision ev = Forbidden"
    by (auto simp: check_with_options_def matches_exact [OF h] sample_policy_hits from_matches_def)
  then show ?thesis using ev' decision_bounds(2) order_antisym by metis
qed



text \<open>
  the compiled network lists are the last word for each host: both lists are free of duplicates, a
  host is allowed exactly when its last rule that is not a prompt rule allows it, and denied exactly
  when that rule forbids it; so no host is in both lists.
\<close>

theorem compiled_network_domains_last_ruling:
  "(case compiled_network_domains p of (allowed, denied) \<Rightarrow>
      distinct allowed \<and> distinct denied \<and> set allowed \<inter> set denied = {} \<and>
      (\<forall>h. (h \<in> set allowed) = (last_ruling (network_rules p) h = Some Allow)) \<and>
      (\<forall>h. (h \<in> set denied) = (last_ruling (network_rules p) h = Some Forbidden)))"
proof -
  obtain a d where ad: "fold compile_step (network_rules p) ([], []) = (a, d)"
    by (cases "fold compile_step (network_rules p) ([], [])")
  from compiled_domains [OF ad] show ?thesis
    using ad by (auto simp: compiled_network_domains_def)
qed

text \<open>
  when the executables of a name are listed, only they are resolved to the rules of that name: a
  program path that is not in the list and has no rule of its own gets no rule match at all.
\<close>

theorem unlisted_executable_has_no_rule:
  assumes "from_absolute_path (env_home env) (env_current_dir env) prog = Ok path"
    and "executable_path_lookup_key path = Some name"
    and "host_executables_by_name p name = Some paths" and "path \<notin> set paths"
    and "exact_hits p (prog # args) = []"
  shows "matches_for_command_with_options env p (prog # args) None options = []"
proof -
  have "match_host_executable_rules env p (prog # args) = []"
    using assms(1-4) by (auto simp: match_host_executable_rules_def list_ex_iff split: option.splits)
  then show ?thesis
    using assms(5)
    by (auto simp: matches_for_command_with_options_def exact_hits_def Let_def split: option.splits list.splits)
qed

definition sample_env :: path_env where
  "sample_env = \<lparr>env_home = None, env_current_dir = Ok (lit ''/w'')\<rparr>"

lemmas host_eval = from_absolute_path_def absolutize_def absolutize_from_def normalize_path_def
  path_with_base_def maybe_expand_home_directory_def executable_path_lookup_key_def executable_lookup_key_def
  sample_env_def text_eval

theorem unlisted_executable_has_no_rule_witness:
  "matches_for_command_with_options sample_env
     (set_host_executable_paths (sample_policy [lit ''git''] Allow) (lit ''git'') [lit ''/usr/bin/git''])
     [lit ''/tmp/git'', lit ''x''] None \<lparr>resolve_host_executables = True\<rparr> = []"
proof (rule unlisted_executable_has_no_rule)
  show "from_absolute_path (env_home sample_env) (env_current_dir sample_env) (lit ''/tmp/git'') = Ok (lit ''/tmp/git'')"
    by (simp add: host_eval)
  show "executable_path_lookup_key (lit ''/tmp/git'') = Some (lit ''git'')" by (simp add: host_eval)
  show "host_executables_by_name (set_host_executable_paths (sample_policy [lit ''git''] Allow) (lit ''git'')
      [lit ''/usr/bin/git'']) (lit ''git'') = Some [lit ''/usr/bin/git'']"
    by (simp add: set_host_executable_paths_def)
  show "lit ''/tmp/git'' \<notin> set [lit ''/usr/bin/git'']" by (simp add: text_eval)
  have "exact_hits (set_host_executable_paths p name paths) cmd = exact_hits p cmd" for p name paths cmd
    by (simp add: exact_hits_eq set_host_executable_paths_def)
  then show "exact_hits (set_host_executable_paths (sample_policy [lit ''git''] Allow) (lit ''git'')
      [lit ''/usr/bin/git'']) [lit ''/tmp/git'', lit ''x''] = []"
    by (simp add: sample_policy_hits) (simp add: text_eval)
qed

text \<open>
  the fallback to the rules of the base name is not limited to absolute program paths: a relative
  path such as \<^verbatim>\<open>./git\<close> is completed with the current directory and is allowed by a rule for \<^verbatim>\<open>git\<close>.
\<close>

theorem relative_program_uses_basename_rules:
  "matches_for_command_with_options sample_env (sample_policy [lit ''git''] Allow) [lit ''./git'', lit ''status'']
     None \<lparr>resolve_host_executables = True\<rparr> =
   [PrefixRuleMatch [lit ''git''] Allow (Some (lit ''/w/git'')) None]"
proof -
  have a: "from_absolute_path (env_home sample_env) (env_current_dir sample_env) (lit ''./git'') = Ok (lit ''/w/git'')"
    by (simp add: host_eval)
  have b: "executable_path_lookup_key (lit ''/w/git'') = Some (lit ''git'')" by (simp add: host_eval)
  have c: "lit ''./git'' \<noteq> lit ''git''" by (simp add: text_eval)
  show ?thesis
    using a b c rule_matches_single [of "lit ''git''" "[]" Allow "[lit ''git'', lit ''status'']"]
    by (simp add: matches_for_command_with_options_def match_exact_rules_def match_host_executable_rules_def
        sample_policy_def add_prefix_rule_def policy_empty_def policy_new_def policy_from_parts_def
        multimap_get_vec_def)
qed

end
