(* ===== verification/Exec_Policy_Parser.thy ===== *)
theory Exec_Policy_Parser
  imports Exec_Policy
begin

text \<open>
  Model of \<^verbatim>\<open>execpolicy/src/parser.rs\<close>, the example validation of \<^verbatim>\<open>execpolicy/src/rule.rs\<close> and
  \<^verbatim>\<open>load_policies\<close> of \<^verbatim>\<open>execpolicy/src/execpolicycheck.rs\<close>. Policy files are Starlark programs; the
  interpreter is a parameter that yields, for a file, the calls of the three builtins in the order in
  which the program makes them and the error the program ends with, if any. The builtins return nothing
  to the program, so the calls do not depend on the builder. The \<open>shlex\<close> functions and the debug
  rendering of rules are parameters as well.
\<close>

section \<open>Values of the interpreter\<close>

datatype starlark_value =
    StrValue str
  | ListValue "starlark_value list"
  | OtherValue str

fun unpack_str :: "starlark_value \<Rightarrow> str option" where
  "unpack_str (StrValue s) = Some s"
| "unpack_str v = None"

fun value_type :: "starlark_value \<Rightarrow> str" where
  "value_type (StrValue s) = lit ''string''"
| "value_type (ListValue vs) = lit ''list''"
| "value_type (OtherValue t) = t"

record file_span =
  span_filename :: str
  span_begin :: text_position
  span_end :: text_position

record policy_lib =
  shlex_split :: "str \<Rightarrow> str list option"
  shlex_try_join :: "str list \<Rightarrow> str option"
  show_rule :: "prefix_rule \<Rightarrow> str"
  show_rule_match :: "rule_match \<Rightarrow> str"

section \<open>Patterns and examples\<close>

definition string_alternative :: "starlark_value \<Rightarrow> (str, policy_error) result" where
  "string_alternative v =
     (case unpack_str v of
        Some s \<Rightarrow> Ok s
      | None \<Rightarrow> Err (InvalidPattern (lit ''pattern alternative must be a string (got '' @ value_type v @ lit '')'')))"

definition parse_pattern_token :: "starlark_value \<Rightarrow> (pattern_token, policy_error) result" where
  "parse_pattern_token v =
     (case v of
        StrValue s \<Rightarrow> Ok (Single s)
      | ListValue vs \<Rightarrow>
          result_bind (collect_results (map string_alternative vs))
            (\<lambda>tokens. case tokens of
               [] \<Rightarrow> Err (InvalidPattern (lit ''pattern alternatives cannot be empty''))
             | [single] \<Rightarrow> Ok (Single single)
             | _ \<Rightarrow> Ok (Alts tokens))
      | OtherValue t \<Rightarrow>
          Err (InvalidPattern (lit ''pattern element must be a string or list of strings (got '' @ t @ lit '')'')))"

definition parse_pattern :: "starlark_value list \<Rightarrow> (pattern_token list, policy_error) result" where
  "parse_pattern items =
     result_bind (collect_results (map parse_pattern_token items))
       (\<lambda>tokens. if tokens = [] then Err (InvalidPattern (lit ''pattern cannot be empty'')) else Ok tokens)"

definition parse_string_example :: "policy_lib \<Rightarrow> str \<Rightarrow> (str list, policy_error) result" where
  "parse_string_example lib raw =
     (case shlex_split lib raw of
        None \<Rightarrow> Err (InvalidExample (lit ''example string has invalid shell syntax''))
      | Some tokens \<Rightarrow>
          if tokens = [] then Err (InvalidExample (lit ''example cannot be an empty string'')) else Ok tokens)"

definition string_token :: "starlark_value \<Rightarrow> (str, policy_error) result" where
  "string_token v =
     (case unpack_str v of
        Some s \<Rightarrow> Ok s
      | None \<Rightarrow> Err (InvalidExample (lit ''example tokens must be strings (got '' @ value_type v @ lit '')'')))"

definition parse_list_example :: "starlark_value list \<Rightarrow> (str list, policy_error) result" where
  "parse_list_example content =
     result_bind (collect_results (map string_token content))
       (\<lambda>tokens. if tokens = [] then Err (InvalidExample (lit ''example cannot be an empty list'')) else Ok tokens)"

definition parse_example :: "policy_lib \<Rightarrow> starlark_value \<Rightarrow> (str list, policy_error) result" where
  "parse_example lib v =
     (case v of
        StrValue raw \<Rightarrow> parse_string_example lib raw
      | ListValue vs \<Rightarrow> parse_list_example vs
      | OtherValue t \<Rightarrow>
          Err (InvalidExample (lit ''example must be a string or list of strings (got '' @ t @ lit '')'')))"

definition parse_examples :: "policy_lib \<Rightarrow> starlark_value list \<Rightarrow> (str list list, policy_error) result" where
  "parse_examples lib items = collect_results (map (parse_example lib) items)"

definition parse_optional_examples ::
  "policy_lib \<Rightarrow> starlark_value list option \<Rightarrow> (str list list, policy_error) result" where
  "parse_optional_examples lib items = (case items of None \<Rightarrow> Ok [] | Some vs \<Rightarrow> parse_examples lib vs)"

definition parse_literal_absolute_path :: "path_env \<Rightarrow> str \<Rightarrow> (str, policy_error) result" where
  "parse_literal_absolute_path env raw =
     (if \<not> path_is_absolute raw
      then Err (InvalidRule (lit ''host_executable paths must be absolute (got '' @ raw @ lit '')''))
      else map_err (\<lambda>e. InvalidRule (lit ''invalid absolute path `'' @ raw @ lit ''`: '' @ e))
             (from_absolute_path (env_home env) (env_current_dir env) raw))"

definition validate_host_executable_name :: "str \<Rightarrow> (unit, policy_error) result" where
  "validate_host_executable_name name =
     (if name = [] then Err (InvalidRule (lit ''host_executable name cannot be empty''))
      else if length (path_components name) \<noteq> 1 \<or> path_file_name name \<noteq> Some name
      then Err (InvalidRule (lit ''host_executable name must be a bare executable name (got '' @ name @ lit '')''))
      else Ok ())"

definition parse_network_rule_decision :: "str \<Rightarrow> (decision, policy_error) result" where
  "parse_network_rule_decision raw = (if raw = lit ''deny'' then Ok Forbidden else decision_parse raw)"

definition one_based :: "text_position \<Rightarrow> text_position" where
  "one_based pos = \<lparr>pos_line = pos_line pos + 1, pos_column = pos_column pos + 1\<rparr>"

definition error_location_from_file_span :: "file_span \<Rightarrow> error_location" where
  "error_location_from_file_span span =
     \<lparr>location_path = span_filename span,
      location_range = \<lparr>range_start = one_based (span_begin span), range_end = one_based (span_end span)\<rparr>\<rparr>"

definition attach_validation_location :: "policy_error \<Rightarrow> error_location option \<Rightarrow> policy_error" where
  "attach_validation_location e location =
     (case location of Some l \<Rightarrow> with_location e l | None \<Rightarrow> e)"

section \<open>The builder\<close>

record pending_example_validation =
  pv_rules :: "prefix_rule list"
  pv_matches :: "str list list"
  pv_not_matches :: "str list list"
  pv_location :: "error_location option"

record policy_builder =
  pb_rules_by_program :: "(str, prefix_rule) multimap"
  pb_network_rules :: "network_rule list"
  pb_host_executables_by_name :: "str \<Rightarrow> str list option"
  pb_pending_example_validations :: "pending_example_validation list"

definition builder_new :: policy_builder where
  "builder_new = \<lparr>pb_rules_by_program = [], pb_network_rules = [], pb_host_executables_by_name = Map.empty,
     pb_pending_example_validations = []\<rparr>"

definition builder_add_rule :: "prefix_rule \<Rightarrow> policy_builder \<Rightarrow> policy_builder" where
  "builder_add_rule r b =
     b\<lparr>pb_rules_by_program := multimap_insert (rule_program r) r (pb_rules_by_program b)\<rparr>"

definition builder_add_network_rule :: "network_rule \<Rightarrow> policy_builder \<Rightarrow> policy_builder" where
  "builder_add_network_rule r b = b\<lparr>pb_network_rules := pb_network_rules b @ [r]\<rparr>"

definition builder_add_host_executable :: "str \<Rightarrow> str list \<Rightarrow> policy_builder \<Rightarrow> policy_builder" where
  "builder_add_host_executable name paths b =
     b\<lparr>pb_host_executables_by_name := (pb_host_executables_by_name b)(name \<mapsto> paths)\<rparr>"

definition add_pending_example_validation ::
  "prefix_rule list \<Rightarrow> str list list \<Rightarrow> str list list \<Rightarrow> error_location option \<Rightarrow> policy_builder \<Rightarrow> policy_builder" where
  "add_pending_example_validation rules matches not_matches location b =
     b\<lparr>pb_pending_example_validations := pb_pending_example_validations b @
       [\<lparr>pv_rules = rules, pv_matches = matches, pv_not_matches = not_matches, pv_location = location\<rparr>]\<rparr>"

definition policy_build :: "policy_builder \<Rightarrow> policy" where
  "policy_build b =
     policy_from_parts (pb_rules_by_program b) (pb_network_rules b) (pb_host_executables_by_name b)"

section \<open>Validating the examples\<close>

definition resolving :: match_options where
  "resolving = \<lparr>resolve_host_executables = True\<rparr>"

definition render_example :: "policy_lib \<Rightarrow> str list \<Rightarrow> str" where
  "render_example lib example =
     (case shlex_try_join lib example of Some s \<Rightarrow> s | None \<Rightarrow> lit ''unable to render example'')"

definition validate_match_examples ::
  "policy_lib \<Rightarrow> path_env \<Rightarrow> policy \<Rightarrow> prefix_rule list \<Rightarrow> str list list \<Rightarrow> (unit, policy_error) result" where
  "validate_match_examples lib env p rules matches =
     (let unmatched_examples = map (render_example lib)
        (filter (\<lambda>example. matches_for_command_with_options env p example None resolving = []) matches)
      in if unmatched_examples = [] then Ok ()
         else Err (ExampleDidNotMatch (map (show_rule lib) rules) unmatched_examples None))"

fun validate_not_match_examples ::
  "policy_lib \<Rightarrow> path_env \<Rightarrow> policy \<Rightarrow> str list list \<Rightarrow> (unit, policy_error) result" where
  "validate_not_match_examples lib env p [] = Ok ()"
| "validate_not_match_examples lib env p (example # rest) =
     (case matches_for_command_with_options env p example None resolving of
        m # _ \<Rightarrow> Err (ExampleDidMatch (show_rule_match lib m) (render_example lib example) None)
      | [] \<Rightarrow> validate_not_match_examples lib env p rest)"

definition validation_policy :: "policy_builder \<Rightarrow> prefix_rule list \<Rightarrow> policy" where
  "validation_policy b rules =
     policy_from_parts (fold (\<lambda>r m. multimap_insert (rule_program r) r m) rules []) []
       (pb_host_executables_by_name b)"

definition validate_one ::
  "policy_lib \<Rightarrow> path_env \<Rightarrow> policy_builder \<Rightarrow> pending_example_validation \<Rightarrow> (unit, policy_error) result" where
  "validate_one lib env b v =
     (let p = validation_policy b (pv_rules v) in
      result_bind
        (map_err (\<lambda>e. attach_validation_location e (pv_location v))
          (validate_not_match_examples lib env p (pv_not_matches v)))
        (\<lambda>_. map_err (\<lambda>e. attach_validation_location e (pv_location v))
          (validate_match_examples lib env p (pv_rules v) (pv_matches v))))"

fun validate_all ::
  "policy_lib \<Rightarrow> path_env \<Rightarrow> policy_builder \<Rightarrow> pending_example_validation list \<Rightarrow> (unit, policy_error) result" where
  "validate_all lib env b [] = Ok ()"
| "validate_all lib env b (v # vs) = result_bind (validate_one lib env b v) (\<lambda>_. validate_all lib env b vs)"

definition validate_pending_examples_from ::
  "policy_lib \<Rightarrow> path_env \<Rightarrow> policy_builder \<Rightarrow> nat \<Rightarrow> (unit, policy_error) result" where
  "validate_pending_examples_from lib env b start =
     validate_all lib env b (drop start (pb_pending_example_validations b))"

section \<open>The builtins\<close>

definition check_justification :: "str option \<Rightarrow> (str option, policy_error) result" where
  "check_justification justification =
     (case justification of
        Some raw \<Rightarrow>
          if trim raw = [] then Err (InvalidRule (lit ''justification cannot be empty'')) else Ok (Some raw)
      | None \<Rightarrow> Ok None)"

record prefix_rule_call =
  call_pattern :: "starlark_value list"
  call_decision :: "str option"
  call_match :: "starlark_value list option"
  call_not_match :: "starlark_value list option"
  call_justification :: "str option"
  call_span :: "file_span option"

definition rules_of_pattern :: "pattern_token list \<Rightarrow> decision \<Rightarrow> str option \<Rightarrow> prefix_rule list" where
  "rules_of_pattern toks d justification =
     map (\<lambda>head. \<lparr>rule_pattern = \<lparr>pattern_first = head, pattern_rest = tl toks\<rparr>,
                  rule_decision = d, rule_justification = justification\<rparr>)
       (alternatives (hd toks))"

definition prefix_rule_builtin ::
  "policy_lib \<Rightarrow> prefix_rule_call \<Rightarrow> policy_builder \<Rightarrow> (policy_builder, policy_error) result" where
  "prefix_rule_builtin lib c b =
     result_bind (case call_decision c of Some raw \<Rightarrow> decision_parse raw | None \<Rightarrow> Ok Allow)
       (\<lambda>d. result_bind (check_justification (call_justification c))
         (\<lambda>justification. result_bind (parse_pattern (call_pattern c))
           (\<lambda>pattern_tokens. result_bind (parse_optional_examples lib (call_match c))
             (\<lambda>matches. result_bind (parse_optional_examples lib (call_not_match c))
               (\<lambda>not_matches.
                  if pattern_tokens = [] then Err (InvalidPattern (lit ''pattern cannot be empty''))
                  else
                    (let rules = rules_of_pattern pattern_tokens d justification in
                     Ok (fold builder_add_rule rules
                           (add_pending_example_validation rules matches not_matches
                              (map_option error_location_from_file_span (call_span c)) b))))))))"

definition network_rule_builtin ::
  "str \<Rightarrow> str \<Rightarrow> str \<Rightarrow> str option \<Rightarrow> policy_builder \<Rightarrow> (policy_builder, policy_error) result" where
  "network_rule_builtin host protocol d justification b =
     result_bind (protocol_parse protocol)
       (\<lambda>protocol. result_bind (parse_network_rule_decision d)
         (\<lambda>d. result_bind (check_justification justification)
           (\<lambda>justification. result_bind (normalize_network_rule_host host)
             (\<lambda>host. Ok (builder_add_network_rule
                \<lparr>net_host = host, net_protocol = protocol, net_decision = d,
                 net_justification = justification\<rparr> b)))))"

definition bad_basename :: "str \<Rightarrow> str \<Rightarrow> policy_error" where
  "bad_basename raw name =
     InvalidRule (lit ''host_executable path `'' @ raw @ lit ''` must have basename `'' @ name @ lit ''`'')"

fun parse_host_paths ::
  "path_env \<Rightarrow> str \<Rightarrow> starlark_value list \<Rightarrow> str list \<Rightarrow> (str list, policy_error) result" where
  "parse_host_paths env name [] parsed_paths = Ok parsed_paths"
| "parse_host_paths env name (v # vs) parsed_paths =
     (case unpack_str v of
        None \<Rightarrow> Err (InvalidRule (lit ''host_executable paths must be strings (got '' @ value_type v @ lit '')''))
      | Some raw \<Rightarrow>
          result_bind (parse_literal_absolute_path env raw)
            (\<lambda>path. case executable_path_lookup_key path of
               None \<Rightarrow> Err (bad_basename raw name)
             | Some base_name \<Rightarrow>
                 if base_name \<noteq> executable_lookup_key name then Err (bad_basename raw name)
                 else parse_host_paths env name vs
                        (if \<not> list_ex (\<lambda>existing. existing = path) parsed_paths
                         then parsed_paths @ [path] else parsed_paths)))"

definition host_executable_builtin ::
  "path_env \<Rightarrow> str \<Rightarrow> starlark_value list \<Rightarrow> policy_builder \<Rightarrow> (policy_builder, policy_error) result" where
  "host_executable_builtin env name paths b =
     result_bind (validate_host_executable_name name)
       (\<lambda>_. result_bind (parse_host_paths env name paths [])
         (\<lambda>parsed_paths. Ok (builder_add_host_executable (executable_lookup_key name) parsed_paths b)))"

datatype builtin_call =
    CallPrefixRule prefix_rule_call
  | CallNetworkRule str str str "str option"
  | CallHostExecutable str "starlark_value list"

fun run_call :: "policy_lib \<Rightarrow> path_env \<Rightarrow> builtin_call \<Rightarrow> policy_builder \<Rightarrow> (policy_builder, policy_error) result" where
  "run_call lib env (CallPrefixRule c) b = prefix_rule_builtin lib c b"
| "run_call lib env (CallNetworkRule host protocol d justification) b =
     network_rule_builtin host protocol d justification b"
| "run_call lib env (CallHostExecutable name paths) b = host_executable_builtin env name paths b"

fun run_calls ::
  "policy_lib \<Rightarrow> path_env \<Rightarrow> builtin_call list \<Rightarrow> policy_builder \<Rightarrow> policy_builder \<times> (unit, policy_error) result" where
  "run_calls lib env [] b = (b, Ok ())"
| "run_calls lib env (c # cs) b =
     (case run_call lib env c b of Err e \<Rightarrow> (b, Err e) | Ok b' \<Rightarrow> run_calls lib env cs b')"

section \<open>Files\<close>

text \<open>
  The interpreter on an identifier and the contents of a file: a syntax error, or the calls the program
  makes and its own error at the end.
\<close>

type_synonym starlark = "str \<Rightarrow> str \<Rightarrow> (builtin_call list \<times> str option, str) result"

definition policy_parse ::
  "policy_lib \<Rightarrow> path_env \<Rightarrow> starlark \<Rightarrow> str \<Rightarrow> str \<Rightarrow> policy_builder \<Rightarrow>
     policy_builder \<times> (unit, policy_error) result" where
  "policy_parse lib env starlark policy_identifier contents b =
     (let pending_validation_count = length (pb_pending_example_validations b) in
      case starlark policy_identifier contents of
        Err msg \<Rightarrow> (b, Err (Starlark (Inl msg)))
      | Ok (calls, final) \<Rightarrow>
          (case run_calls lib env calls b of
             (b', Err e) \<Rightarrow> (b', Err (Starlark (Inr e)))
           | (b', Ok _) \<Rightarrow>
               (case final of
                  Some msg \<Rightarrow> (b', Err (Starlark (Inl msg)))
                | None \<Rightarrow> (b', validate_pending_examples_from lib env b' pending_validation_count))))"

datatype load_error = ReadPolicy str io_error | ParsePolicy str policy_error

fun load_policies_loop ::
  "policy_lib \<Rightarrow> path_env \<Rightarrow> starlark \<Rightarrow> (str \<Rightarrow> (str, io_error) result) \<Rightarrow> str list \<Rightarrow> policy_builder \<Rightarrow>
     (policy_builder, load_error) result" where
  "load_policies_loop lib env starlark read [] b = Ok b"
| "load_policies_loop lib env starlark read (path # paths) b =
     (case read path of
        Err e \<Rightarrow> Err (ReadPolicy (lit ''failed to read policy at '' @ path) e)
      | Ok contents \<Rightarrow>
          (case policy_parse lib env starlark path contents b of
             (b', Err e) \<Rightarrow> Err (ParsePolicy (lit ''failed to parse policy at '' @ path) e)
           | (b', Ok _) \<Rightarrow> load_policies_loop lib env starlark read paths b'))"

definition load_policies ::
  "policy_lib \<Rightarrow> path_env \<Rightarrow> starlark \<Rightarrow> (str \<Rightarrow> (str, io_error) result) \<Rightarrow> str list \<Rightarrow> (policy, load_error) result" where
  "load_policies lib env starlark read policy_paths =
     result_bind (load_policies_loop lib env starlark read policy_paths builder_new) (\<lambda>b. Ok (policy_build b))"

text \<open>The \<^verbatim>\<open>execpolicy check\<close> command up to the rendering of its output as JSON.\<close>

record exec_policy_check_output =
  out_matched_rules :: "rule_match list"
  out_decision :: "decision option"

definition check_output :: "rule_match list \<Rightarrow> exec_policy_check_output" where
  "check_output matched_rules =
     \<lparr>out_matched_rules = matched_rules, out_decision = max_decision (map match_decision matched_rules)\<rparr>"

record exec_policy_check_command =
  cmd_rules :: "str list"
  cmd_resolve_host_executables :: bool
  cmd_command :: "str list"

definition exec_policy_check_run ::
  "policy_lib \<Rightarrow> path_env \<Rightarrow> starlark \<Rightarrow> (str \<Rightarrow> (str, io_error) result) \<Rightarrow> exec_policy_check_command \<Rightarrow>
     (exec_policy_check_output, load_error) result" where
  "exec_policy_check_run lib env starlark read c =
     result_bind (load_policies lib env starlark read (cmd_rules c))
       (\<lambda>p. Ok (check_output (matches_for_command_with_options env p (cmd_command c) None
                  \<lparr>resolve_host_executables = cmd_resolve_host_executables c\<rparr>)))"

section \<open>What the builder keeps\<close>

abbreviation add_to_store :: "prefix_rule \<Rightarrow> (str, prefix_rule) multimap \<Rightarrow> (str, prefix_rule) multimap" where
  "add_to_store r m \<equiv> multimap_insert (rule_program r) r m"

lemma fold_builder_add_rule:
  "fold builder_add_rule rs b = b\<lparr>pb_rules_by_program := fold add_to_store rs (pb_rules_by_program b)\<rparr>"
  by (induction rs arbitrary: b) (simp_all add: builder_add_rule_def)

lemma multimap_values_empty [simp]: "multimap_values [] k = []"
  by (simp add: multimap_values_def multimap_get_vec_def)

lemma values_fold_store:
  "multimap_values (fold add_to_store rs m) k = multimap_values m k @ filter (\<lambda>r. rule_program r = k) rs"
  by (induction rs arbitrary: m) (auto simp: multimap_values_insert)

lemma distinct_fold_store: "distinct (map fst m) \<Longrightarrow> distinct (map fst (fold add_to_store rs m))"
  by (induction rs arbitrary: m) (simp_all add: multimap_insert_distinct)

text \<open>
  The store of a policy: one entry per program, every rule under its own program, normal hosts in the
  network rules, and under an executable name only different paths with this very file name.
\<close>

definition store_wf ::
  "(str, prefix_rule) multimap \<Rightarrow> network_rule list \<Rightarrow> (str \<Rightarrow> str list option) \<Rightarrow> bool" where
  "store_wf rules nets hosts \<longleftrightarrow>
     distinct (map fst rules) \<and>
     (\<forall>k. \<forall>r\<in>set (multimap_values rules k). rule_program r = k) \<and>
     (\<forall>n\<in>set nets. normal_host (net_host n)) \<and>
     (\<forall>name paths. hosts name = Some paths \<longrightarrow>
        distinct paths \<and> (\<forall>path\<in>set paths. executable_path_lookup_key path = Some name))"

definition policy_wf :: "policy \<Rightarrow> bool" where
  "policy_wf p \<longleftrightarrow> store_wf (rules_by_program p) (network_rules p) (host_executables_by_name p)"

definition builder_wf :: "policy_builder \<Rightarrow> bool" where
  "builder_wf b \<longleftrightarrow>
     store_wf (pb_rules_by_program b) (pb_network_rules b) (pb_host_executables_by_name b) \<and>
     (\<forall>v\<in>set (pb_pending_example_validations b). \<forall>r\<in>set (pv_rules v).
        r \<in> set (multimap_values (pb_rules_by_program b) (rule_program r)))"

lemma store_wf_add:
  "store_wf rules nets hosts \<Longrightarrow> store_wf (fold add_to_store rs rules) nets hosts"
  unfolding store_wf_def by (auto simp: values_fold_store distinct_fold_store)

lemma parse_host_paths_wf:
  "parse_host_paths env name vs acc = Ok paths \<Longrightarrow> distinct acc \<Longrightarrow>
     \<forall>path\<in>set acc. executable_path_lookup_key path = Some (executable_lookup_key name) \<Longrightarrow>
     distinct paths \<and> (\<forall>path\<in>set paths. executable_path_lookup_key path = Some (executable_lookup_key name))"
proof (induction vs arbitrary: acc)
  case (Cons v vs)
  obtain raw where raw: "unpack_str v = Some raw" using Cons.prems(1) by (cases "unpack_str v") auto
  obtain path where path: "parse_literal_absolute_path env raw = Ok path"
    using Cons.prems(1) raw by (cases "parse_literal_absolute_path env raw") auto
  let ?acc = "if \<not> list_ex (\<lambda>existing. existing = path) acc then acc @ [path] else acc"
  have key: "executable_path_lookup_key path = Some (executable_lookup_key name)"
    and tail: "parse_host_paths env name vs ?acc = Ok paths"
    using Cons.prems(1) raw path by (cases "executable_path_lookup_key path"; simp split: if_splits)+
  have "distinct ?acc" "\<forall>p\<in>set ?acc. executable_path_lookup_key p = Some (executable_lookup_key name)"
    using Cons.prems(2,3) key by (auto simp: list_ex_iff)
  then show ?case using Cons.IH [OF tail] by blast
qed simp

lemma prefix_rule_Ok:
  assumes "prefix_rule_builtin lib c b = Ok b'"
  obtains d justification toks v where
    "(case call_decision c of Some raw \<Rightarrow> decision_parse raw | None \<Rightarrow> Ok Allow) = Ok d"
    "parse_pattern (call_pattern c) = Ok toks" "toks \<noteq> []"
    "pv_rules v = rules_of_pattern toks d justification"
    "b' = b\<lparr>pb_rules_by_program := fold add_to_store (pv_rules v) (pb_rules_by_program b),
           pb_pending_example_validations := pb_pending_example_validations b @ [v]\<rparr>"
proof -
  obtain d justification toks matches not_matches where
    *: "(case call_decision c of Some raw \<Rightarrow> decision_parse raw | None \<Rightarrow> Ok Allow) = Ok d"
      "parse_pattern (call_pattern c) = Ok toks" "toks \<noteq> []"
    and b': "b' = fold builder_add_rule (rules_of_pattern toks d justification)
        (add_pending_example_validation (rules_of_pattern toks d justification) matches not_matches
           (map_option error_location_from_file_span (call_span c)) b)"
    using assms unfolding prefix_rule_builtin_def Let_def result_bind_Ok_iff
    by (elim exE conjE) (auto split: if_splits)
  show ?thesis
    by (rule that [OF *, of "\<lparr>pv_rules = rules_of_pattern toks d justification, pv_matches = matches,
          pv_not_matches = not_matches, pv_location = map_option error_location_from_file_span (call_span c)\<rparr>"])
      (simp_all add: b' fold_builder_add_rule add_pending_example_validation_def)
qed

lemma prefix_rule_wf:
  assumes "prefix_rule_builtin lib c b = Ok b'" "builder_wf b"
  shows "builder_wf b'"
  using assms(1)
proof (rule prefix_rule_Ok)
  fix v :: pending_example_validation
  assume "b' = b\<lparr>pb_rules_by_program := fold add_to_store (pv_rules v) (pb_rules_by_program b),
       pb_pending_example_validations := pb_pending_example_validations b @ [v]\<rparr>"
  then show ?thesis using assms(2) store_wf_add unfolding builder_wf_def by (auto simp: values_fold_store)
qed

lemma run_call_wf:
  assumes "run_call lib env c b = Ok b'" "builder_wf b"
  shows "builder_wf b'"
proof (cases c)
  case (CallPrefixRule x)
  then show ?thesis using assms prefix_rule_wf by simp
next
  case (CallNetworkRule host protocol d justification)
  then obtain h protocol' d' j where "normalize_network_rule_host host = Ok h"
      "b' = builder_add_network_rule \<lparr>net_host = h, net_protocol = protocol', net_decision = d',
         net_justification = j\<rparr> b"
    using assms(1) by (auto simp: network_rule_builtin_def result_simps)
  then show ?thesis using assms(2) normalize_host_normal
    by (auto simp: builder_wf_def store_wf_def builder_add_network_rule_def)
next
  case (CallHostExecutable name vs)
  then obtain paths where "parse_host_paths env name vs [] = Ok paths"
      "b' = builder_add_host_executable (executable_lookup_key name) paths b"
    using assms(1) by (auto simp: host_executable_builtin_def result_simps)
  then show ?thesis using assms(2) parse_host_paths_wf [of env name vs "[]" paths]
    by (auto simp: builder_wf_def store_wf_def builder_add_host_executable_def)
qed

lemma run_calls_wf: "run_calls lib env cs b = (b', r) \<Longrightarrow> builder_wf b \<Longrightarrow> builder_wf b'"
proof (induction cs arbitrary: b)
  case (Cons c cs)
  then show ?case
    by (cases "run_call lib env c b") (auto intro: run_call_wf)
qed simp

lemma policy_parse_wf: "policy_parse lib env st i t b = (b', r) \<Longrightarrow> builder_wf b \<Longrightarrow> builder_wf b'"
  by (auto simp: policy_parse_def Let_def dest: run_calls_wf
      split: result.splits prod.splits option.splits)

lemma load_loop_wf:
  "load_policies_loop lib env st read ps b = Ok b' \<Longrightarrow> builder_wf b \<Longrightarrow> builder_wf b'"
proof (induction ps arbitrary: b)
  case (Cons path ps)
  then obtain contents b1 where "policy_parse lib env st path contents b = (b1, Ok ())"
      "load_policies_loop lib env st read ps b1 = Ok b'"
    by (auto split: result.splits prod.splits)
  then show ?case using Cons policy_parse_wf by blast
qed simp

lemma builder_new_wf: "builder_wf builder_new"
  by (simp add: builder_wf_def builder_new_def store_wf_def)

section \<open>Rules stay in force\<close>

definition keeps_rules :: "policy_builder \<Rightarrow> policy_builder \<Rightarrow> bool" where
  "keeps_rules b b' \<longleftrightarrow>
     (\<forall>k. set (multimap_values (pb_rules_by_program b) k) \<subseteq> set (multimap_values (pb_rules_by_program b') k))"

lemma run_call_keeps: "run_call lib env c b = Ok b' \<Longrightarrow> keeps_rules b b'"
proof (cases c)
  case (CallPrefixRule x)
  assume "run_call lib env c b = Ok b'"
  then have "prefix_rule_builtin lib x b = Ok b'" using CallPrefixRule by simp
  then show ?thesis by (rule prefix_rule_Ok) (simp add: keeps_rules_def values_fold_store)
next
  case (CallNetworkRule host protocol d justification)
  assume "run_call lib env c b = Ok b'"
  then show ?thesis using CallNetworkRule
    by (auto simp: network_rule_builtin_def result_simps keeps_rules_def builder_add_network_rule_def)
next
  case (CallHostExecutable name vs)
  assume "run_call lib env c b = Ok b'"
  then show ?thesis using CallHostExecutable
    by (auto simp: host_executable_builtin_def result_simps keeps_rules_def builder_add_host_executable_def)
qed

lemma run_calls_keeps: "run_calls lib env cs b = (b', r) \<Longrightarrow> keeps_rules b b'"
proof (induction cs arbitrary: b)
  case (Cons c cs)
  show ?case
  proof (cases "run_call lib env c b")
    case (Ok b1)
    then have "keeps_rules b1 b'" using Cons by simp
    then show ?thesis using run_call_keeps [OF Ok] by (auto simp: keeps_rules_def)
  next
    case (Err e)
    then show ?thesis using Cons.prems by (simp add: keeps_rules_def)
  qed
qed (simp add: keeps_rules_def)

lemma run_calls_append:
  "run_calls lib env (cs @ ds) b =
     (case run_calls lib env cs b of (b', Ok _) \<Rightarrow> run_calls lib env ds b' | (b', Err e) \<Rightarrow> (b', Err e))"
  by (induction cs arbitrary: b) (simp_all split: result.splits)

lemma stored_rule_decides:
  assumes "r \<in> set (multimap_values (rules_by_program p) (rule_program r))" "rule_matches r cmd = Some m"
  shows "\<exists>ev. check_with_options env p cmd h options = Some ev \<and> rule_decision r \<le> eval_decision ev"
proof -
  have hd: "cmd \<noteq> []" "hd cmd = rule_program r" using prefix_rules.matches_program [OF assms(2)] by auto
  have m: "m \<in> set (exact_hits p cmd)"
    using assms hd by (auto simp: exact_hits_eq prefix_rules.rule_hits_def set_filter_map)
  then have "exact_hits p cmd \<noteq> []" by auto
  moreover obtain ev where ev: "from_matches (exact_hits p cmd) = Some ev"
    using calculation from_matches_None by blast
  moreover have "rule_decision r = match_decision m" using assms(2) by (auto simp: rule_matches_def)
  ultimately show ?thesis
    using m unfolding from_matches_Some by (auto simp: check_with_options_def matches_exact ev)
qed

lemma pattern_rule_exists:
  assumes "list_all2 token_matches toks cmd" "toks \<noteq> []"
  shows "\<exists>r\<in>set (rules_of_pattern toks d j). rule_decision r = d \<and> (\<exists>m. rule_matches r (cmd @ extra) = Some m)"
proof -
  obtain t ts c cs where tc: "toks = t # ts" "cmd = c # cs" "token_matches t c" "list_all2 token_matches ts cs"
    using assms by (cases toks; cases cmd) auto
  have "c \<in> set (alternatives t)" using tc(3) by (cases t) (auto simp: list_ex_iff)
  moreover have "matches_prefix \<lparr>pattern_first = c, pattern_rest = ts\<rparr> (cmd @ extra) = Some cmd"
    using tc unfolding matches_prefix_iff by auto
  ultimately show ?thesis using tc(1)
    by (intro bexI [of _ "\<lparr>rule_pattern = \<lparr>pattern_first = c, pattern_rest = ts\<rparr>, rule_decision = d,
          rule_justification = j\<rparr>"]) (auto simp: rules_of_pattern_def rule_matches_def)
qed

section \<open>Validated examples\<close>

lemma validate_not_match_Ok:
  "validate_not_match_examples lib env p exs = Ok () \<longleftrightarrow>
     (\<forall>ex\<in>set exs. matches_for_command_with_options env p ex None resolving = [])"
  by (induction exs) (auto split: list.splits)

lemma validate_match_Ok:
  "validate_match_examples lib env p rules exs = Ok () \<longleftrightarrow>
     (\<forall>ex\<in>set exs. matches_for_command_with_options env p ex None resolving \<noteq> [])"
  by (auto simp: validate_match_examples_def Let_def filter_empty_conv)

definition examples_hold :: "path_env \<Rightarrow> policy \<Rightarrow> pending_example_validation \<Rightarrow> bool" where
  "examples_hold env p v \<longleftrightarrow>
     (\<forall>ex\<in>set (pv_matches v). matches_for_command_with_options env p ex None resolving \<noteq> []) \<and>
     (\<forall>ex\<in>set (pv_not_matches v). matches_for_command_with_options env p ex None resolving = [])"

lemma validate_all_Ok:
  "validate_all lib env b vs = Ok () \<longleftrightarrow>
     (\<forall>v\<in>set vs. examples_hold env (validation_policy b (pv_rules v)) v)"
proof (induction vs)
  case (Cons v vs)
  have "validate_one lib env b v = Ok () \<longleftrightarrow> examples_hold env (validation_policy b (pv_rules v)) v"
    by (auto simp: validate_one_def Let_def result_simps examples_hold_def validate_not_match_Ok validate_match_Ok)
  then show ?case using Cons by (auto simp: result_simps)
qed simp

lemma validation_hits_built:
  assumes "builder_wf b" "v \<in> set (pb_pending_example_validations b)"
  shows "set (exact_hits (validation_policy b (pv_rules v)) cmd) \<subseteq> set (exact_hits (policy_build b) cmd)"
proof -
  have "set (multimap_values (fold add_to_store (pv_rules v) []) k) \<subseteq>
      set (multimap_values (pb_rules_by_program b) k)" for k
    using assms by (auto simp: values_fold_store builder_wf_def)
  then have "set (prefix_rules.rule_hits (multimap_values (fold add_to_store (pv_rules v) []) (hd cmd)) cmd) \<subseteq>
      set (prefix_rules.rule_hits (multimap_values (pb_rules_by_program b) (hd cmd)) cmd)"
    unfolding prefix_rules.rule_hits_def by (intro subsetI) (simp add: set_filter_map, blast)
  then show ?thesis
    by (simp add: exact_hits_eq validation_policy_def policy_build_def policy_from_parts_def)
qed

section \<open>Properties\<close>

definition sample_lib :: policy_lib where
  "sample_lib = \<lparr>shlex_split = (\<lambda>s. Some [s]), shlex_try_join = (\<lambda>ts. Some (concat ts)),
     show_rule = (\<lambda>r. []), show_rule_match = (\<lambda>m. [])\<rparr>"

definition sample_call :: prefix_rule_call where
  "sample_call = \<lparr>call_pattern = [ListValue [StrValue (lit ''git''), StrValue (lit ''hg'')], StrValue (lit ''push'')],
     call_decision = Some (lit ''forbidden''), call_match = Some [ListValue [StrValue (lit ''hg''), StrValue (lit ''push'')]],
     call_not_match = Some [StrValue (lit ''ls'')], call_justification = None, call_span = None\<rparr>"

definition sample_rules :: "prefix_rule list" where
  "sample_rules = rules_of_pattern [Alts [lit ''git'', lit ''hg''], Single (lit ''push'')] Forbidden None"

definition sample_validation :: pending_example_validation where
  "sample_validation = \<lparr>pv_rules = sample_rules, pv_matches = [[lit ''hg'', lit ''push'']],
     pv_not_matches = [[lit ''ls'']], pv_location = None\<rparr>"

definition sample_builder :: policy_builder where
  "sample_builder = \<lparr>pb_rules_by_program = fold add_to_store sample_rules [], pb_network_rules = [],
     pb_host_executables_by_name = Map.empty, pb_pending_example_validations = [sample_validation]\<rparr>"

definition sample_starlark :: starlark where
  "sample_starlark i t = Ok ([CallPrefixRule sample_call], None)"

lemma sample_call_run: "run_call sample_lib sample_env (CallPrefixRule sample_call) builder_new = Ok sample_builder"
proof -
  have "parse_pattern (call_pattern sample_call) = Ok [Alts [lit ''git'', lit ''hg''], Single (lit ''push'')]"
    by (simp add: sample_call_def parse_pattern_def parse_pattern_token_def string_alternative_def)
  moreover have "parse_optional_examples sample_lib (call_match sample_call) = Ok [[lit ''hg'', lit ''push'']]"
      "parse_optional_examples sample_lib (call_not_match sample_call) = Ok [[lit ''ls'']]"
    by (simp_all add: sample_call_def sample_lib_def parse_optional_examples_def parse_examples_def parse_example_def
        parse_list_example_def parse_string_example_def string_token_def)
  moreover have "decision_parse (lit ''forbidden'') = Ok Forbidden"
    by (simp add: decision_parse_def text_eval)
  ultimately show ?thesis
    by (simp add: prefix_rule_builtin_def fold_builder_add_rule add_pending_example_validation_def builder_new_def
        sample_builder_def sample_validation_def sample_rules_def check_justification_def Let_def)
      (simp add: sample_call_def)
qed

lemma sample_matches:
  "matches_for_command_with_options sample_env (validation_policy sample_builder sample_rules)
     [lit ''hg'', lit ''push''] None resolving \<noteq> []"
  "matches_for_command_with_options sample_env (validation_policy sample_builder sample_rules)
     [lit ''ls''] None resolving = []"
proof -
  let ?p = "validation_policy sample_builder sample_rules"
  have rules: "sample_rules =
      [\<lparr>rule_pattern = \<lparr>pattern_first = lit ''git'', pattern_rest = [Single (lit ''push'')]\<rparr>,
        rule_decision = Forbidden, rule_justification = None\<rparr>,
       \<lparr>rule_pattern = \<lparr>pattern_first = lit ''hg'', pattern_rest = [Single (lit ''push'')]\<rparr>,
        rule_decision = Forbidden, rule_justification = None\<rparr>]"
    by (simp add: sample_rules_def rules_of_pattern_def)
  have vals: "multimap_values (rules_by_program ?p) k = filter (\<lambda>r. rule_program r = k) sample_rules" for k
    by (simp add: validation_policy_def policy_from_parts_def values_fold_store)
  have "exact_hits ?p [lit ''hg'', lit ''push''] \<noteq> []"
    unfolding exact_hits_eq vals unfolding rules
    by (simp add: rule_program_def prefix_rules.rule_hits_def rule_matches_def matches_prefix_def text_eval)
  then show "matches_for_command_with_options sample_env ?p [lit ''hg'', lit ''push''] None resolving \<noteq> []"
    by (simp add: matches_exact)
  have none: "multimap_values (rules_by_program ?p) (lit ''ls'') = []"
    unfolding vals unfolding rules by (simp add: rule_program_def text_eval)
  have "executable_path_lookup_key path = Some (lit ''ls'') \<Longrightarrow> match_host_executable_rules sample_env ?p [lit ''ls''] = []"
    if "from_absolute_path (env_home sample_env) (env_current_dir sample_env) (lit ''ls'') = Ok path" for path
    using that none
    by (simp add: match_host_executable_rules_def multimap_values_def prefix_rules.rule_hits_def split: option.splits)
  moreover have "from_absolute_path (env_home sample_env) (env_current_dir sample_env) (lit ''ls'') = Ok (lit ''/w/ls'')"
      "executable_path_lookup_key (lit ''/w/ls'') = Some (lit ''ls'')"
    by (simp_all add: host_eval)
  ultimately have "match_host_executable_rules sample_env ?p [lit ''ls''] = []" by blast
  moreover have "exact_hits ?p [lit ''ls''] = []"
    by (simp add: exact_hits_eq none prefix_rules.rule_hits_def)
  ultimately show "matches_for_command_with_options sample_env ?p [lit ''ls''] None resolving = []"
    by (auto simp: matches_for_command_with_options_def exact_hits_def Let_def split: option.splits list.splits)
qed

lemma sample_parse: "policy_parse sample_lib sample_env sample_starlark i t builder_new = (sample_builder, Ok ())"
proof -
  have "examples_hold sample_env (validation_policy sample_builder sample_rules) sample_validation"
    using sample_matches by (simp add: examples_hold_def sample_validation_def)
  then have "validate_all sample_lib sample_env sample_builder [sample_validation] = Ok ()"
    by (simp add: validate_all_Ok sample_validation_def del: validate_all.simps)
  then show ?thesis using sample_call_run
    by (simp add: policy_parse_def sample_starlark_def validate_pending_examples_from_def builder_new_def
        sample_builder_def del: validate_all.simps)
qed

text \<open>
  C36: when a policy file is accepted, every example that its rules state holds: each positive example is
  matched and no negative example is matched by the rules it was written for, and a positive example
  that one of these rules matches by its first word keeps this match in the policy that is built.
\<close>

theorem accepted_examples_hold:
  assumes "policy_parse lib env starlark policy_identifier contents b = (b', Ok ())" and "builder_wf b"
    and "v \<in> set (drop (length (pb_pending_example_validations b)) (pb_pending_example_validations b'))"
  shows "examples_hold env (validation_policy b' (pv_rules v)) v \<and>
    set (exact_hits (validation_policy b' (pv_rules v)) cmd) \<subseteq> set (exact_hits (policy_build b') cmd)"
proof -
  have "validate_pending_examples_from lib env b' (length (pb_pending_example_validations b)) = Ok ()"
    using assms(1) by (auto simp: policy_parse_def Let_def split: result.splits prod.splits option.splits)
  then have "examples_hold env (validation_policy b' (pv_rules v)) v"
    using assms(3) by (simp add: validate_pending_examples_from_def validate_all_Ok)
  moreover have "set (exact_hits (validation_policy b' (pv_rules v)) cmd) \<subseteq> set (exact_hits (policy_build b') cmd)"
    using validation_hits_built policy_parse_wf [OF assms(1,2)] in_set_dropD [OF assms(3)] by blast
  ultimately show ?thesis by blast
qed

theorem accepted_examples_hold_witness:
  "examples_hold sample_env (validation_policy sample_builder (pv_rules sample_validation)) sample_validation"
  by (rule accepted_examples_hold [OF sample_parse [of "lit ''p''" "[]"] builder_new_wf, THEN conjunct1])
    (simp add: builder_new_def sample_builder_def)

text \<open>
  C20: a rule of a policy file is enforced by the policy built from the whole file: whatever calls come
  before and after it, every command that starts with its pattern is decided at least as strictly as
  the rule says.
\<close>

theorem prefix_rule_call_enforced:
  assumes "run_calls lib env (before @ CallPrefixRule c # after) b = (b', Ok ())"
    and "parse_pattern (call_pattern c) = Ok toks" and "list_all2 token_matches toks cmd"
    and "(case call_decision c of Some raw \<Rightarrow> decision_parse raw | None \<Rightarrow> Ok Allow) = Ok d"
  shows "\<exists>ev. check_with_options env (policy_build b') (cmd @ extra) h options = Some ev \<and> d \<le> eval_decision ev"
proof -
  obtain b1 b2 where b1: "prefix_rule_builtin lib c b1 = Ok b2" and b2: "run_calls lib env after b2 = (b', Ok ())"
    using assms(1) by (auto simp: run_calls_append split: result.splits prod.splits)
  obtain j v where v: "pv_rules v = rules_of_pattern toks d j" "toks \<noteq> []"
      "b2 = b1\<lparr>pb_rules_by_program := fold add_to_store (pv_rules v) (pb_rules_by_program b1),
         pb_pending_example_validations := pb_pending_example_validations b1 @ [v]\<rparr>"
    using b1 assms(2,4) by (elim prefix_rule_Ok) auto
  obtain r m where r: "r \<in> set (rules_of_pattern toks d j)" "rule_decision r = d" "rule_matches r (cmd @ extra) = Some m"
    using pattern_rule_exists [OF assms(3) v(2)] by blast
  have "r \<in> set (multimap_values (pb_rules_by_program b2) (rule_program r))"
    using r(1) v(1,3) by (simp add: values_fold_store)
  then have "r \<in> set (multimap_values (rules_by_program (policy_build b')) (rule_program r))"
    using run_calls_keeps [OF b2] by (auto simp: keeps_rules_def policy_build_def policy_from_parts_def)
  then show ?thesis using stored_rule_decides [OF _ r(3)] r(2) by blast
qed

theorem prefix_rule_call_enforced_witness:
  "\<exists>ev. check_with_options sample_env (policy_build sample_builder)
     ([lit ''hg'', lit ''push''] @ [lit ''-f'']) (\<lambda>c. Allow) resolving = Some ev \<and> Forbidden \<le> eval_decision ev"
proof (rule prefix_rule_call_enforced)
  show "run_calls sample_lib sample_env ([] @ CallPrefixRule sample_call # []) builder_new = (sample_builder, Ok ())"
    using sample_call_run by simp
  show "parse_pattern (call_pattern sample_call) = Ok [Alts [lit ''git'', lit ''hg''], Single (lit ''push'')]"
    by (simp add: sample_call_def parse_pattern_def parse_pattern_token_def string_alternative_def)
  show "list_all2 token_matches [Alts [lit ''git'', lit ''hg''], Single (lit ''push'')] [lit ''hg'', lit ''push'']"
    by simp
  show "(case call_decision sample_call of Some raw \<Rightarrow> decision_parse raw | None \<Rightarrow> Ok Allow) = Ok Forbidden"
    by (simp add: sample_call_def decision_parse_def text_eval)
qed

text \<open>
  a loaded policy is well formed: one entry per program with only rules for this program, network
  rules with normal hosts, and under an executable name only different paths with this file name.
\<close>

theorem load_policies_wf:
  assumes "load_policies lib env starlark read policy_paths = Ok p"
  shows "policy_wf p"
proof -
  obtain b where "load_policies_loop lib env starlark read policy_paths builder_new = Ok b" "p = policy_build b"
    using assms by (auto simp: load_policies_def result_simps)
  then show ?thesis using load_loop_wf builder_new_wf
    by (auto simp: policy_wf_def builder_wf_def policy_build_def policy_from_parts_def)
qed

theorem load_policies_wf_witness: "policy_wf (policy_build sample_builder)"
  by (rule load_policies_wf [of sample_lib sample_env sample_starlark "\<lambda>p. Ok []" "[lit ''a.rules'']"])
    (simp add: load_policies_def sample_parse)

end
