(* ===== verification/Exec_Policy_Amend.thy ===== *)
theory Exec_Policy_Amend
  imports Exec_Policy_Parser
begin

text \<open>
  Model of \<^verbatim>\<open>execpolicy/src/amend.rs\<close>: adding a rule to a policy file on disk. The operations on the file
  (an advisory lock and an append-mode handle) and the JSON rendering of a string are parameters; what
  the code relies on is stated as hypotheses on them.
\<close>

datatype amend_error =
    EmptyPrefix
  | InvalidNetworkRule str
  | MissingParent str
  | CreatePolicyDir str io_error
  | SerializePrefix str
  | SerializeNetworkRule str
  | OpenPolicyFile str io_error
  | WritePolicyFile str io_error
  | LockPolicyFile str io_error
  | SeekPolicyFile str io_error
  | ReadPolicyFile str io_error
  | PolicyMetadata str io_error

record 'f policy_file_ops =
  op_create_dir :: "str \<Rightarrow> 'f \<Rightarrow> 'f \<times> (unit, io_error) result"
  op_open :: "str \<Rightarrow> 'f \<Rightarrow> 'f \<times> (unit, io_error) result"
  op_lock :: "str \<Rightarrow> 'f \<Rightarrow> 'f \<times> (unit, io_error) result"
  op_seek_start :: "str \<Rightarrow> 'f \<Rightarrow> 'f \<times> (unit, io_error) result"
  op_read_to_string :: "str \<Rightarrow> 'f \<Rightarrow> 'f \<times> (str, io_error) result"
  op_write_all :: "str \<Rightarrow> str \<Rightarrow> 'f \<Rightarrow> 'f \<times> (unit, io_error) result"

text \<open>The question mark on an operation: its error is wrapped and ends the function.\<close>

definition step ::
  "(io_error \<Rightarrow> 'e) \<Rightarrow> 'f \<times> ('a, io_error) result \<Rightarrow> ('a \<Rightarrow> 'f \<Rightarrow> 'f \<times> ('b, 'e) result) \<Rightarrow> 'f \<times> ('b, 'e) result" where
  "step wrap outcome continue =
     (case outcome of (s, Err e) \<Rightarrow> (s, Err (wrap e)) | (s, Ok x) \<Rightarrow> continue x s)"

definition append_locked_line ::
  "'f policy_file_ops \<Rightarrow> str \<Rightarrow> str \<Rightarrow> 'f \<Rightarrow> 'f \<times> (unit, amend_error) result" where
  "append_locked_line ops policy_path line s =
     step (OpenPolicyFile policy_path) (op_open ops policy_path s) (\<lambda>_ s.
     step (LockPolicyFile policy_path) (op_lock ops policy_path s) (\<lambda>_ s.
     step (SeekPolicyFile policy_path) (op_seek_start ops policy_path s) (\<lambda>_ s.
     step (ReadPolicyFile policy_path) (op_read_to_string ops policy_path s) (\<lambda>contents s.
       if list_ex (\<lambda>existing. existing = line) (str_lines contents) then (s, Ok ())
       else
         step (WritePolicyFile policy_path)
           (if contents \<noteq> [] \<and> \<not> ends_with [newline] contents
            then op_write_all ops policy_path [newline] s else (s, Ok ())) (\<lambda>_ s.
         step (WritePolicyFile policy_path) (op_write_all ops policy_path (line @ [newline]) s) (\<lambda>_ s.
           (s, Ok ())))))))"

text \<open>
  \<open>Path::parent\<close>, rebuilt from the components: equal to the standard one as a path, with repeated
  separators removed.
\<close>

definition path_parent :: "str \<Rightarrow> str option" where
  "path_parent p =
     (case rev (path_components p) of
        [] \<Rightarrow> None
      | RootDir # _ \<Rightarrow> None
      | _ # rest \<Rightarrow> Some (if rest = [RootDir] then [slash] else join [slash] (map component_text (rev rest))))"

definition append_rule_line ::
  "'f policy_file_ops \<Rightarrow> str \<Rightarrow> str \<Rightarrow> 'f \<Rightarrow> 'f \<times> (unit, amend_error) result" where
  "append_rule_line ops policy_path rule s =
     (case path_parent policy_path of
        None \<Rightarrow> (s, Err (MissingParent policy_path))
      | Some dir \<Rightarrow>
          (case op_create_dir ops dir s of
             (s', Ok _) \<Rightarrow> append_locked_line ops policy_path rule s'
           | (s', Err source) \<Rightarrow>
               if io_kind source = AlreadyExists then append_locked_line ops policy_path rule s'
               else (s', Err (CreatePolicyDir dir source))))"

abbreviation double_quote :: uchar where "double_quote \<equiv> 34"

definition allow_prefix_rule_line :: "str list \<Rightarrow> str" where
  "allow_prefix_rule_line tokens =
     lit ''prefix_rule(pattern=['' @ join (lit '', '') tokens @ lit ''], decision='' @ [double_quote] @ lit ''allow'' @ [double_quote] @ lit '')''"

definition blocking_append_allow_prefix_rule ::
  "'f policy_file_ops \<Rightarrow> (str \<Rightarrow> (str, str) result) \<Rightarrow> str \<Rightarrow> str list \<Rightarrow> 'f \<Rightarrow> 'f \<times> (unit, amend_error) result" where
  "blocking_append_allow_prefix_rule ops to_json policy_path prefix_tokens s =
     (if prefix_tokens = [] then (s, Err EmptyPrefix)
      else case collect_results (map to_json prefix_tokens) of
             Err source \<Rightarrow> (s, Err (SerializePrefix source))
           | Ok tokens \<Rightarrow> append_rule_line ops policy_path (allow_prefix_rule_line tokens) s)"

fun policy_decision_string :: "decision \<Rightarrow> str" where
  "policy_decision_string Allow = lit ''allow''"
| "policy_decision_string Prompt = lit ''prompt''"
| "policy_decision_string Forbidden = lit ''deny''"

definition network_rule_line :: "str list \<Rightarrow> str" where
  "network_rule_line args = lit ''network_rule('' @ join (lit '', '') args @ lit '')''"

definition network_rule_args ::
  "(str \<Rightarrow> (str, str) result) \<Rightarrow> str \<Rightarrow> network_rule_protocol \<Rightarrow> decision \<Rightarrow> str option \<Rightarrow>
     (str list, amend_error) result" where
  "network_rule_args to_json host protocol d justification =
     map_err SerializeNetworkRule
       (result_bind (to_json host)
         (\<lambda>host. result_bind (to_json (as_policy_string protocol))
           (\<lambda>protocol. result_bind (to_json (policy_decision_string d))
             (\<lambda>d. let args = [lit ''host='' @ host, lit ''protocol='' @ protocol, lit ''decision='' @ d] in
                case justification of
                  None \<Rightarrow> Ok args
                | Some raw \<Rightarrow>
                    result_bind (to_json raw) (\<lambda>j. Ok (args @ [lit ''justification='' @ j]))))))"

text \<open>\<open>to_message\<close> is \<^const>\<open>policy_error_message\<close> with its two renderings.\<close>

definition blocking_append_network_rule ::
  "(policy_error \<Rightarrow> str) \<Rightarrow> 'f policy_file_ops \<Rightarrow> (str \<Rightarrow> (str, str) result) \<Rightarrow> str \<Rightarrow> str \<Rightarrow> network_rule_protocol \<Rightarrow> decision \<Rightarrow>
     str option \<Rightarrow> 'f \<Rightarrow> 'f \<times> (unit, amend_error) result" where
  "blocking_append_network_rule to_message ops to_json policy_path host protocol d justification s =
     (case normalize_network_rule_host host of
        Err e \<Rightarrow> (s, Err (InvalidNetworkRule (to_message e)))
      | Ok host \<Rightarrow>
          if (case justification of Some raw \<Rightarrow> trim raw = [] | None \<Rightarrow> False) then (s, Err (InvalidNetworkRule (lit ''justification cannot be empty'')))
          else case network_rule_args to_json host protocol d justification of
                 Err e \<Rightarrow> (s, Err e)
               | Ok args \<Rightarrow> append_rule_line ops policy_path (network_rule_line args) s)"

section \<open>What the code relies on\<close>

text \<open>
  A file opened for appending, seen through the text \<open>view\<close> of the policy file: only writing changes
  it, a successful write appends the whole text and a failed one at most a part of it, and reading
  from the start returns the text.
\<close>

definition keeps_view :: "('f \<Rightarrow> str) \<Rightarrow> ('f \<Rightarrow> 'f \<times> 'r) \<Rightarrow> bool" where
  "keeps_view view op \<longleftrightarrow> (\<forall>s s' r. op s = (s', r) \<longrightarrow> view s' = view s)"

definition appending_file :: "'f policy_file_ops \<Rightarrow> str \<Rightarrow> ('f \<Rightarrow> str) \<Rightarrow> bool" where
  "appending_file ops path view \<longleftrightarrow>
     (\<forall>dir. keeps_view view (op_create_dir ops dir)) \<and> keeps_view view (op_open ops path) \<and>
     keeps_view view (op_lock ops path) \<and> keeps_view view (op_seek_start ops path) \<and>
     keeps_view view (op_read_to_string ops path) \<and>
     (\<forall>s s' contents. op_read_to_string ops path s = (s', Ok contents) \<longrightarrow> contents = view s) \<and>
     (\<forall>t s s'. op_write_all ops path t s = (s', Ok ()) \<longrightarrow> view s' = view s @ t) \<and>
     (\<forall>t s s' e. op_write_all ops path t s = (s', Err e) \<longrightarrow> (\<exists>part. prefix part t \<and> view s' = view s @ part))"

text \<open>A JSON string has no line break in it.\<close>

definition one_line_json :: "(str \<Rightarrow> (str, str) result) \<Rightarrow> bool" where
  "one_line_json to_json \<longleftrightarrow> (\<forall>s t. to_json s = Ok t \<longrightarrow> newline \<notin> set t)"

section \<open>Appending a line\<close>

text \<open>The text of the file after a line has been added, if it was not there yet.\<close>

definition with_line :: "str \<Rightarrow> str \<Rightarrow> str" where
  "with_line line contents =
     (if line \<in> set (str_lines contents) then contents
      else contents @ (if contents \<noteq> [] \<and> last contents \<noteq> newline then [newline] else []) @ line @ [newline])"

lemma step_Ok: "step wrap outcome k = (s', Ok y) \<longleftrightarrow> (\<exists>s x. outcome = (s, Ok x) \<and> k x s = (s', Ok y))"
  by (auto simp: step_def split: prod.splits result.splits)

lemma keeps_viewD: "keeps_view view op \<Longrightarrow> op s = (s', r) \<Longrightarrow> view s' = view s"
  by (simp add: keeps_view_def)

lemma ends_with_last: "ends_with [c] s \<longleftrightarrow> s \<noteq> [] \<and> last s = c"
  by (auto simp: ends_with_iff) (metis append_butlast_last_id)

lemma appending_laws:
  assumes "appending_file ops path view"
  shows "keeps_view view (op_create_dir ops dir)" "keeps_view view (op_open ops path)"
    "keeps_view view (op_lock ops path)" "keeps_view view (op_seek_start ops path)"
    "keeps_view view (op_read_to_string ops path)"
    "op_read_to_string ops path s = (s', Ok contents) \<Longrightarrow> contents = view s"
    "op_write_all ops path t s = (s', Ok ()) \<Longrightarrow> view s' = view s @ t"
    "op_write_all ops path t s = (s', Err e) \<Longrightarrow> \<exists>part. prefix part t \<and> view s' = view s @ part"
  using assms by (simp_all add: appending_file_def)

lemma append_locked_line_Ok:
  assumes "appending_file ops path view" "append_locked_line ops path line s = (s', Ok ())"
  shows "view s' = with_line line (view s)"
proof -
  note laws = appending_laws [OF assms(1)]
  obtain s1 s2 s3 s4 contents where ops: "op_open ops path s = (s1, Ok ())" "op_lock ops path s1 = (s2, Ok ())"
      "op_seek_start ops path s2 = (s3, Ok ())" "op_read_to_string ops path s3 = (s4, Ok contents)"
    and rest: "(if list_ex (\<lambda>existing. existing = line) (str_lines contents) then (s4, Ok ())
       else step (WritePolicyFile path)
           (if contents \<noteq> [] \<and> \<not> ends_with [newline] contents then op_write_all ops path [newline] s4 else (s4, Ok ()))
           (\<lambda>_ s. step (WritePolicyFile path) (op_write_all ops path (line @ [newline]) s) (\<lambda>_ s. (s, Ok ())))) =
       (s', Ok ())"
    using assms(2) unfolding append_locked_line_def step_Ok by auto
  have v: "view s1 = view s" "view s2 = view s1" "view s3 = view s2" "view s4 = view s3" "contents = view s3"
    using keeps_viewD [OF laws(2) ops(1)] keeps_viewD [OF laws(3) ops(2)] keeps_viewD [OF laws(4) ops(3)]
      keeps_viewD [OF laws(5) ops(4)] laws(6) [OF ops(4)] by simp_all
  note w = laws(7)
  show ?thesis
  proof (cases "line \<in> set (str_lines contents)")
    case True
    then show ?thesis using rest v by (simp add: with_line_def list_ex_iff)
  next
    case False
    then obtain s5 where s5: "(if contents \<noteq> [] \<and> \<not> ends_with [newline] contents
        then op_write_all ops path [newline] s4 else (s4, Ok ())) = (s5, Ok ())"
      and s': "op_write_all ops path (line @ [newline]) s5 = (s', Ok ())"
      using rest by (auto simp: step_Ok list_ex_iff)
    have "view s5 = view s4 @ (if contents \<noteq> [] \<and> last contents \<noteq> newline then [newline] else [])"
      using s5 w by (auto simp: ends_with_last split: if_splits)
    then show ?thesis using False w [OF s'] v by (simp add: with_line_def)
  qed
qed

lemma step_extends:
  assumes "prefix v (view (fst outcome))" "\<And>x s. prefix v (view s) \<Longrightarrow> prefix v (view (fst (k x s)))"
  shows "prefix v (view (fst (step wrap outcome k)))"
proof (cases outcome)
  case (Pair s r)
  then show ?thesis using assms(1) assms(2) [of s] by (cases r) (simp_all add: step_def)
qed

lemma append_locked_line_keeps:
  assumes "appending_file ops path view"
  shows "prefix (view s) (view (fst (append_locked_line ops path line s)))"
proof -
  note ext = step_extends [where v = "view s" and view = view]
  let ?P = "\<lambda>t. prefix (view s) (view t)"
  have k: "?P (fst (op t))" if "?P t" "keeps_view view op" for op :: "'a \<Rightarrow> 'a \<times> ('x, io_error) result" and t
    using that(1) keeps_viewD [OF that(2) prod.collapse [symmetric]] by simp
  have wr: "\<exists>part. view t' = view t @ part" if "op_write_all ops path x t = (t', r)" for x t t' r
    using that appending_laws(7,8) [OF assms] by (cases r) (simp, blast)+
  have w: "?P (fst (op_write_all ops path x t))" if "?P t" for x t
  proof (cases "op_write_all ops path x t")
    case (Pair t' r)
    obtain part where "view t' = view t @ part"
      using wr [OF Pair] by blast
    then show ?thesis using Pair that by (auto intro: prefix_prefix)
  qed
  have reads: "?P (fst (op_open ops path t))" "?P (fst (op_lock ops path t))"
      "?P (fst (op_seek_start ops path t))" "?P (fst (op_read_to_string ops path t))" if "?P t" for t
    using appending_laws(2-5) [OF assms] that by (simp_all add: k)
  have tail: "?P (fst (if c then (t, Ok ())
      else step w1 (if d then op_write_all ops path x t else (t, Ok ()))
        (\<lambda>_ s. step w2 (op_write_all ops path y s) (\<lambda>_ s. (s, Ok ())))))" if "?P t" for c d w1 w2 x y t
  proof (cases c)
    case False
    have "?P (fst (step w1 (if d then op_write_all ops path x t else (t, Ok ()))
        (\<lambda>_ s. step w2 (op_write_all ops path y s) (\<lambda>_ s. (s, Ok ())))))"
    proof (rule ext)
      show "?P (fst (if d then op_write_all ops path x t else (t, Ok ())))"
        using w [OF that] that by (cases d) simp_all
      show "?P (fst (step w2 (op_write_all ops path y t') (\<lambda>_ s. (s, Ok ()))))" if "?P t'" for t' and u :: unit
        by (rule ext [OF w [OF that]]) simp
    qed
    then show ?thesis using False by simp
  qed (use that in simp)
  show ?thesis unfolding append_locked_line_def
    by (rule ext, rule reads(1), rule prefix_order.refl, rule ext, rule reads(2), assumption,
        rule ext, rule reads(3), assumption, rule ext, rule reads(4), assumption,
        rule tail, assumption)
qed

lemma with_line_lines:
  assumes "plain_line line" "contents = [] \<or> last contents \<noteq> carriage_return"
  shows "str_lines (with_line line contents) =
     (if line \<in> set (str_lines contents) then str_lines contents else str_lines contents @ [line])"
proof -
  have one: "str_lines (line @ [newline]) = [line]"
    using lines_append [OF assms(1), of "[]"] by (simp add: str_lines_def)
  have "str_lines (contents @ newline # line @ [newline]) = str_lines contents @ [line]"
    if "contents \<noteq> []" "last contents \<noteq> newline"
    using that assms(2) str_lines_append_closed [of "contents @ [newline]" "line @ [newline]"] one str_lines_close
    by simp
  moreover have "str_lines (contents @ line @ [newline]) = str_lines contents @ [line]"
    if "contents = [] \<or> last contents = newline"
    using str_lines_append_closed [OF that, of "line @ [newline]"] one by simp
  ultimately show ?thesis by (auto simp: with_line_def)
qed

lemma with_line_again:
  "plain_line line \<Longrightarrow> contents = [] \<or> last contents \<noteq> carriage_return \<Longrightarrow>
     with_line line (with_line line contents) = with_line line contents"
  using with_line_lines [of line contents] by (simp add: with_line_def [of line "with_line line contents"])

lemma append_rule_line_Ok:
  assumes "appending_file ops path view" "append_rule_line ops path rule s = (s', Ok ())"
  shows "view s' = with_line rule (view s)"
proof -
  obtain dir s1 r where dir: "op_create_dir ops dir s = (s1, r)"
    and s': "append_locked_line ops path rule s1 = (s', Ok () :: (unit, amend_error) result)"
    using assms(2) by (auto simp: append_rule_line_def split: option.splits prod.splits result.splits if_splits)
  have "view s1 = view s" by (rule keeps_viewD [OF appending_laws(1) [OF assms(1)] dir])
  then show ?thesis using append_locked_line_Ok [OF assms(1) s'] by simp
qed

lemma append_rule_line_keeps:
  assumes "appending_file ops path view"
  shows "prefix (view s) (view (fst (append_rule_line ops path rule s)))"
proof (cases "path_parent path")
  case (Some dir)
  obtain s1 r where dir: "op_create_dir ops dir s = (s1, r)" by (cases "op_create_dir ops dir s")
  have "view s1 = view s" by (rule keeps_viewD [OF appending_laws(1) [OF assms] dir])
  then show ?thesis using append_locked_line_keeps [OF assms, of s1 rule] dir Some
    by (cases r) (simp_all add: append_rule_line_def)
qed (simp add: append_rule_line_def)

lemma plain_rule_line:
  assumes "one_line_json to_json" "collect_results (map to_json prefix_tokens) = Ok tokens"
  shows "plain_line (allow_prefix_rule_line tokens)"
proof -
  have "\<forall>t\<in>set tokens. newline \<notin> set t"
    using assms by (auto simp: one_line_json_def collect_results_Ok in_set_conv_nth list_eq_iff_nth_eq) metis
  moreover have "newline \<notin> set (join (lit '', '') ts)" if "\<forall>t\<in>set ts. newline \<notin> set t" for ts
    using that by (induction "lit '', ''" ts rule: join.induct) (auto simp: text_eval)
  ultimately show ?thesis by (auto simp: plain_line_def allow_prefix_rule_line_def text_eval)
qed

section \<open>Properties\<close>

text \<open>
  C37: amending a policy file with an allowed prefix never loses what the file held, even when a write
  fails half way; on success exactly the line of this rule is added after the other lines, unless the
  file had it already, and amending once more changes nothing.
\<close>

theorem amend_adds_rule_once:
  assumes "appending_file ops path view" and "one_line_json to_json"
    and "blocking_append_allow_prefix_rule ops to_json path prefix_tokens s = (s', r)"
    and "view s = [] \<or> last (view s) \<noteq> carriage_return"
  shows "prefix (view s) (view s') \<and>
    (r = Ok () \<longrightarrow>
      (\<exists>tokens. collect_results (map to_json prefix_tokens) = Ok tokens \<and>
         str_lines (view s') = (if allow_prefix_rule_line tokens \<in> set (str_lines (view s)) then str_lines (view s)
                                else str_lines (view s) @ [allow_prefix_rule_line tokens])) \<and>
      (\<forall>s''. blocking_append_allow_prefix_rule ops to_json path prefix_tokens s' = (s'', r) \<longrightarrow> view s'' = view s'))"
proof (cases "collect_results (map to_json prefix_tokens)")
  case (Ok tokens)
  let ?line = "allow_prefix_rule_line tokens"
  have run: "blocking_append_allow_prefix_rule ops to_json path prefix_tokens t =
      (if prefix_tokens = [] then (t, Err EmptyPrefix) else append_rule_line ops path ?line t)" for t
    using Ok by (simp add: blocking_append_allow_prefix_rule_def)
  have plain: "plain_line ?line" by (rule plain_rule_line [OF assms(2) Ok])
  have "prefix (view s) (view s')"
    using assms(3) append_rule_line_keeps [OF assms(1), of s ?line] run by (auto split: if_splits)
  moreover have "view t' = with_line ?line (view t)"
    if "blocking_append_allow_prefix_rule ops to_json path prefix_tokens t = (t', Ok ())" for t t'
    using append_rule_line_Ok [OF assms(1)] that run by (auto split: if_splits)
  ultimately show ?thesis
    using assms(3) Ok with_line_lines [OF plain assms(4)] with_line_again [OF plain assms(4)] by auto
next
  case (Err e)
  then have "s' = s \<and> r \<noteq> Ok ()"
    using assms(3) by (auto simp: blocking_append_allow_prefix_rule_def split: if_splits)
  then show ?thesis by simp
qed

definition text_file_ops :: "str policy_file_ops" where
  "text_file_ops = \<lparr>op_create_dir = (\<lambda>d s. (s, Err (Io_Error AlreadyExists []))), op_open = (\<lambda>p s. (s, Ok ())),
     op_lock = (\<lambda>p s. (s, Ok ())), op_seek_start = (\<lambda>p s. (s, Ok ())), op_read_to_string = (\<lambda>p s. (s, Ok s)),
     op_write_all = (\<lambda>p t s. (s @ t, Ok ()))\<rparr>"

definition quote_json :: "str \<Rightarrow> (str, str) result" where
  "quote_json s = (if newline \<in> set s then Err [] else Ok (double_quote # s @ [double_quote]))"

definition amended :: str where
  "amended = lit ''# rules'' @ newline # allow_prefix_rule_line [double_quote # lit ''ls'' @ [double_quote]] @ [newline]"

theorem amend_adds_rule_once_witness:
  "str_lines amended = [lit ''# rules'', allow_prefix_rule_line [double_quote # lit ''ls'' @ [double_quote]]]"
proof -
  have "appending_file text_file_ops (lit ''/r/d.rules'') (\<lambda>s. s)"
    by (simp add: appending_file_def text_file_ops_def keeps_view_def)
  moreover have "one_line_json quote_json" by (simp add: one_line_json_def quote_json_def)
  moreover have "blocking_append_allow_prefix_rule text_file_ops quote_json (lit ''/r/d.rules'') [lit ''ls'']
      (lit ''# rules'') = (amended, Ok ())"
    by (simp add: blocking_append_allow_prefix_rule_def quote_json_def append_rule_line_def path_parent_def
        append_locked_line_def step_def text_file_ops_def amended_def allow_prefix_rule_line_def text_eval)
  moreover have "lit ''# rules'' = [] \<or> last (lit ''# rules'') \<noteq> carriage_return" by (simp add: text_eval)
  ultimately have "(\<exists>tokens. collect_results (map quote_json [lit ''ls'']) = Ok tokens \<and>
       str_lines amended = (if allow_prefix_rule_line tokens \<in> set (str_lines (lit ''# rules'')) then str_lines (lit ''# rules'')
          else str_lines (lit ''# rules'') @ [allow_prefix_rule_line tokens]))"
    using amend_adds_rule_once [of text_file_ops "lit ''/r/d.rules''" "\<lambda>s. s" quote_json "[lit ''ls'']" "lit ''# rules''" amended "Ok ()"]
    by blast
  moreover have "collect_results (map quote_json [lit ''ls'']) = Ok [double_quote # lit ''ls'' @ [double_quote]]"
    by (simp add: quote_json_def text_eval)
  moreover have "str_lines (lit ''# rules'') = [lit ''# rules'']" by (simp add: text_eval)
  ultimately show ?thesis by (auto simp: allow_prefix_rule_line_def text_eval split: if_splits)
qed

text \<open>
  normalising a host is not idempotent: a bracketed host with a port inside the brackets is stored
  with the port by the in-memory policy and by the amended file, and without it when that file is
  loaded again, so the two policies name different hosts.
\<close>

theorem normalized_host_changes_on_reload:
  "normalize_network_rule_host (lit ''[a:80]'') = Ok (lit ''a:80'') \<and>
   normalize_network_rule_host (lit ''a:80'') = Ok (lit ''a'')"
  by (simp add: normalize_network_rule_host_def strip_bracketed_host_def strip_host_port_def rsplit_once_def
      trim_end_char_def all_digits_def text_eval)

end
