(* ===== verification/Turn_Diff_Tracker.thy ===== *)
theory Turn_Diff_Tracker
  imports Apply_Refinement "HOL-Library.AList" "HOL-Library.List_Lexorder"
begin

text \<open>
  Model of \<^verbatim>\<open>core/src/turn_diff_tracker.rs\<close>, the consumer of the deltas of applied patches: it keeps the
  contents at the start of the turn and now for every path touched, and renders the net difference.
  A \<open>HashMap\<close> is an association list with different keys; its order is the iteration order, on which no
  theorem depends. SHA-1 and the line diff are third-party code and parameters.
\<close>

section \<open>State\<close>

definition ZERO_OID :: str where
  "ZERO_OID = lit ''0000000000000000000000000000000000000000''"

definition DEV_NULL :: str where "DEV_NULL = lit ''/dev/null''"

definition REGULAR_FILE_MODE :: str where "REGULAR_FILE_MODE = lit ''100644''"

record tracked_path =
  tp_environment_id :: str
  tp_path :: str

definition tracked :: "str \<Rightarrow> str \<Rightarrow> tracked_path" where
  "tracked environment_id path = \<lparr>tp_environment_id = environment_id, tp_path = path\<rparr>"

record turn_diff_tracker =
  td_valid :: bool
  display_roots_by_environment :: "(str \<times> str) list"
  baseline_by_path :: "(tracked_path \<times> str) list"
  current_by_path :: "(tracked_path \<times> str) list"
  origin_by_current_path :: "(tracked_path \<times> tracked_path) list"

record diff_lib =
  sha1_hex :: "str \<Rightarrow> str"
  lines_unified_diff :: "nat \<Rightarrow> str \<Rightarrow> str \<Rightarrow> str \<Rightarrow> str \<Rightarrow> str"

definition tracker_new :: turn_diff_tracker where
  "tracker_new = \<lparr>td_valid = True, display_roots_by_environment = [], baseline_by_path = [],
     current_by_path = [], origin_by_current_path = []\<rparr>"

definition with_environment_display_roots :: "(str \<times> str) list \<Rightarrow> turn_diff_tracker" where
  "with_environment_display_roots display_roots =
     tracker_new\<lparr>display_roots_by_environment := foldl (\<lambda>m (k, v). AList.update k v m) [] display_roots\<rparr>"

definition tracker_invalidate :: "turn_diff_tracker \<Rightarrow> turn_diff_tracker" where
  "tracker_invalidate t = t\<lparr>td_valid := False\<rparr>"

abbreviation contains_key :: "('k \<times> 'v) list \<Rightarrow> 'k \<Rightarrow> bool" where
  "contains_key m k \<equiv> map_of m k \<noteq> None"

section \<open>Recording changes\<close>

definition tracker_apply_add :: "tracked_path \<Rightarrow> str \<Rightarrow> str option \<Rightarrow> turn_diff_tracker \<Rightarrow> turn_diff_tracker" where
  "tracker_apply_add path content overwritten_content t =
     (let t = t\<lparr>origin_by_current_path := AList.delete path (origin_by_current_path t)\<rparr>;
          t = (case overwritten_content of
                 Some old \<Rightarrow>
                   if \<not> contains_key (current_by_path t) path \<and> \<not> contains_key (baseline_by_path t) path
                   then t\<lparr>baseline_by_path := AList.update path old (baseline_by_path t)\<rparr> else t
               | None \<Rightarrow> t)
      in t\<lparr>current_by_path := AList.update path content (current_by_path t)\<rparr>)"

definition tracker_apply_delete :: "tracked_path \<Rightarrow> str \<Rightarrow> turn_diff_tracker \<Rightarrow> turn_diff_tracker" where
  "tracker_apply_delete path content t =
     (let removed = map_of (current_by_path t) path;
          t = t\<lparr>current_by_path := AList.delete path (current_by_path t)\<rparr>;
          t = (if removed = None \<and> \<not> contains_key (baseline_by_path t) path
               then t\<lparr>baseline_by_path := AList.update path content (baseline_by_path t)\<rparr> else t)
      in t\<lparr>origin_by_current_path := AList.delete path (origin_by_current_path t)\<rparr>)"

definition record_baseline :: "tracked_path \<Rightarrow> str \<Rightarrow> turn_diff_tracker \<Rightarrow> turn_diff_tracker" where
  "record_baseline path content t =
     (if \<not> contains_key (current_by_path t) path \<and> \<not> contains_key (baseline_by_path t) path
      then t\<lparr>baseline_by_path := AList.update path content (baseline_by_path t)\<rparr> else t)"

definition tracker_apply_move ::
  "tracked_path \<Rightarrow> tracked_path \<Rightarrow> str option \<Rightarrow> str \<Rightarrow> turn_diff_tracker \<Rightarrow> turn_diff_tracker" where
  "tracker_apply_move source_path dest_path overwritten_move_content new_content t =
     (let t = (case overwritten_move_content of Some old \<Rightarrow> record_baseline dest_path old t | None \<Rightarrow> t);
          origin = (case map_of (origin_by_current_path t) source_path of Some o' \<Rightarrow> o' | None \<Rightarrow> source_path);
          t = t\<lparr>origin_by_current_path := AList.delete source_path (origin_by_current_path t)\<rparr>;
          t = t\<lparr>current_by_path := AList.delete source_path (current_by_path t)\<rparr>;
          t = t\<lparr>current_by_path := AList.update dest_path new_content (current_by_path t)\<rparr>;
          t = t\<lparr>origin_by_current_path := AList.delete dest_path (origin_by_current_path t)\<rparr>
      in if dest_path \<noteq> origin
         then t\<lparr>origin_by_current_path := AList.update dest_path origin (origin_by_current_path t)\<rparr> else t)"

definition tracker_apply_update ::
  "tracked_path \<Rightarrow> tracked_path option \<Rightarrow> str \<Rightarrow> str option \<Rightarrow> str \<Rightarrow> turn_diff_tracker \<Rightarrow> turn_diff_tracker" where
  "tracker_apply_update source_path move_path old_content overwritten_move_content new_content t =
     (let t = record_baseline source_path old_content t in
      case move_path of
        Some dest_path \<Rightarrow> tracker_apply_move source_path dest_path overwritten_move_content new_content t
      | None \<Rightarrow> t\<lparr>current_by_path := AList.update source_path new_content (current_by_path t)\<rparr>)"

definition tracker_apply_change :: "str \<Rightarrow> applied_patch_change \<Rightarrow> turn_diff_tracker \<Rightarrow> turn_diff_tracker" where
  "tracker_apply_change environment_id c t =
     (let source_path = tracked environment_id (change_path c) in
      case change c of
        Applied_Add content overwritten_content \<Rightarrow> tracker_apply_add source_path content overwritten_content t
      | Applied_Delete content \<Rightarrow> tracker_apply_delete source_path content t
      | Applied_Update move_path old_content overwritten_move_content new_content \<Rightarrow>
          tracker_apply_update source_path (map_option (tracked environment_id) move_path) old_content
            overwritten_move_content new_content t)"

definition track_delta :: "str \<Rightarrow> applied_patch_delta \<Rightarrow> turn_diff_tracker \<Rightarrow> turn_diff_tracker" where
  "track_delta environment_id delta t =
     (if \<not> delta_exact delta then tracker_invalidate t
      else foldl (\<lambda>t c. tracker_apply_change environment_id c t) t (delta_changes delta))"

section \<open>Rendering\<close>

text \<open>\<open>Path::strip_prefix\<close>, with the rest rebuilt from its components.\<close>

definition path_strip_prefix :: "str \<Rightarrow> str \<Rightarrow> str option" where
  "path_strip_prefix path root =
     map_option (\<lambda>rest. join [slash] (map component_text rest))
       (strip_prefix (path_components root) (path_components path))"

definition display_path :: "turn_diff_tracker \<Rightarrow> tracked_path \<Rightarrow> str" where
  "display_path t path =
     (let display = (case map_of (display_roots_by_environment t) (tp_environment_id path) of
                       Some root \<Rightarrow> (case path_strip_prefix (tp_path path) root of
                                       Some rest \<Rightarrow> rest | None \<Rightarrow> tp_path path)
                     | None \<Rightarrow> tp_path path);
          display = map (\<lambda>c. if c = 92 then slash else c) display
      in if length (display_roots_by_environment t) > 1 \<and> tp_environment_id path \<noteq> []
         then tp_environment_id path @ [slash] @ display else display)"

definition git_blob_oid :: "diff_lib \<Rightarrow> str \<Rightarrow> str" where
  "git_blob_oid lib data = sha1_hex lib (lit ''blob '' @ show_nat (str_len data) @ [0] @ data)"

definition content_oid :: "diff_lib \<Rightarrow> str option \<Rightarrow> str" where
  "content_oid lib content = (case content of None \<Rightarrow> ZERO_OID | Some data \<Rightarrow> git_blob_oid lib data)"

definition render_diff ::
  "diff_lib \<Rightarrow> turn_diff_tracker \<Rightarrow> tracked_path \<Rightarrow> str option \<Rightarrow> tracked_path \<Rightarrow> str option \<Rightarrow> str option" where
  "render_diff lib t left_path left_content right_path right_content =
     (if left_content = right_content then None
      else
        (let left_display = display_path t left_path;
             right_display = display_path t right_path;
             diff = lit ''diff --git a/'' @ left_display @ lit '' b/'' @ right_display @ [newline]
         in case (case (left_content, right_content) of
                    (None, Some _) \<Rightarrow> Some (diff @ lit ''new file mode '' @ REGULAR_FILE_MODE @ [newline])
                  | (Some _, None) \<Rightarrow> Some (diff @ lit ''deleted file mode '' @ REGULAR_FILE_MODE @ [newline])
                  | (Some _, Some _) \<Rightarrow> Some diff
                  | (None, None) \<Rightarrow> None) of
              None \<Rightarrow> None
            | Some diff \<Rightarrow>
                (let diff = diff @ lit ''index '' @ content_oid lib left_content @ lit ''..'' @
                              content_oid lib right_content @ [newline];
                     old_header = (if left_content \<noteq> None then lit ''a/'' @ left_display else DEV_NULL);
                     new_header = (if right_content \<noteq> None then lit ''b/'' @ right_display else DEV_NULL)
                 in Some (diff @ lines_unified_diff lib 3 old_header new_header
                       (case left_content of None \<Rightarrow> [] | Some c \<Rightarrow> c)
                       (case right_content of None \<Rightarrow> [] | Some c \<Rightarrow> c)))))"

definition render_path_diff :: "diff_lib \<Rightarrow> turn_diff_tracker \<Rightarrow> tracked_path \<Rightarrow> str option" where
  "render_path_diff lib t path =
     render_diff lib t path (map_of (baseline_by_path t) path) path (map_of (current_by_path t) path)"

definition render_rename_diff :: "diff_lib \<Rightarrow> turn_diff_tracker \<Rightarrow> tracked_path \<Rightarrow> tracked_path \<Rightarrow> str option" where
  "render_rename_diff lib t source_path dest_path =
     render_diff lib t source_path (map_of (baseline_by_path t) source_path)
       dest_path (map_of (current_by_path t) dest_path)"

definition rename_pair :: "turn_diff_tracker \<Rightarrow> tracked_path \<times> tracked_path \<Rightarrow> (tracked_path \<times> tracked_path) option" where
  "rename_pair t entry =
     (case entry of (dest_path, origin_path) \<Rightarrow>
        if dest_path = origin_path \<or> contains_key (current_by_path t) origin_path \<or>
           \<not> contains_key (current_by_path t) dest_path \<or> \<not> contains_key (baseline_by_path t) origin_path \<or>
           contains_key (baseline_by_path t) dest_path
        then None else Some (origin_path, dest_path))"

definition rename_pairs :: "turn_diff_tracker \<Rightarrow> (tracked_path \<times> tracked_path) list" where
  "rename_pairs t =
     foldl (\<lambda>m (k, v). AList.update k v m) [] (filter_map (rename_pair t) (origin_by_current_path t))"

fun diff_loop ::
  "diff_lib \<Rightarrow> turn_diff_tracker \<Rightarrow> (tracked_path \<times> tracked_path) list \<Rightarrow> tracked_path list \<Rightarrow>
     tracked_path list \<Rightarrow> tracked_path list \<Rightarrow> str \<Rightarrow> str" where
  "diff_loop lib t pairs paired_destinations [] handled aggregated = aggregated"
| "diff_loop lib t pairs paired_destinations (path # paths) handled aggregated =
     (if path \<in> set handled then diff_loop lib t pairs paired_destinations paths handled aggregated
      else
        (let handled = path # handled in
         if path \<in> set paired_destinations
         then diff_loop lib t pairs paired_destinations paths handled aggregated
         else
           (let (handled, diff) =
              (case map_of pairs path of
                 Some dest \<Rightarrow> (dest # handled, render_rename_diff lib t path dest)
               | None \<Rightarrow> (handled, render_path_diff lib t path));
                aggregated = (case diff of
                   None \<Rightarrow> aggregated
                 | Some d \<Rightarrow> (let a = aggregated @ d in if ends_with [newline] a then a else a @ [newline]))
            in diff_loop lib t pairs paired_destinations paths handled aggregated)))"

definition get_unified_diff :: "diff_lib \<Rightarrow> turn_diff_tracker \<Rightarrow> str option" where
  "get_unified_diff lib t =
     (if \<not> td_valid t then None
      else
        (let pairs = rename_pairs t;
             paired_destinations = map snd pairs;
             paths = remdups_adj (sort_key (display_path t)
               (map fst (baseline_by_path t) @ map fst (current_by_path t)));
             aggregated = diff_loop lib t pairs paired_destinations paths [] []
         in if aggregated = [] then None else Some aggregated))"

section \<open>The tracker and the files\<close>

text \<open>
  What the maps of the tracker say of one path: \<open>v0\<close> are its contents at the start of the turn and
  \<open>v\<close> its contents now.
\<close>

definition tracks_at :: "str option \<Rightarrow> str option \<Rightarrow> str option \<Rightarrow> str option \<Rightarrow> bool" where
  "tracks_at baseline now v0 v \<longleftrightarrow>
     (if baseline \<noteq> None then baseline = v0 \<and> now = v
      else if now \<noteq> None then v0 = None \<and> now = v
      else v0 = v)"

definition tracks_path :: "turn_diff_tracker \<Rightarrow> tracked_path \<Rightarrow> str option \<Rightarrow> str option \<Rightarrow> bool" where
  "tracks_path t p v0 v \<longleftrightarrow> tracks_at (map_of (baseline_by_path t) p) (map_of (current_by_path t) p) v0 v"

definition tracks :: "str \<Rightarrow> text_view \<Rightarrow> text_view \<Rightarrow> turn_diff_tracker \<Rightarrow> bool" where
  "tracks env v0 v t \<longleftrightarrow> (\<forall>p. tracks_path t (tracked env p) (v0 p) (v p))"

lemma tracked_inject [simp]: "tracked e p = tracked e' p' \<longleftrightarrow> e = e' \<and> p = p'"
  by (auto simp: tracked_def)

lemma tracks_new: "tracks env v v tracker_new"
  by (simp add: tracks_def tracks_path_def tracks_at_def tracker_new_def)

lemma record_baseline_maps:
  "map_of (baseline_by_path (record_baseline path old t)) q =
     (if q = path \<and> map_of (current_by_path t) path = None \<and> map_of (baseline_by_path t) path = None then Some old
      else map_of (baseline_by_path t) q)"
  "current_by_path (record_baseline path old t) = current_by_path t"
  by (simp_all add: record_baseline_def update_conv')

lemma apply_add_maps:
  "map_of (baseline_by_path (tracker_apply_add path content ow t)) q =
     (if q = path \<and> map_of (current_by_path t) path = None \<and> map_of (baseline_by_path t) path = None then ow
      else map_of (baseline_by_path t) q)"
  "map_of (current_by_path (tracker_apply_add path content ow t)) = (map_of (current_by_path t))(path \<mapsto> content)"
  by (cases ow; simp add: tracker_apply_add_def Let_def update_conv')+

lemma apply_delete_maps:
  "map_of (baseline_by_path (tracker_apply_delete path content t)) q =
     (if q = path \<and> map_of (current_by_path t) path = None \<and> map_of (baseline_by_path t) path = None
      then Some content else map_of (baseline_by_path t) q)"
  "map_of (current_by_path (tracker_apply_delete path content t)) = (map_of (current_by_path t))(path := None)"
  by (simp_all add: tracker_apply_delete_def Let_def update_conv' delete_conv')

lemma apply_move_maps:
  "map_of (baseline_by_path (tracker_apply_move src dest ow content t)) q =
     (if q = dest \<and> map_of (current_by_path t) dest = None \<and> map_of (baseline_by_path t) dest = None then ow
      else map_of (baseline_by_path t) q)"
  "map_of (current_by_path (tracker_apply_move src dest ow content t)) =
     (map_of (current_by_path t))(src := None, dest \<mapsto> content)"
  by (cases ow; simp add: tracker_apply_move_def Let_def update_conv' delete_conv' record_baseline_maps)+

lemma tracks_at_set:
  "tracks_at baseline now v0 v \<Longrightarrow>
     tracks_at (if now = None \<and> baseline = None then v else baseline) (Some x) v0 (Some x)"
  by (cases baseline; cases now; cases v) (simp_all add: tracks_at_def)

lemma tracks_at_delete:
  "tracks_at baseline now v0 (Some x) \<Longrightarrow>
     tracks_at (if now = None \<and> baseline = None then Some x else baseline) None v0 None"
  by (cases baseline; cases now) (simp_all add: tracks_at_def)

lemma apply_change_tracks:
  assumes "truthful_change (change_path c) (change c) v" "tracks env v0 v t"
  shows "tracks env v0 (replay_file_change (change_path c) (change c) v) (tracker_apply_change env c t)"
  unfolding tracks_def tracks_path_def
proof
  fix q
  define p where "p = change_path c"
  let ?b = "\<lambda>r. map_of (baseline_by_path t) (tracked env r)"
  let ?c = "\<lambda>r. map_of (current_by_path t) (tracked env r)"
  have t: "tracks_at (?b r) (?c r) (v0 r) (v r)" for r using assms(2) by (simp add: tracks_def tracks_path_def)
  note truth = assms(1) [folded p_def]
  show "tracks_at (map_of (baseline_by_path (tracker_apply_change env c t)) (tracked env q))
      (map_of (current_by_path (tracker_apply_change env c t)) (tracked env q)) (v0 q)
      (replay_file_change (change_path c) (change c) v q)"
  proof (cases "change c")
    case (Applied_Add content ow)
    then have "ow = v p" using truth by simp
    then show ?thesis using Applied_Add t [of q] tracks_at_set [OF t [of p], of content]
      by (cases "q = p") (simp_all add: tracker_apply_change_def apply_add_maps split del: if_split flip: p_def)
  next
    case (Applied_Delete content)
    then have "v p = Some content" using truth by simp
    then have "tracks_at (?b p) (?c p) (v0 p) (Some content)" using t [of p] by simp
    from tracks_at_delete [OF this] show ?thesis using Applied_Delete t [of q]
      by (cases "q = p") (simp_all add: tracker_apply_change_def apply_delete_maps split del: if_split flip: p_def)
  next
    case (Applied_Update mv old ow new)
    note u = this
    then have "v p = Some old" using truth by (cases mv) auto
    then have old: "tracks_at (?b p) (?c p) (v0 p) (Some old)" using t [of p] by simp
    show ?thesis
    proof (cases mv)
      case None
      then show ?thesis using u t [of q] tracks_at_set [OF old, of new]
        by (cases "q = p") (simp_all add: tracker_apply_change_def tracker_apply_update_def Let_def
            record_baseline_maps update_conv' split del: if_split flip: p_def)
    next
      case (Some d)
      then have d: "d \<noteq> p" "ow = v d" using u truth by auto
      consider "q = p" | "q = d" | "q \<noteq> p" "q \<noteq> d" by blast
      then show ?thesis using u Some d t [of q] tracks_at_delete [OF old] tracks_at_set [OF t [of d], of new]
        by cases (simp_all add: tracker_apply_change_def tracker_apply_update_def Let_def
            record_baseline_maps apply_move_maps cong: if_cong split del: if_split flip: p_def)
    qed
  qed
qed

lemma apply_changes_track:
  "truthful cs v \<Longrightarrow> tracks env v0 v t \<Longrightarrow>
     tracks env v0 (replay cs v) (foldl (\<lambda>t c. tracker_apply_change env c t) t cs)"
proof (induction cs arbitrary: v t)
  case (Cons c cs)
  then show ?case using apply_change_tracks [of c v env v0 t] by (simp add: replay_def)
qed (simp add: replay_def)

lemma move_valid: "td_valid (tracker_apply_move src dest ow content t) = td_valid t"
  by (cases ow) (simp_all add: tracker_apply_move_def Let_def record_baseline_def)

lemma apply_change_valid: "td_valid (tracker_apply_change env c t) = td_valid t"
proof (cases "change c")
  case (Applied_Add content ow)
  then show ?thesis by (cases ow) (simp_all add: tracker_apply_change_def tracker_apply_add_def Let_def)
next
  case (Applied_Delete content)
  then show ?thesis by (simp add: tracker_apply_change_def tracker_apply_delete_def Let_def)
next
  case (Applied_Update mv old ow new)
  then show ?thesis
    by (cases mv) (simp_all add: tracker_apply_change_def tracker_apply_update_def Let_def move_valid record_baseline_def)
qed

lemma apply_changes_valid:
  "td_valid (foldl (\<lambda>t c. tracker_apply_change env c t) t cs) = td_valid t"
  by (induction cs arbitrary: t) (simp_all add: apply_change_valid)

text \<open>Renames stay within one environment.\<close>

definition same_environment :: "turn_diff_tracker \<Rightarrow> bool" where
  "same_environment t \<longleftrightarrow>
     (\<forall>e\<in>set (origin_by_current_path t). tp_environment_id (fst e) = tp_environment_id (snd e))"

lemma same_environment_new: "same_environment tracker_new"
  by (simp add: same_environment_def tracker_new_def)

lemma set_alist_delete: "set (AList.delete k al) \<subseteq> set al"
  by (auto simp: AList.delete_eq)

lemma set_alist_update: "set (AList.update k v al) \<subseteq> insert (k, v) (set al)"
  by (induction al) auto

lemma same_environment_origins:
  "same_environment t \<Longrightarrow> set (origin_by_current_path t') \<subseteq> set (origin_by_current_path t) \<Longrightarrow> same_environment t'"
  by (auto simp: same_environment_def)

lemma move_same_environment:
  assumes "same_environment t" "tp_environment_id src = tp_environment_id dest"
  shows "same_environment (tracker_apply_move src dest ow content t)"
proof -
  let ?t = "tracker_apply_move src dest ow content t"
  define origin where
    "origin = (case map_of (origin_by_current_path t) src of Some o' \<Rightarrow> o' | None \<Rightarrow> src)"
  have o: "tp_environment_id origin = tp_environment_id dest"
    using assms by (auto simp: origin_def same_environment_def split: option.splits dest!: map_of_SomeD)
  have "origin_by_current_path (record_baseline p c t) = origin_by_current_path t" for p c
    by (simp add: record_baseline_def)
  then have "origin_by_current_path ?t =
      (let m = AList.delete dest (AList.delete src (origin_by_current_path t))
       in if dest \<noteq> origin then AList.update dest origin m else m)"
    by (cases ow) (simp_all add: tracker_apply_move_def Let_def origin_def)
  then have "set (origin_by_current_path ?t) \<subseteq> insert (dest, origin) (set (origin_by_current_path t))"
    using set_alist_update [of dest origin "AList.delete dest (AList.delete src (origin_by_current_path t))"]
      set_alist_delete [of dest "AList.delete src (origin_by_current_path t)"]
      set_alist_delete [of src "origin_by_current_path t"]
    by (auto simp: Let_def split: if_splits)
  then show ?thesis using assms(1) o by (auto simp: same_environment_def)
qed

lemma apply_change_same_environment:
  assumes "same_environment t"
  shows "same_environment (tracker_apply_change env c t)"
proof (cases "change c")
  case (Applied_Add content ow)
  then show ?thesis using assms set_alist_delete
    by (cases ow) (auto simp: tracker_apply_change_def tracker_apply_add_def Let_def intro!: same_environment_origins [OF assms] dest!: subsetD [OF set_alist_delete])
next
  case (Applied_Delete content)
  then show ?thesis
    by (auto simp: tracker_apply_change_def tracker_apply_delete_def Let_def intro!: same_environment_origins [OF assms] dest!: subsetD [OF set_alist_delete])
next
  case (Applied_Update mv old ow new)
  have b: "same_environment (record_baseline p x t)" for p x
    by (rule same_environment_origins [OF assms]) (simp add: record_baseline_def)
  show ?thesis
  proof (cases mv)
    case None
    then show ?thesis using Applied_Update b
      by (auto simp: tracker_apply_change_def tracker_apply_update_def Let_def same_environment_def)
  next
    case (Some d)
    then show ?thesis using Applied_Update b
      by (simp add: tracker_apply_change_def tracker_apply_update_def Let_def) (intro move_same_environment, auto simp: tracked_def)
  qed
qed

lemma apply_changes_same_environment:
  "same_environment t \<Longrightarrow> same_environment (foldl (\<lambda>t c. tracker_apply_change env c t) t cs)"
  by (induction cs arbitrary: t) (simp_all add: apply_change_same_environment)

section \<open>What is rendered\<close>

lemma map_of_foldl_update:
  "map_of (foldl (\<lambda>m (k, v). AList.update k v m) m kvs) = map_of m ++ map_of (rev kvs)"
proof (induction kvs arbitrary: m)
  case (Cons kv kvs)
  obtain k v where "kv = (k, v)" by (cases kv)
  then show ?case using Cons by (simp add: update_conv' fun_upd_def map_add_def fun_eq_iff split: option.splits)
qed simp

lemma distinct_foldl_update:
  "distinct (map fst m) \<Longrightarrow> distinct (map fst (foldl (\<lambda>m (k, v). AList.update k v m) m kvs))"
  by (induction kvs arbitrary: m) (auto simp: distinct_update)

lemma rename_pairs_distinct: "distinct (map fst (rename_pairs t))"
  by (simp add: rename_pairs_def distinct_foldl_update)

lemma rename_pairs_entry:
  assumes "(origin_path, dest_path) \<in> set (rename_pairs t)"
  shows "\<not> contains_key (current_by_path t) origin_path" "contains_key (current_by_path t) dest_path"
    "contains_key (baseline_by_path t) origin_path" "\<not> contains_key (baseline_by_path t) dest_path"
proof -
  have "map_of (rename_pairs t) origin_path = Some dest_path"
    using assms by (simp add: rename_pairs_distinct)
  then have "map_of (rev (filter_map (rename_pair t) (origin_by_current_path t))) origin_path = Some dest_path"
    by (simp add: rename_pairs_def map_of_foldl_update)
  from map_of_SomeD [OF this] have "(origin_path, dest_path) \<in> set (filter_map (rename_pair t) (origin_by_current_path t))"
    by simp
  then obtain entry where "rename_pair t entry = Some (origin_path, dest_path)"
    unfolding set_filter_map by blast
  then show "\<not> contains_key (current_by_path t) origin_path" "contains_key (current_by_path t) dest_path"
    "contains_key (baseline_by_path t) origin_path" "\<not> contains_key (baseline_by_path t) dest_path"
    by (cases entry; simp add: rename_pair_def split: if_splits)+
qed

lemma rename_pairs_environment:
  assumes "same_environment t" "(origin_path, dest_path) \<in> set (rename_pairs t)"
  shows "tp_environment_id origin_path = tp_environment_id dest_path"
proof -
  have "map_of (rename_pairs t) origin_path = Some dest_path"
    using assms by (simp add: rename_pairs_distinct)
  then have "map_of (rev (filter_map (rename_pair t) (origin_by_current_path t))) origin_path = Some dest_path"
    by (simp add: rename_pairs_def map_of_foldl_update)
  from map_of_SomeD [OF this] obtain entry where e: "entry \<in> set (origin_by_current_path t)"
      "rename_pair t entry = Some (origin_path, dest_path)"
    by (auto simp: set_filter_map)
  have "entry = (dest_path, origin_path)" using e(2) by (cases entry rule: prod.exhaust) (simp add: rename_pair_def split: if_splits)
  then show ?thesis using e(1) assms(1) by (auto simp: same_environment_def)
qed

definition rendered :: "diff_lib \<Rightarrow> turn_diff_tracker \<Rightarrow> (tracked_path \<times> tracked_path) list \<Rightarrow> tracked_path \<Rightarrow> str option" where
  "rendered lib t pairs path =
     (case map_of pairs path of Some dest \<Rightarrow> render_rename_diff lib t path dest | None \<Rightarrow> render_path_diff lib t path)"

lemma render_diff_Some: "render_diff lib t p c q d = Some text \<Longrightarrow> text \<noteq> []"
  by (auto simp: render_diff_def Let_def text_eval split: option.splits if_splits)

lemma render_diff_None: "render_diff lib t p c q d = None \<longleftrightarrow> c = d"
  by (auto simp: render_diff_def Let_def split: option.splits)

lemma rendered_Some: "rendered lib t pairs path = Some text \<Longrightarrow> text \<noteq> []"
  by (auto simp: rendered_def render_rename_diff_def render_path_diff_def dest: render_diff_Some split: option.splits)

definition add_diff :: "str option \<Rightarrow> str \<Rightarrow> str" where
  "add_diff diff aggregated =
     (case diff of
        None \<Rightarrow> aggregated
      | Some d \<Rightarrow> (let a = aggregated @ d in if ends_with [newline] a then a else a @ [newline]))"

lemma diff_loop_render:
  assumes "path \<notin> set handled" "path \<notin> snd ` set pairs"
  shows "\<exists>handled'. set handled' \<subseteq> insert path (set handled) \<union> snd ` set pairs \<and>
     diff_loop lib t pairs (map snd pairs) (path # paths) handled aggregated =
     diff_loop lib t pairs (map snd pairs) paths handled' (add_diff (rendered lib t pairs path) aggregated)"
proof (cases "map_of pairs path")
  case None
  then show ?thesis using assms by (intro exI [of _ "path # handled"]) (auto simp: rendered_def add_diff_def Let_def)
next
  case (Some dest)
  then have "dest \<in> snd ` set pairs" by (force dest: map_of_SomeD)
  then show ?thesis using assms Some
    by (intro exI [of _ "dest # path # handled"]) (auto simp: rendered_def add_diff_def Let_def)
qed

lemma diff_loop_empty:
  "diff_loop lib t pairs (map snd pairs) paths handled aggregated = [] \<Longrightarrow>
     aggregated = [] \<and>
     (\<forall>path\<in>set paths. path \<in> set handled \<or> path \<in> snd ` set pairs \<or> rendered lib t pairs path = None)"
proof (induction paths arbitrary: handled aggregated)
  case (Cons path paths)
  show ?case
  proof (cases "path \<in> set handled \<or> path \<in> snd ` set pairs")
    case True
    define handled' where "handled' = (if path \<in> set handled then handled else path # handled)"
    have h: "set handled' \<subseteq> insert path (set handled)"
        "diff_loop lib t pairs (map snd pairs) paths handled' aggregated = []"
      using Cons.prems True by (cases "path \<in> set handled"; simp add: handled'_def Let_def subset_insertI)+
    show ?thesis
    proof (intro conjI ballI)
      show "aggregated = []" by (rule Cons.IH [OF h(2), THEN conjunct1])
      fix path'
      assume "path' \<in> set (path # paths)"
      then consider "path' = path" | "path' \<in> set paths" "path' \<noteq> path" by auto
      then show "path' \<in> set handled \<or> path' \<in> snd ` set pairs \<or> rendered lib t pairs path' = None"
        using True subsetD [OF h(1), of path'] bspec [OF Cons.IH [OF h(2), THEN conjunct2], of path']
        by cases (blast, auto)
    qed
  next
    case False
    then obtain handled' where h1: "set handled' \<subseteq> insert path (set handled) \<union> snd ` set pairs"
      and eq: "diff_loop lib t pairs (map snd pairs) (path # paths) handled aggregated =
        diff_loop lib t pairs (map snd pairs) paths handled' (add_diff (rendered lib t pairs path) aggregated)"
      using diff_loop_render by blast
    have h: "set handled' \<subseteq> insert path (set handled) \<union> snd ` set pairs"
        "diff_loop lib t pairs (map snd pairs) paths handled' (add_diff (rendered lib t pairs path) aggregated) = []"
      using h1 eq Cons.prems by simp_all
    have ih: "add_diff (rendered lib t pairs path) aggregated = []"
        "\<forall>path\<in>set paths. path \<in> set handled' \<or> path \<in> snd ` set pairs \<or> rendered lib t pairs path = None"
      using Cons.IH [OF h(2)] by auto
    have "rendered lib t pairs path = None" "aggregated = []"
      using ih(1) rendered_Some [of lib t pairs path]
      by (cases "rendered lib t pairs path"; simp add: add_diff_def Let_def split: if_splits)+
    then have path: "aggregated = []" "rendered lib t pairs path = None" by auto
    have "path' \<in> set handled \<or> path' \<in> snd ` set pairs \<or> rendered lib t pairs path' = None"
      if "path' \<in> set paths" for path'
    proof (cases "path' = path")
      case False
      then show ?thesis using bspec [OF ih(2) that] subsetD [OF h(1), of path'] by auto
    qed (simp add: path)
    then show ?thesis using path by simp
  qed
qed simp

lemma empty_diff_paths:
  assumes "get_unified_diff lib t = None" "td_valid t"
    and "contains_key (baseline_by_path t) p \<or> contains_key (current_by_path t) p"
  shows "p \<in> snd ` set (rename_pairs t) \<or> rendered lib t (rename_pairs t) p = None"
proof -
  define paths where
    "paths = remdups_adj (sort_key (display_path t) (map fst (baseline_by_path t) @ map fst (current_by_path t)))"
  have "p \<in> fst ` set (baseline_by_path t) \<or> p \<in> fst ` set (current_by_path t)"
    using assms(3) unfolding map_of_eq_None_iff by blast
  then have p: "p \<in> set paths" by (auto simp: paths_def)
  have "diff_loop lib t (rename_pairs t) (map snd (rename_pairs t)) paths [] [] = []"
    using assms(1,2) unfolding get_unified_diff_def Let_def paths_def [symmetric]
    by (simp del: diff_loop.simps split: if_splits)
  from diff_loop_empty [OF this] show ?thesis using p by simp
qed

lemma rename_rendered_None:
  assumes "(p, q) \<in> set (rename_pairs t)" "rendered lib t (rename_pairs t) p = None"
  shows "map_of (baseline_by_path t) p = map_of (current_by_path t) q"
proof -
  have "map_of (rename_pairs t) p = Some q" using assms(1) rename_pairs_distinct by simp
  then show ?thesis using assms(2) by (simp add: rendered_def render_rename_diff_def render_diff_None)
qed

section \<open>Properties\<close>



definition sample_diff_lib :: diff_lib where
  "sample_diff_lib = \<lparr>sha1_hex = (\<lambda>s. lit ''0''), lines_unified_diff = (\<lambda>n old new left right. lit ''@@'')\<rparr>"

definition renamed_tracker :: turn_diff_tracker where
  "renamed_tracker = \<lparr>td_valid = True, display_roots_by_environment = [],
     baseline_by_path = [(tracked [] (lit ''/a''), lit ''x'')],
     current_by_path = [(tracked [] (lit ''/b''), lit ''x'')],
     origin_by_current_path = [(tracked [] (lit ''/b''), tracked [] (lit ''/a''))]\<rparr>"

text \<open>
  C38: a valid tracker that reports no difference misses nothing but pure renames: every file has the
  contents of the start of the turn, or its whole contents have moved unchanged from or to another path.
\<close>

theorem empty_turn_diff_is_complete:
  assumes "tracks env v0 v t" and "same_environment t" and "td_valid t" and "get_unified_diff lib t = None"
  shows "v p = v0 p \<or> (\<exists>q. v p = None \<and> v0 q = None \<and> v q = v0 p) \<or>
     (\<exists>q. v0 p = None \<and> v q = None \<and> v p = v0 q)"
proof (cases "contains_key (baseline_by_path t) (tracked env p) \<or> contains_key (current_by_path t) (tracked env p)")
  case True
  note track = assms(1) [unfolded tracks_def tracks_path_def tracks_at_def, rule_format]
  show ?thesis
  proof (cases "\<exists>o'. (o', tracked env p) \<in> set (rename_pairs t)")
    case True
    then obtain o' where pair: "(o', tracked env p) \<in> set (rename_pairs t)" by blast
    obtain q where q: "o' = tracked env q" using rename_pairs_environment [OF assms(2) pair] by (cases o') (auto simp: tracked_def)
    have "rendered lib t (rename_pairs t) o' = None"
      using empty_diff_paths [OF assms(4,3), of o'] rename_pairs_entry(1,3) [OF pair] rename_pairs_entry(2)
      by fastforce
    then show ?thesis
      using rename_rendered_None [OF pair] rename_pairs_entry [OF pair] track [of p] track [of q] q
      by (intro disjI2 exI [of _ q]) auto
  next
    case False
    then have none: "rendered lib t (rename_pairs t) (tracked env p) = None"
      using empty_diff_paths [OF assms(4,3) True] by force
    show ?thesis
    proof (cases "map_of (rename_pairs t) (tracked env p)")
      case None
      then show ?thesis using none track [of p] True
        by (auto simp: rendered_def render_path_diff_def render_diff_None split: if_splits)
    next
      case (Some d)
      have pair: "(tracked env p, d) \<in> set (rename_pairs t)" by (rule map_of_SomeD [OF Some])
      obtain q where q: "d = tracked env q" using rename_pairs_environment [OF assms(2) pair] by (cases d) (auto simp: tracked_def)
      then show ?thesis
        using rename_rendered_None [OF pair none] rename_pairs_entry [OF pair] track [of p] track [of q]
        by (intro disjI2 disjI1 exI [of _ q]) auto
    qed
  qed
next
  case False
  then show ?thesis using assms(1) by (simp add: tracks_def tracks_path_def tracks_at_def)
qed

theorem empty_turn_diff_is_complete_witness:
  "get_unified_diff sample_diff_lib renamed_tracker = None \<and>
   (\<exists>q. [lit ''/a'' \<mapsto> lit ''x''] q = None \<and> [lit ''/b'' \<mapsto> lit ''x''] q = Some (lit ''x''))"
proof -
  have none: "get_unified_diff sample_diff_lib renamed_tracker = None"
    by (simp add: get_unified_diff_def renamed_tracker_def rename_pairs_def rename_pair_def display_path_def
        render_rename_diff_def render_diff_def text_eval)
  have "tracks [] [lit ''/a'' \<mapsto> lit ''x''] [lit ''/b'' \<mapsto> lit ''x''] renamed_tracker"
    by (auto simp: tracks_def tracks_path_def tracks_at_def renamed_tracker_def text_eval)
  moreover have "same_environment renamed_tracker" "td_valid renamed_tracker"
    by (simp_all add: same_environment_def renamed_tracker_def tracked_def)
  ultimately have "[lit ''/b'' \<mapsto> lit ''x''] (lit ''/a'') = [lit ''/a'' \<mapsto> lit ''x''] (lit ''/a'') \<or>
      (\<exists>q. [lit ''/b'' \<mapsto> lit ''x''] (lit ''/a'') = None \<and> [lit ''/a'' \<mapsto> lit ''x''] q = None \<and>
         [lit ''/b'' \<mapsto> lit ''x''] q = [lit ''/a'' \<mapsto> lit ''x''] (lit ''/a'')) \<or>
      (\<exists>q. [lit ''/a'' \<mapsto> lit ''x''] (lit ''/a'') = None \<and> [lit ''/b'' \<mapsto> lit ''x''] q = None \<and>
         [lit ''/b'' \<mapsto> lit ''x''] (lit ''/a'') = [lit ''/a'' \<mapsto> lit ''x''] q)"
    using none by (rule empty_turn_diff_is_complete)
  moreover have "lit ''/b'' \<noteq> lit ''/a''" by (simp add: text_eval)
  ultimately show ?thesis using none by auto
qed

end
