(* ===== verification/Utf8_Text.thy ===== *)
theory Utf8_Text
  imports Codex_Prelude "HOL-Library.Word"
begin

text \<open>
  The UTF-8 part of Rust's standard library that the output watchers call: \<open>str::as_bytes\<close>
  (\<open>utf8_encode_str\<close>), \<open>std::str::from_utf8(..).is_ok()\<close> (\<open>from_utf8_ok\<close>) and
  \<open>String::from_utf8_lossy\<close>. The decoder follows \<open>core::str\<close>: one round reads a well-formed
  character, or reports how many bytes of a malformed one to skip. The lemmas show that text
  survives encoding and decoding.
\<close>

type_synonym byte = "8 word"

section \<open>Encoding\<close>

text \<open>Unicode scalar values: code points that are not surrogates.\<close>

definition is_scalar :: "uchar \<Rightarrow> bool" where
  "is_scalar c \<longleftrightarrow> c < 0xD800 \<or> (0xE000 \<le> c \<and> c < 0x110000)"

definition byte_of :: "nat \<Rightarrow> byte" where
  "byte_of n = word_of_nat n"

definition utf8_encode :: "uchar \<Rightarrow> byte list" where
  "utf8_encode c =
    (if c < 0x80 then [byte_of c]
     else if c < 0x800 then [byte_of (0xC0 + c div 64), byte_of (0x80 + c mod 64)]
     else if c < 0x10000
     then [byte_of (0xE0 + c div 4096), byte_of (0x80 + c div 64 mod 64),
           byte_of (0x80 + c mod 64)]
     else [byte_of (0xF0 + c div 262144), byte_of (0x80 + c div 4096 mod 64),
           byte_of (0x80 + c div 64 mod 64), byte_of (0x80 + c mod 64)])"

definition utf8_encode_str :: "str \<Rightarrow> byte list" where
  "utf8_encode_str s = concat (map utf8_encode s)"

section \<open>Decoding\<close>

text \<open>A byte past the end reads as zero, which is not a continuation byte.\<close>

definition safe_get :: "byte list \<Rightarrow> nat \<Rightarrow> nat" where
  "safe_get bs i = (if i < length bs then unat (bs ! i) else 0)"

definition is_continuation :: "nat \<Rightarrow> bool" where
  "is_continuation y \<longleftrightarrow> 0x80 \<le> y \<and> y < 0xC0"

text \<open>Which second bytes may follow the first byte of a three- or four-byte character.\<close>

definition second_byte_ok :: "nat \<Rightarrow> nat \<Rightarrow> bool" where
  "second_byte_ok x y \<longleftrightarrow> is_continuation y \<and>
    (x = 0xE0 \<longrightarrow> 0xA0 \<le> y) \<and> (x = 0xED \<longrightarrow> y < 0xA0) \<and>
    (x = 0xF0 \<longrightarrow> 0x90 \<le> y) \<and> (x = 0xF4 \<longrightarrow> y < 0x90)"

text \<open>
  One round at the front of a non-empty slice: the character and its width, or \<open>None\<close> and the
  length of the malformed part.
\<close>

definition decode_step :: "byte list \<Rightarrow> uchar option \<times> nat" where
  "decode_step bs =
    (let x = safe_get bs 0; y = safe_get bs 1; z = safe_get bs 2; w = safe_get bs 3
     in if x < 0x80 then (Some x, 1)
        else if 0xC2 \<le> x \<and> x < 0xE0
        then (if is_continuation y then (Some ((x - 0xC0) * 64 + (y - 0x80)), 2) else (None, 1))
        else if 0xE0 \<le> x \<and> x < 0xF0
        then (if \<not> second_byte_ok x y then (None, 1)
              else if \<not> is_continuation z then (None, 2)
              else (Some ((x - 0xE0) * 4096 + (y - 0x80) * 64 + (z - 0x80)), 3))
        else if 0xF0 \<le> x \<and> x < 0xF5
        then (if \<not> second_byte_ok x y then (None, 1)
              else if \<not> is_continuation z then (None, 2)
              else if \<not> is_continuation w then (None, 3)
              else (Some ((x - 0xF0) * 262144 + (y - 0x80) * 4096 + (z - 0x80) * 64 + (w - 0x80)), 4))
        else (None, 1))"

lemma decode_step_progress: "decode_step bs = (r, n) \<Longrightarrow> 0 < n"
  by (auto simp: decode_step_def Let_def split: if_splits)

definition replacement_character :: uchar where
  "replacement_character = 0xFFFD"

function from_utf8_lossy :: "byte list \<Rightarrow> str" where
  "from_utf8_lossy bs =
    (if bs = [] then []
     else case decode_step bs of
            (Some c, n) \<Rightarrow> c # from_utf8_lossy (drop n bs)
          | (None, n) \<Rightarrow> replacement_character # from_utf8_lossy (drop n bs))"
  by auto

termination
  by (relation "measure length") (auto dest: decode_step_progress[OF sym])

function from_utf8_ok :: "byte list \<Rightarrow> bool" where
  "from_utf8_ok bs =
    (if bs = [] then True
     else case decode_step bs of
            (Some c, n) \<Rightarrow> from_utf8_ok (drop n bs)
          | (None, n) \<Rightarrow> False)"
  by auto

termination
  by (relation "measure length") (auto dest: decode_step_progress[OF sym])

declare from_utf8_lossy.simps [simp del] from_utf8_ok.simps [simp del]

lemma from_utf8_Nil [simp]: "from_utf8_lossy [] = []" "from_utf8_ok []"
  by (simp_all add: from_utf8_lossy.simps from_utf8_ok.simps)

section \<open>Round trip\<close>

lemma unat_byte_of [simp]: "n < 256 \<Longrightarrow> unat (byte_of n) = n"
  by (simp add: byte_of_def unat_of_nat)

lemma safe_get_simps [simp]:
  "safe_get (a # bs) 0 = unat a"
  "safe_get (a # b # bs) (Suc 0) = unat b"
  "safe_get (a # b # c # bs) 2 = unat c"
  "safe_get (a # b # c # d # bs) 3 = unat d"
  by (simp_all add: safe_get_def numeral_eq_Suc)

lemma length_utf8_encode: "length (utf8_encode c) = utf8_width c"
  by (simp add: utf8_encode_def utf8_width_def)

lemma length_utf8_encode_str: "length (utf8_encode_str s) = str_len s"
  by (induction s) (simp_all add: utf8_encode_str_def length_utf8_encode str_len_def)

lemma utf8_encode_nonempty [simp]: "utf8_encode c \<noteq> []"
  by (simp add: utf8_encode_def)

lemma decode_encode_1: "c < 0x80 \<Longrightarrow> decode_step (utf8_encode c @ bs) = (Some c, 1)"
  by (simp add: utf8_encode_def decode_step_def)

lemma decode_encode_2:
  assumes "0x80 \<le> c" "c < 0x800"
  shows "decode_step (utf8_encode c @ bs) = (Some c, 2)"
proof -
  have "2 \<le> c div 64" "c div 64 < 32" using assms by linarith+
  then show ?thesis
    using assms by (simp add: utf8_encode_def decode_step_def is_continuation_def)
qed

lemma decode_bytes_3:
  assumes "x < 16" "y < 64" "z < 64" "x = 0 \<longrightarrow> 32 \<le> y" "x = 13 \<longrightarrow> y < 32"
  shows "decode_step (byte_of (0xE0 + x) # byte_of (0x80 + y) # byte_of (0x80 + z) # bs)
    = (Some (x * 4096 + y * 64 + z), 3)"
  using assms by (simp add: decode_step_def is_continuation_def second_byte_ok_def Let_def)

lemma decode_bytes_4:
  assumes "x < 5" "y < 64" "z < 64" "w < 64" "x = 0 \<longrightarrow> 16 \<le> y" "x = 4 \<longrightarrow> y < 16"
  shows "decode_step (byte_of (0xF0 + x) # byte_of (0x80 + y) # byte_of (0x80 + z) # byte_of (0x80 + w) # bs)
    = (Some (x * 262144 + y * 4096 + z * 64 + w), 4)"
  using assms by (simp add: decode_step_def is_continuation_def second_byte_ok_def Let_def)

lemma base_64_digits:
  fixes c :: nat
  shows "c = c div 4096 * 4096 + c div 64 mod 64 * 64 + c mod 64"
    "c = c div 262144 * 262144 + c div 4096 mod 64 * 4096 + c div 64 mod 64 * 64 + c mod 64"
proof -
  have d: "c div 64 div 64 = c div 4096" "c div 4096 div 64 = c div 262144"
    by (simp_all flip: div_mult2_eq)
  show three: "c = c div 4096 * 4096 + c div 64 mod 64 * 64 + c mod 64"
    using div_mult_mod_eq[of c 64] div_mult_mod_eq[of "c div 64" 64] d by linarith
  show "c = c div 262144 * 262144 + c div 4096 mod 64 * 4096 + c div 64 mod 64 * 64 + c mod 64"
    using three div_mult_mod_eq[of "c div 4096" 64] d by linarith
qed

lemma decode_encode_3:
  assumes "0x800 \<le> c" "c < 0x10000" "is_scalar c"
  shows "decode_step (utf8_encode c @ bs) = (Some c, 3)"
proof -
  define x y z where "x = c div 4096" and "y = c div 64 mod 64" and "z = c mod 64"
  have c: "c = x * 4096 + y * 64 + z" and range: "x < 16" "y < 64" "z < 64"
    using assms base_64_digits(1)[of c] by (simp_all add: x_def y_def z_def)
  have "x = 0 \<longrightarrow> 32 \<le> y" "x = 13 \<longrightarrow> y < 32"
    using assms range unfolding c is_scalar_def by auto
  from decode_bytes_3[OF range this, of bs] show ?thesis
    using assms(1,2) by (simp add: utf8_encode_def flip: c x_def y_def z_def)
qed

lemma decode_encode_4:
  assumes "0x10000 \<le> c" "c < 0x110000"
  shows "decode_step (utf8_encode c @ bs) = (Some c, 4)"
proof -
  define x y z w where "x = c div 262144" and "y = c div 4096 mod 64" and "z = c div 64 mod 64" and "w = c mod 64"
  have c: "c = x * 262144 + y * 4096 + z * 64 + w" and range: "x < 5" "y < 64" "z < 64" "w < 64"
    using assms base_64_digits(2)[of c] by (simp_all add: x_def y_def z_def w_def)
  have "x = 0 \<longrightarrow> 16 \<le> y" "x = 4 \<longrightarrow> y < 16"
    using assms range unfolding c by auto
  from decode_bytes_4[OF range this, of bs] show ?thesis
    using assms by (simp add: utf8_encode_def flip: c x_def y_def z_def w_def)
qed

lemma decode_encode:
  assumes "is_scalar c"
  shows "decode_step (utf8_encode c @ bs) = (Some c, length (utf8_encode c))"
  using assms decode_encode_1[of c bs] decode_encode_2[of c bs] decode_encode_3[of c bs] decode_encode_4[of c bs]
  by (simp add: length_utf8_encode utf8_width_def is_scalar_def) linarith

lemma from_utf8_encode:
  assumes "is_scalar c"
  shows "from_utf8_lossy (utf8_encode c @ bs) = c # from_utf8_lossy bs"
    "from_utf8_ok (utf8_encode c @ bs) = from_utf8_ok bs"
  by (subst from_utf8_lossy.simps from_utf8_ok.simps, simp add: decode_encode[OF assms])+

lemma from_utf8_encode_str:
  assumes "list_all is_scalar s"
  shows "from_utf8_lossy (utf8_encode_str s @ bs) = s @ from_utf8_lossy bs"
    "from_utf8_ok (utf8_encode_str s @ bs) = from_utf8_ok bs"
  using assms by (induction s) (simp_all add: utf8_encode_str_def from_utf8_encode)

end
