(* ===== verification/Head_Tail_Buffer.thy ===== *)
theory Head_Tail_Buffer
  imports Utf8_Text "HOL-Library.While_Combinator"
begin

text \<open>
  The capped output buffer of the unified exec tool
  (\<open>codex-rs/core/src/unified_exec/head_tail_buffer.rs\<close>). Process output arrives in chunks; the
  buffer keeps a stable prefix and a moving suffix and counts what it drops between them. The
  deques are lists of byte chunks, the counters are kept in \<open>usize\<close> with their saturating sums, and
  the trimming loop is a \<open>while_option\<close>, so that a loop that does not end, like a slice that is out
  of range, would be the value \<open>None\<close>. The lemmas show that neither happens, and that the chunked
  state implements the one-line specification \<open>retained\<close> on the whole byte stream.
\<close>

section \<open>The buffer\<close>

record head_tail_buffer =
  max_bytes :: nat
  head_budget :: nat
  tail_budget :: nat
  head_chunks :: "byte list list"
  tail_chunks :: "byte list list"
  head_bytes :: nat
  tail_bytes :: nat
  omitted_bytes :: nat

definition unified_exec_output_max_bytes :: nat where
  "unified_exec_output_max_bytes = 1024 * 1024"

definition new_buffer :: "nat \<Rightarrow> head_tail_buffer" where
  "new_buffer limit =
    (let head_limit = limit div 2; tail_limit = limit - head_limit
     in \<lparr>max_bytes = limit, head_budget = head_limit, tail_budget = tail_limit,
         head_chunks = [], tail_chunks = [], head_bytes = 0, tail_bytes = 0, omitted_bytes = 0\<rparr>)"

definition default_buffer :: head_tail_buffer where
  "default_buffer = new_buffer unified_exec_output_max_bytes"

definition retained_bytes :: "head_tail_buffer \<Rightarrow> nat" where
  "retained_bytes b = saturating_add_usize (head_bytes b) (tail_bytes b)"

section \<open>Trimming and pushing\<close>

text \<open>
  One round of the loop in \<open>trim_tail_to_budget\<close>. The first component is false after a \<open>break\<close>, the
  second is the local \<open>excess\<close>.
\<close>

definition trim_round :: "bool \<times> nat \<times> head_tail_buffer \<Rightarrow> bool \<times> nat \<times> head_tail_buffer" where
  "trim_round s = (case s of (running, excess, b) \<Rightarrow>
     (case tail_chunks b of
        [] \<Rightarrow> (False, excess, b)
      | front # rest \<Rightarrow>
          if length front \<le> excess
          then (True, excess - length front,
                b\<lparr>tail_bytes := tail_bytes b - length front,
                  omitted_bytes := saturating_add_usize (omitted_bytes b) (length front),
                  tail_chunks := rest\<rparr>)
          else (False, excess,
                b\<lparr>tail_chunks := drop excess front # rest,
                  tail_bytes := tail_bytes b - excess,
                  omitted_bytes := saturating_add_usize (omitted_bytes b) excess\<rparr>)))"

definition trim_continues :: "bool \<times> nat \<times> head_tail_buffer \<Rightarrow> bool" where
  "trim_continues s = (case s of (running, excess, b) \<Rightarrow> running \<and> 0 < excess)"

definition trim_tail_to_budget :: "head_tail_buffer \<Rightarrow> head_tail_buffer option" where
  "trim_tail_to_budget b =
    map_option (\<lambda>(_, _, b'). b')
      (while_option trim_continues trim_round (True, tail_bytes b - tail_budget b, b))"

definition push_to_tail :: "byte list \<Rightarrow> head_tail_buffer \<Rightarrow> head_tail_buffer option" where
  "push_to_tail chunk b =
    (if tail_budget b = 0
     then Some (b\<lparr>omitted_bytes := saturating_add_usize (omitted_bytes b) (length chunk)\<rparr>)
     else if tail_budget b \<le> length chunk
     then (let start = length chunk - tail_budget b;
               kept = drop start chunk;
               dropped = length chunk - length kept
           in Some (b\<lparr>omitted_bytes :=
                        saturating_add_usize (saturating_add_usize (omitted_bytes b) (tail_bytes b)) dropped,
                      tail_bytes := length kept,
                      tail_chunks := [kept]\<rparr>))
     else trim_tail_to_budget
            (b\<lparr>tail_bytes := saturating_add_usize (tail_bytes b) (length chunk),
               tail_chunks := tail_chunks b @ [chunk]\<rparr>))"

definition push_chunk :: "byte list \<Rightarrow> head_tail_buffer \<Rightarrow> head_tail_buffer option" where
  "push_chunk chunk b =
    (if max_bytes b = 0
     then Some (b\<lparr>omitted_bytes := saturating_add_usize (omitted_bytes b) (length chunk)\<rparr>)
     else if head_bytes b < head_budget b
     then (let remaining_head = head_budget b - head_bytes b
           in if length chunk \<le> remaining_head
              then Some (b\<lparr>head_bytes := saturating_add_usize (head_bytes b) (length chunk),
                           head_chunks := head_chunks b @ [chunk]\<rparr>)
              else (let head_part = take remaining_head chunk;
                        tail_part = drop remaining_head chunk;
                        b' = (if head_part \<noteq> []
                              then b\<lparr>head_bytes := saturating_add_usize (head_bytes b) (length head_part),
                                     head_chunks := head_chunks b @ [head_part]\<rparr>
                              else b)
                    in push_to_tail tail_part b'))
     else push_to_tail chunk b)"

definition snapshot_chunks :: "head_tail_buffer \<Rightarrow> byte list list" where
  "snapshot_chunks b = head_chunks b @ tail_chunks b"

definition to_bytes :: "head_tail_buffer \<Rightarrow> byte list" where
  "to_bytes b = concat (head_chunks b) @ concat (tail_chunks b)"

definition drain_chunks :: "head_tail_buffer \<Rightarrow> byte list list \<times> head_tail_buffer" where
  "drain_chunks b =
    (head_chunks b @ tail_chunks b,
     b\<lparr>head_chunks := [], tail_chunks := [], head_bytes := 0, tail_bytes := 0, omitted_bytes := 0\<rparr>)"

text \<open>A producer: chunks pushed one after the other.\<close>

fun push_all :: "byte list list \<Rightarrow> head_tail_buffer \<Rightarrow> head_tail_buffer option" where
  "push_all [] b = Some b"
| "push_all (c # cs) b = Option.bind (push_chunk c b) (push_all cs)"

section \<open>Specification\<close>

text \<open>What a buffer of a given capacity retains of a whole byte stream.\<close>

definition last_n :: "nat \<Rightarrow> 'a list \<Rightarrow> 'a list" where
  "last_n k xs = drop (length xs - k) xs"

definition retained :: "nat \<Rightarrow> 'a list \<Rightarrow> 'a list" where
  "retained limit xs =
    (let k = limit div 2 in take k xs @ last_n (limit - k) (drop k xs))"

text \<open>The buffer state that stands for a byte stream.\<close>

definition buffers :: "nat \<Rightarrow> byte list \<Rightarrow> head_tail_buffer \<Rightarrow> bool" where
  "buffers limit xs b \<longleftrightarrow>
    max_bytes b = limit \<and> head_budget b = limit div 2 \<and> tail_budget b = limit - limit div 2 \<and>
    concat (head_chunks b) = take (limit div 2) xs \<and>
    concat (tail_chunks b) = last_n (limit - limit div 2) (drop (limit div 2) xs) \<and>
    head_bytes b = length (concat (head_chunks b)) \<and>
    tail_bytes b = length (concat (tail_chunks b)) \<and>
    omitted_bytes b = min usize_max (length xs - head_bytes b - tail_bytes b)"

lemma length_last_n [simp]: "length (last_n k xs) = min k (length xs)"
  by (simp add: last_n_def)

lemma last_n_short: "length xs \<le> k \<Longrightarrow> last_n k xs = xs"
  by (simp add: last_n_def)

lemma last_n_append_long: "k \<le> length ys \<Longrightarrow> last_n k (xs @ ys) = drop (length ys - k) ys"
  by (simp add: last_n_def)

lemma last_n_append_short:
  "length ys \<le> k \<Longrightarrow>
   last_n k (xs @ ys) = drop (length (last_n k xs) + length ys - k) (last_n k xs @ ys)"
proof (cases "k \<le> length xs")
  case True
  then show "length ys \<le> k \<Longrightarrow> ?thesis"
    by (simp add: last_n_def add.commute)
next
  case False
  then show "length ys \<le> k \<Longrightarrow> ?thesis"
    by (simp add: last_n_def)
qed

lemma length_retained: "length (retained limit xs) = min limit (length xs)"
  by (auto simp: retained_def Let_def)

lemma retained_short: "length xs \<le> limit \<Longrightarrow> retained limit xs = xs"
  by (simp add: retained_def Let_def last_n_short)

section \<open>The loop ends\<close>

lemma trim_continues_simp [simp]: "trim_continues (running, excess, b) \<longleftrightarrow> running \<and> 0 < excess"
  by (simp add: trim_continues_def)

lemma trim_loop_stops [simp]:
  "\<not> running \<or> excess = 0 \<Longrightarrow>
   while_option trim_continues trim_round (running, excess, b) = Some (running, excess, b)"
  by (subst while_option_unfold) auto

lemma trim_loop_returns: "while_option trim_continues trim_round (True, excess, b) \<noteq> None"
proof (induction "tail_chunks b" arbitrary: excess b)
  case Nil
  then show ?case
    by (subst while_option_unfold) (auto simp: trim_round_def)
next
  case (Cons front rest)
  show ?case
  proof (cases "0 < excess \<and> length front \<le> excess")
    case True
    then show ?thesis
      using Cons(1)[of "snd (snd (trim_round (True, excess, b)))" "excess - length front"] Cons(2)[symmetric]
      by (subst while_option_unfold) (simp add: trim_round_def)
  next
    case False
    then show ?thesis
      using Cons(2)[symmetric] by (subst while_option_unfold) (auto simp: trim_round_def)
  qed
qed

text \<open>What the loop leaves when the counters are exact: the first \<open>excess\<close> bytes are gone.\<close>

definition trimmed :: "nat \<Rightarrow> head_tail_buffer \<Rightarrow> head_tail_buffer \<Rightarrow> bool" where
  "trimmed excess b b' \<longleftrightarrow>
    concat (tail_chunks b') = drop excess (concat (tail_chunks b)) \<and>
    tail_bytes b' = tail_bytes b - excess \<and>
    omitted_bytes b' = saturating_add_usize (omitted_bytes b) excess \<and>
    b' = b\<lparr>tail_chunks := tail_chunks b', tail_bytes := tail_bytes b', omitted_bytes := omitted_bytes b'\<rparr>"

lemma trim_loop_trimmed:
  "excess \<le> length (concat (tail_chunks b)) \<Longrightarrow> omitted_bytes b \<le> usize_max \<Longrightarrow>
   while_option trim_continues trim_round (True, excess, b) = Some (running, rest_excess, b') \<Longrightarrow>
   trimmed excess b b'"
proof (induction "tail_chunks b" arbitrary: excess b)
  case Nil
  then show ?case by (simp add: trimmed_def saturating_add_usize_def)
next
  case (Cons front rest)
  let ?b = "snd (snd (trim_round (True, excess, b)))"
  consider "excess = 0" | "0 < excess" "length front \<le> excess" | "0 < excess" "excess < length front"
    by linarith
  then show ?case
  proof cases
    case 1
    then show ?thesis using Cons.prems by (simp add: trimmed_def saturating_add_usize_def)
  next
    case 2
    have front: "tail_chunks b = front # rest" using Cons(2) by simp
    have "trimmed (excess - length front) ?b b'"
      using Cons(1)[of ?b "excess - length front"] Cons.prems 2 front
      by (subst (asm) (2) while_option_unfold) (auto simp: trim_round_def saturating_add_usize_def)
    then show ?thesis
      using 2 front by (auto simp: trimmed_def trim_round_def saturating_add_usize_def)
  next
    case 3
    have front: "tail_chunks b = front # rest" using Cons(2) by simp
    show ?thesis
      using Cons.prems 3 front
      by (subst (asm) while_option_unfold)
        (auto simp: trimmed_def trim_round_def saturating_add_usize_def)
  qed
qed

section \<open>Refinement\<close>

lemma trim_tail_returns: "\<exists>b'. trim_tail_to_budget b = Some b'"
  using trim_loop_returns[of "tail_bytes b - tail_budget b" b] by (auto simp: trim_tail_to_budget_def)

lemma trim_tail_trimmed:
  assumes "tail_bytes b = length (concat (tail_chunks b))" "omitted_bytes b \<le> usize_max"
  obtains b' where "trim_tail_to_budget b = Some b'" "trimmed (tail_bytes b - tail_budget b) b b'"
proof -
  obtain running e b' where loop:
    "while_option trim_continues trim_round (True, tail_bytes b - tail_budget b, b) = Some (running, e, b')"
    using trim_loop_returns[of "tail_bytes b - tail_budget b" b] by (metis not_None_eq prod_cases3)
  have "trimmed (tail_bytes b - tail_budget b) b b'"
    using trim_loop_trimmed[OF _ _ loop] assms by simp
  then show thesis
    using that loop by (simp add: trim_tail_to_budget_def)
qed

lemma new_buffer_buffers: "buffers limit [] (new_buffer limit)"
  by (simp add: buffers_def new_buffer_def Let_def last_n_def)

lemma drain_new: "buffers limit xs b \<Longrightarrow> drain_chunks b = (snapshot_chunks b, new_buffer limit)"
  by (cases b) (simp add: buffers_def drain_chunks_def snapshot_chunks_def new_buffer_def Let_def)

lemma buffers_to_bytes: "buffers limit xs b \<Longrightarrow> to_bytes b = retained limit xs"
  by (simp add: buffers_def to_bytes_def retained_def Let_def)

lemma concat_snapshot: "concat (snapshot_chunks b) = to_bytes b"
  by (simp add: snapshot_chunks_def to_bytes_def)

lemma buffers_bytes:
  assumes "buffers limit xs b"
  shows "head_bytes b + tail_bytes b = min limit (length xs)"
proof -
  have "head_bytes b + tail_bytes b = length (to_bytes b)"
    using assms by (simp add: buffers_def to_bytes_def)
  then show ?thesis
    by (simp add: buffers_to_bytes[OF assms] length_retained)
qed

lemma buffers_counts:
  assumes "buffers limit xs b" "limit \<le> usize_max"
  shows "retained_bytes b = min limit (length xs)" "omitted_bytes b = min usize_max (length xs - limit)"
proof -
  note sum = buffers_bytes[OF assms(1)]
  show "retained_bytes b = min limit (length xs)"
    using sum assms(2) by (simp add: retained_bytes_def saturating_add_usize_def)
  have "omitted_bytes b = min usize_max (length xs - (head_bytes b + tail_bytes b))"
    using assms(1) by (simp add: buffers_def)
  then show "omitted_bytes b = min usize_max (length xs - limit)"
    unfolding sum by simp
qed

text \<open>Pushing to the tail once the head is full.\<close>

lemma buffers_full:
  assumes "limit div 2 \<le> length xs"
  shows "buffers limit xs b \<longleftrightarrow>
    max_bytes b = limit \<and> head_budget b = limit div 2 \<and> tail_budget b = limit - limit div 2 \<and>
    concat (head_chunks b) = take (limit div 2) xs \<and> head_bytes b = limit div 2 \<and>
    concat (tail_chunks b) = last_n (limit - limit div 2) (drop (limit div 2) xs) \<and>
    tail_bytes b = min (limit - limit div 2) (length xs - limit div 2) \<and>
    omitted_bytes b = min usize_max (length xs - limit div 2 - tail_bytes b)"
proof -
  have "concat (head_chunks b) = take (limit div 2) xs \<Longrightarrow>
        (head_bytes b = length (concat (head_chunks b))) = (head_bytes b = limit div 2)"
    using assms by simp
  moreover have "concat (tail_chunks b) = last_n (limit - limit div 2) (drop (limit div 2) xs) \<Longrightarrow>
        (tail_bytes b = length (concat (tail_chunks b)))
        = (tail_bytes b = min (limit - limit div 2) (length xs - limit div 2))"
    by simp
  ultimately show ?thesis
    unfolding buffers_def by metis
qed

lemma buffers_fullD:
  assumes "buffers limit xs b" "limit div 2 \<le> length xs"
  shows "max_bytes b = limit" "head_budget b = limit div 2" "tail_budget b = limit - limit div 2"
    "concat (head_chunks b) = take (limit div 2) xs" "head_bytes b = limit div 2"
    "concat (tail_chunks b) = last_n (limit - limit div 2) (drop (limit div 2) xs)"
    "tail_bytes b = min (limit - limit div 2) (length xs - limit div 2)"
    "omitted_bytes b = min usize_max (length xs - limit div 2 - tail_bytes b)"
  using assms(1) unfolding buffers_full[OF assms(2)] by blast+

lemma tail_budget_bounds:
  assumes "0 < limit" "limit \<le> usize_max"
  shows "0 < limit - limit div 2" "2 * (limit - limit div 2) \<le> usize_max + 1"
  using assms by linarith+

lemma push_to_tail_long:
  assumes "buffers limit xs b" "limit div 2 \<le> length xs" "0 < limit" "tail_budget b \<le> length c"
  shows "\<exists>b'. push_to_tail c b = Some b' \<and> buffers limit (xs @ c) b'"
proof -
  have full: "limit div 2 \<le> length (xs @ c)" using assms(2) by simp
  note b = buffers_fullD[OF assms(1,2)]
  define tb where "tb = limit - limit div 2"
  have long: "tb \<le> length c" and pos: "0 < tb" using assms(3,4) b(3) by (simp_all add: tb_def)
  let ?b' = "b\<lparr>omitted_bytes := saturating_add_usize (saturating_add_usize (omitted_bytes b) (tail_bytes b)) (length c - tb),
      tail_bytes := tb, tail_chunks := [drop (length c - tb) c]\<rparr>"
  have omitted: "omitted_bytes ?b' = min usize_max (length (xs @ c) - limit div 2 - tb)"
  proof -
    have "tail_bytes b \<le> length xs - limit div 2" unfolding b(7) by simp
    then show ?thesis using long assms(2) by (simp add: b(8))
  qed
  have "push_to_tail c b = Some ?b'"
    using long pos b(3) by (simp add: push_to_tail_def Let_def flip: tb_def)
  moreover have "buffers limit (xs @ c) ?b'"
    unfolding buffers_full[OF full] unfolding omitted
    using b(1-5) assms(2) long by (simp add: last_n_append_long flip: tb_def)
  ultimately show ?thesis by blast
qed

lemma push_to_tail_short:
  assumes "buffers limit xs b" "limit div 2 \<le> length xs" "0 < limit" "limit \<le> usize_max"
    "length c < tail_budget b"
  shows "\<exists>b'. push_to_tail c b = Some b' \<and> buffers limit (xs @ c) b'"
proof -
  have full: "limit div 2 \<le> length (xs @ c)" using assms(2) by simp
  note b = buffers_fullD[OF assms(1,2)]
  define tb where "tb = limit - limit div 2"
  define t where "t = tail_bytes b"
  have t: "t \<le> tb" "t \<le> length xs - limit div 2" "2 * tb \<le> usize_max + 1"
    unfolding t_def b(7) using tail_budget_bounds[OF assms(3,4)] by (simp_all add: tb_def)
  have c: "length c < tb" using assms(5) b(3) by (simp add: tb_def)
  let ?b = "b\<lparr>tail_bytes := t + length c, tail_chunks := tail_chunks b @ [c]\<rparr>"
  have no_wrap: "saturating_add_usize (tail_bytes b) (length c) = t + length c"
    using t c by (simp add: saturating_add_usize_def flip: t_def)
  have tail: "length (concat (tail_chunks b)) = t"
    unfolding b(6) t_def b(7) by simp
  obtain b' where b': "trim_tail_to_budget ?b = Some b'" "trimmed (t + length c - tb) ?b b'"
    using trim_tail_trimmed[of ?b] tail b(3) b(8) by (auto simp: tb_def)
  have b'_eq: "b' = ?b\<lparr>tail_chunks := tail_chunks b', tail_bytes := tail_bytes b', omitted_bytes := omitted_bytes b'\<rparr>"
    using b'(2) unfolding trimmed_def by blast
  have same: "max_bytes b' = limit" "head_budget b' = limit div 2" "tail_budget b' = limit - limit div 2"
       "concat (head_chunks b') = take (limit div 2) (xs @ c)" "head_bytes b' = limit div 2"
    by (subst b'_eq, use b(1-5) assms(2) in simp)+
  have tail': "concat (tail_chunks b') = last_n (limit - limit div 2) (drop (limit div 2) (xs @ c))"
    using b'(2) b(6) c assms(2) tail last_n_append_short[of c tb "drop (limit div 2) xs"]
    by (simp add: trimmed_def flip: tb_def)
  have bytes: "tail_bytes b' = min (limit - limit div 2) (length (xs @ c) - limit div 2)"
  proof -
    have "tail_bytes b' = length (concat (tail_chunks b'))"
      using b'(2) tail by (simp add: trimmed_def)
    then show ?thesis unfolding tail' using assms(2) by simp
  qed
  have omitted: "omitted_bytes b' = min usize_max (length (xs @ c) - limit div 2 - tail_bytes b')"
    using b'(2) b(8) t(2) assms(2) c by (simp add: trimmed_def flip: t_def)
  have "buffers limit (xs @ c) b'"
    unfolding buffers_full[OF full] using same tail' bytes omitted by blast
  moreover have "push_to_tail c b = Some b'"
    using c b'(1) unfolding push_to_tail_def b(3) no_wrap tb_def by simp
  ultimately show ?thesis by blast
qed

lemma push_to_tail_buffers:
  assumes "buffers limit xs b" "limit div 2 \<le> length xs" "0 < limit" "limit \<le> usize_max"
  shows "\<exists>b'. push_to_tail c b = Some b' \<and> buffers limit (xs @ c) b'"
  using push_to_tail_long[OF assms(1-3)] push_to_tail_short[OF assms(1-4)] by (meson not_less)

text \<open>Filling the head.\<close>

lemma buffers_short:
  assumes "length xs \<le> limit div 2"
  shows "buffers limit xs b \<longleftrightarrow>
    max_bytes b = limit \<and> head_budget b = limit div 2 \<and> tail_budget b = limit - limit div 2 \<and>
    concat (head_chunks b) = xs \<and> head_bytes b = length xs \<and>
    concat (tail_chunks b) = [] \<and> tail_bytes b = 0 \<and> omitted_bytes b = 0"
  using assms by (auto simp: buffers_def last_n_short)

lemma push_head_buffers:
  assumes "buffers limit xs b" "length xs + length c \<le> limit div 2" "limit \<le> usize_max"
  shows "buffers limit (xs @ c)
    (b\<lparr>head_bytes := saturating_add_usize (head_bytes b) (length c), head_chunks := head_chunks b @ [c]\<rparr>)"
proof -
  have "length xs \<le> limit div 2" "length (xs @ c) \<le> limit div 2" "length xs + length c \<le> usize_max"
    using assms by simp_all
  then show ?thesis
    using assms(1) by (simp add: buffers_short saturating_add_usize_def)
qed

lemma push_chunk_zero:
  "buffers 0 xs b \<Longrightarrow> \<exists>b'. push_chunk c b = Some b' \<and> buffers 0 (xs @ c) b'"
  by (simp add: buffers_full push_chunk_def last_n_def)

lemma push_chunk_buffers:
  assumes "buffers limit xs b" "limit \<le> usize_max"
  shows "\<exists>b'. push_chunk c b = Some b' \<and> buffers limit (xs @ c) b'"
proof -
  let ?k = "limit div 2 - length xs"
  consider "limit = 0" | "0 < limit" "limit div 2 \<le> length xs"
    | "0 < limit" "length xs + length c \<le> limit div 2" "length xs < limit div 2"
    | "0 < limit" "length xs < limit div 2" "limit div 2 < length xs + length c"
    by linarith
  then show ?thesis
  proof cases
    case 1
    then show ?thesis using push_chunk_zero assms(1) by simp
  next
    case 2
    then show ?thesis
      using push_to_tail_buffers[OF assms(1) 2(2,1) assms(2)] buffers_fullD[OF assms(1) 2(2)]
      by (simp add: push_chunk_def)
  next
    case 3
    then have "length c \<le> limit div 2 - length xs" by simp
    with 3 show ?thesis
      using push_head_buffers[OF assms(1) 3(2) assms(2)] assms(1) buffers_short[of xs limit b]
      by (simp add: push_chunk_def Let_def)
  next
    case 4
    let ?b = "b\<lparr>head_bytes := saturating_add_usize (head_bytes b) (length (take ?k c)),
                head_chunks := head_chunks b @ [take ?k c]\<rparr>"
    have part: "length (take ?k c) = ?k" "take ?k c \<noteq> []" "\<not> length c \<le> ?k" using 4 by auto
    have "buffers limit (xs @ take ?k c) ?b"
      using push_head_buffers[OF assms(1) _ assms(2), of "take ?k c"] 4 part by simp
    then obtain b' where "push_to_tail (drop ?k c) ?b = Some b'" "buffers limit ((xs @ take ?k c) @ drop ?k c) b'"
      using push_to_tail_buffers[of limit "xs @ take ?k c" ?b "drop ?k c"] 4 assms(2) part by auto
    moreover have "push_chunk c b = push_to_tail (drop ?k c) ?b"
      using 4 assms(1) buffers_short[of xs limit b] part
      by (simp add: push_chunk_def Let_def del: take_eq_Nil)
    ultimately show ?thesis by simp
  qed
qed

lemma push_all_buffers:
  "buffers limit xs b \<Longrightarrow> limit \<le> usize_max \<Longrightarrow>
   \<exists>b'. push_all cs b = Some b' \<and> buffers limit (xs @ concat cs) b'"
proof (induction cs arbitrary: xs b)
  case Nil
  then show ?case by simp
next
  case (Cons c cs)
  obtain b1 where b1: "push_chunk c b = Some b1" "buffers limit (xs @ c) b1"
    using push_chunk_buffers[OF Cons.prems] by blast
  then show ?case
    using Cons.IH[OF b1(2) Cons.prems(2)] by simp
qed

section \<open>Properties\<close>

text \<open>
  The trimming loop of the tail always ends and no slice of it is out of range: pushing a chunk
  returns a buffer from every buffer state, reachable or not.
\<close>

theorem push_chunk_terminates: "\<exists>b'. push_chunk chunk b = Some b'"
proof -
  have tail: "\<exists>b'. push_to_tail c b1 = Some b'" for c b1
    unfolding push_to_tail_def using trim_tail_returns by (auto simp: Let_def)
  show ?thesis
    unfolding push_chunk_def Let_def using tail by simp
qed

text \<open>
  C7: The buffer implements its contract on the whole byte stream. Whatever the chunk boundaries,
  after the chunks of a stream have been pushed into a new buffer the retained bytes are the first
  half of the capacity and the last half of what follows; the snapshot holds the same bytes; the
  counters give the number of retained bytes, at most the capacity, and the number of dropped bytes
  (in a saturating \<open>usize\<close>); and draining returns that content and leaves a new buffer.
\<close>

theorem head_tail_buffer_refines_stream:
  assumes "limit \<le> usize_max"
  shows "\<exists>b. push_all chunks (new_buffer limit) = Some b
    \<and> to_bytes b = retained limit (concat chunks)
    \<and> concat (snapshot_chunks b) = to_bytes b
    \<and> retained_bytes b = min limit (length (concat chunks))
    \<and> omitted_bytes b = min usize_max (length (concat chunks) - limit)
    \<and> drain_chunks b = (snapshot_chunks b, new_buffer limit)"
proof -
  obtain b where b: "push_all chunks (new_buffer limit) = Some b" "buffers limit (concat chunks) b"
    using push_all_buffers[OF new_buffer_buffers assms, of chunks] by auto
  then show ?thesis
    using buffers_to_bytes[OF b(2)] concat_snapshot buffers_counts[OF b(2) assms] drain_new[OF b(2)]
    by blast
qed

text \<open>Five bytes in three chunks, capacity three: the first byte and the last two remain.\<close>

theorem head_tail_buffer_refines_stream_witness:
  "(3::nat) \<le> usize_max \<and>
   (\<exists>b. push_all [[1, 2], [], [3, 4, 5]] (new_buffer 3) = Some b \<and> to_bytes b = [1, 4, 5]
      \<and> omitted_bytes b = 2)"
  using head_tail_buffer_refines_stream[of 3 "[[1, 2], [], [3, 4, 5]]"]
  by (auto simp: usize_max_def retained_def last_n_def Let_def)

end
