(* ===== verification/Exec_Output_Watcher.thy ===== *)
theory Exec_Output_Watcher
  imports Head_Tail_Buffer
begin

text \<open>
  The two background tasks of a unified exec session
  (\<open>codex-rs/core/src/unified_exec/async_watcher.rs\<close>): the streamer, which appends process output to
  the shared transcript and emits output deltas, and the exit watcher, which emits the final event.
  The sequential parts (\<open>split_valid_utf8_prefix_with_max\<close>, \<open>process_chunk\<close>, the construction of
  the final output) are functions; the interleaving of the two tasks with the process is the step
  relation \<open>watch_step\<close>, whose actions are the branches of the streamer's \<open>select!\<close>, the watcher's
  awaits, and the cancellation of the exit token. What the broadcast receiver returns, the exit
  status and the clock are inputs carried by the actions.
\<close>

section \<open>Splitting pending output\<close>

definition unified_exec_output_delta_max_bytes :: nat where
  "unified_exec_output_delta_max_bytes = 8192"

definition max_exec_output_deltas_per_call :: nat where
  "max_exec_output_deltas_per_call = 10000"

text \<open>The search for a split point, from \<open>max_len\<close> downwards, at most six attempts.\<close>

fun find_split :: "byte list \<Rightarrow> nat \<Rightarrow> nat \<Rightarrow> nat option" where
  "find_split buffer max_len 0 = None"
| "find_split buffer max_len (Suc n) =
    (if from_utf8_ok (take (Suc n) buffer) then Some (Suc n)
     else if 4 < max_len - Suc n then None
     else find_split buffer max_len n)"

text \<open>The emitted prefix and the rest of the buffer.\<close>

definition split_valid_utf8_prefix_with_max ::
    "byte list \<Rightarrow> nat \<Rightarrow> (byte list \<times> byte list) option" where
  "split_valid_utf8_prefix_with_max buffer limit =
    (if buffer = [] then None
     else let max_len = min (length buffer) limit
          in case find_split buffer max_len max_len of
               Some split \<Rightarrow> Some (take split buffer, drop split buffer)
             | None \<Rightarrow> Some (take 1 buffer, drop 1 buffer))"

definition split_valid_utf8_prefix :: "byte list \<Rightarrow> (byte list \<times> byte list) option" where
  "split_valid_utf8_prefix buffer =
    split_valid_utf8_prefix_with_max buffer unified_exec_output_delta_max_bytes"

section \<open>Session state\<close>

record exec_tool_call_output =
  exit_code :: int
  stdout :: str
  stderr :: str
  aggregated_output :: str
  duration :: nat
  timed_out :: bool

datatype exec_event =
    Output_Delta "byte list"
  | Exec_Success exec_tool_call_output
  | Exec_Failure exec_tool_call_output

text \<open>
  \<open>pending\<close>, \<open>emitted_deltas\<close> and \<open>grace_sleep\<close> are the streamer's locals, \<open>streaming\<close> says that it
  has not left its loop; \<open>transcript\<close> is shared; \<open>cancelled\<close> is the exit token, \<open>drained\<close> the
  permit of \<open>output_drained\<close>; \<open>waiting\<close> says that the exit watcher has not emitted yet; \<open>events\<close> are
  the events sent to the session.
\<close>

record watch_state =
  pending :: "byte list"
  emitted_deltas :: nat
  transcript :: head_tail_buffer
  events :: "exec_event list"
  streaming :: bool
  grace_sleep :: bool
  cancelled :: bool
  drained :: bool
  waiting :: bool

definition initial_watch :: watch_state where
  "initial_watch = \<lparr>pending = [], emitted_deltas = 0, transcript = default_buffer, events = [],
     streaming = True, grace_sleep = False, cancelled = False, drained = False, waiting = True\<rparr>"

section \<open>Processing a chunk\<close>

lemma split_prefix_shorter:
  "split_valid_utf8_prefix buffer = Some (emitted, rest) \<Longrightarrow> length rest < length buffer"
proof -
  have pos: "find_split b m n = Some k \<Longrightarrow> 0 < k" for b m n k
    by (induction b m n rule: find_split.induct) (auto split: if_splits)
  show "split_valid_utf8_prefix buffer = Some (emitted, rest) \<Longrightarrow> length rest < length buffer"
    by (auto simp: split_valid_utf8_prefix_def split_valid_utf8_prefix_with_max_def Let_def
        split: if_splits option.splits dest: pos)
qed

function process_pending :: "watch_state \<Rightarrow> watch_state option" where
  "process_pending w =
    (case split_valid_utf8_prefix (pending w) of
       None \<Rightarrow> Some w
     | Some (emitted, rest) \<Rightarrow>
         (case push_chunk emitted (transcript w) of
            None \<Rightarrow> None
          | Some t \<Rightarrow>
              if max_exec_output_deltas_per_call \<le> emitted_deltas w
              then process_pending (w\<lparr>pending := rest, transcript := t\<rparr>)
              else process_pending
                     (w\<lparr>pending := rest, transcript := t,
                        events := events w @ [Output_Delta emitted],
                        emitted_deltas := emitted_deltas w + 1\<rparr>)))"
  by auto

termination
  by (relation "measure (\<lambda>w. length (pending w))") (auto dest: split_prefix_shorter)

declare process_pending.simps [simp del]

definition process_chunk :: "byte list \<Rightarrow> watch_state \<Rightarrow> watch_state option" where
  "process_chunk chunk w = process_pending (w\<lparr>pending := pending w @ chunk\<rparr>)"

section \<open>The final event\<close>

definition resolve_aggregated_output :: "head_tail_buffer \<Rightarrow> str \<Rightarrow> str" where
  "resolve_aggregated_output t fallback =
    (if retained_bytes t = 0 then fallback else from_utf8_lossy (to_bytes t))"

definition exec_end :: "head_tail_buffer \<Rightarrow> str \<Rightarrow> int \<Rightarrow> nat \<Rightarrow> exec_event" where
  "exec_end t fallback code elapsed =
    (let text = resolve_aggregated_output t fallback
     in Exec_Success \<lparr>exit_code = code, stdout = text, stderr = [], aggregated_output = text,
                      duration = elapsed, timed_out = False\<rparr>)"

definition failed_exec_end :: "head_tail_buffer \<Rightarrow> str \<Rightarrow> str \<Rightarrow> nat \<Rightarrow> exec_event" where
  "failed_exec_end t fallback message elapsed =
    (let out = (if fallback = [] then resolve_aggregated_output t fallback else fallback);
         text = (if out = [] then message else out @ [newline] @ message)
     in Exec_Failure \<lparr>exit_code = -1, stdout = out, stderr = message, aggregated_output = text,
                      duration = elapsed, timed_out = False\<rparr>)"

section \<open>Interleaving\<close>

datatype recv_result = Received "byte list" | Lagged | Closed

text \<open>The failure message and the exit code are what the process reports when the watcher asks.\<close>

datatype watch_action =
    Cancel
  | Streamer_Grace_Starts
  | Streamer_Grace_Ends
  | Streamer_Recv recv_result
  | Watcher_Emits "str option" "int option" nat

definition exit_event :: "head_tail_buffer \<Rightarrow> str option \<Rightarrow> int option \<Rightarrow> nat \<Rightarrow> exec_event" where
  "exit_event t failure code elapsed =
    (case failure of
       Some message \<Rightarrow> failed_exec_end t [] message elapsed
     | None \<Rightarrow> exec_end t [] (case code of Some c \<Rightarrow> c | None \<Rightarrow> -1) elapsed)"

inductive watch_step :: "watch_state \<Rightarrow> watch_action \<Rightarrow> watch_state \<Rightarrow> bool" where
  cancel: "watch_step w Cancel (w\<lparr>cancelled := True\<rparr>)"
| grace_starts: "streaming w \<Longrightarrow> \<not> grace_sleep w \<Longrightarrow> cancelled w \<Longrightarrow>
    watch_step w Streamer_Grace_Starts (w\<lparr>grace_sleep := True\<rparr>)"
| grace_ends: "streaming w \<Longrightarrow> grace_sleep w \<Longrightarrow>
    watch_step w Streamer_Grace_Ends (w\<lparr>drained := True, streaming := False\<rparr>)"
| recv_chunk: "streaming w \<Longrightarrow> process_chunk chunk w = Some w' \<Longrightarrow>
    watch_step w (Streamer_Recv (Received chunk)) w'"
| recv_lagged: "streaming w \<Longrightarrow> watch_step w (Streamer_Recv Lagged) w"
| recv_closed: "streaming w \<Longrightarrow>
    watch_step w (Streamer_Recv Closed) (w\<lparr>drained := True, streaming := False\<rparr>)"
| watcher_emits: "waiting w \<Longrightarrow> cancelled w \<Longrightarrow> drained w \<Longrightarrow>
    watch_step w (Watcher_Emits failure code elapsed)
      (w\<lparr>drained := False, waiting := False,
         events := events w @ [exit_event (transcript w) failure code elapsed]\<rparr>)"

inductive watch_run :: "watch_action list \<Rightarrow> watch_state \<Rightarrow> bool" where
  start: "watch_run [] initial_watch"
| step: "watch_run acts w \<Longrightarrow> watch_step w act w' \<Longrightarrow> watch_run (acts @ [act]) w'"

text \<open>The bytes that the streamer received in a run.\<close>

fun received_bytes :: "watch_action list \<Rightarrow> byte list" where
  "received_bytes [] = []"
| "received_bytes (Streamer_Recv (Received chunk) # acts) = chunk @ received_bytes acts"
| "received_bytes (_ # acts) = received_bytes acts"

section \<open>Properties of splitting\<close>

text \<open>
  What a delta may be: not empty, within the size cap, and either well-formed UTF-8 or a single byte.
\<close>

definition delta_ok :: "byte list \<Rightarrow> bool" where
  "delta_ok d \<longleftrightarrow> d \<noteq> [] \<and> length d \<le> unified_exec_output_delta_max_bytes \<and>
    (from_utf8_ok d \<or> length d = 1)"

lemma find_split_Some:
  "find_split buffer max_len n = Some k \<Longrightarrow> 0 < k \<and> k \<le> n \<and> from_utf8_ok (take k buffer)"
  by (induction buffer max_len n rule: find_split.induct) (auto split: if_splits)

lemma split_prefix_None: "split_valid_utf8_prefix buffer = None \<longleftrightarrow> buffer = []"
  by (auto simp: split_valid_utf8_prefix_def split_valid_utf8_prefix_with_max_def Let_def
      split: option.splits)

lemma split_prefix_Some:
  assumes "split_valid_utf8_prefix buffer = Some (emitted, rest)"
  shows "buffer = emitted @ rest" "delta_ok emitted"
proof -
  let ?m = "min (length buffer) unified_exec_output_delta_max_bytes"
  consider k where "find_split buffer ?m ?m = Some k" "emitted = take k buffer" "rest = drop k buffer"
    | "emitted = take 1 buffer" "rest = drop 1 buffer" "buffer \<noteq> []"
    using assms
    by (auto simp: split_valid_utf8_prefix_def split_valid_utf8_prefix_with_max_def Let_def
        split: if_splits option.splits)
  then have "buffer = emitted @ rest \<and> delta_ok emitted"
  proof cases
    case 1
    then show ?thesis using find_split_Some[OF 1(1)] by (auto simp: delta_ok_def)
  next
    case 2
    then show ?thesis
      by (cases buffer) (simp_all add: delta_ok_def unified_exec_output_delta_max_bytes_def)
  qed
  then show "buffer = emitted @ rest" "delta_ok emitted" by simp_all
qed

section \<open>Properties of processing a chunk\<close>

text \<open>
  The effect of a \<open>process_chunk\<close> on the streamer: the pending bytes went to the transcript, and the
  deltas \<open>ds\<close> were emitted for them up to the bytes \<open>rest\<close> that came after the last allowed delta.
\<close>

definition streams_out ::
    "nat \<Rightarrow> byte list \<Rightarrow> watch_state \<Rightarrow> byte list list \<Rightarrow> byte list \<Rightarrow> watch_state \<Rightarrow> bool" where
  "streams_out limit seen w ds rest w' \<longleftrightarrow>
    pending w = concat ds @ rest \<and> list_all delta_ok ds \<and>
    (rest \<noteq> [] \<longrightarrow> max_exec_output_deltas_per_call \<le> emitted_deltas w + length ds) \<and>
    (ds \<noteq> [] \<longrightarrow> emitted_deltas w + length ds \<le> max_exec_output_deltas_per_call) \<and>
    (\<exists>t. buffers limit (seen @ pending w) t \<and>
         w' = w\<lparr>pending := [], transcript := t, events := events w @ map Output_Delta ds,
                emitted_deltas := emitted_deltas w + length ds\<rparr>)"

lemma process_pending_streams_out:
  "buffers limit seen (transcript w) \<Longrightarrow> limit \<le> usize_max \<Longrightarrow>
   \<exists>w' ds rest. process_pending w = Some w' \<and> streams_out limit seen w ds rest w'"
proof (induction w arbitrary: seen rule: process_pending.induct)
  case (1 w)
  show ?case
  proof (cases "split_valid_utf8_prefix (pending w)")
    case None
    then have "streams_out limit seen w [] [] w"
      using 1(3) by (auto simp: streams_out_def split_prefix_None intro!: exI[of _ "transcript w"])
    then show ?thesis
      using None by (subst process_pending.simps) auto
  next
    case (Some p)
    obtain emitted rest where p: "p = (emitted, rest)" by fastforce
    note split = split_prefix_Some[OF Some[unfolded p]]
    obtain t where t: "push_chunk emitted (transcript w) = Some t" "buffers limit (seen @ emitted) t"
      using push_chunk_buffers[OF 1(3,4)] by blast
    show ?thesis
    proof (cases "max_exec_output_deltas_per_call \<le> emitted_deltas w")
      case True
      let ?w = "w\<lparr>pending := rest, transcript := t\<rparr>"
      obtain w' ds r where w': "process_pending ?w = Some w'" "streams_out limit (seen @ emitted) ?w ds r w'"
        using 1(1)[OF Some p[symmetric] t(1) True, of "seen @ emitted"] t(2) 1(4) by auto
      have "ds = []" using w'(2) True by (cases ds) (auto simp: streams_out_def)
      then have "streams_out limit seen w [] (pending w) w'"
        using w'(2) True split(1) by (auto simp: streams_out_def)
      then show ?thesis
        using w'(1) Some p t(1) True by (subst process_pending.simps) auto
    next
      case False
      let ?w = "w\<lparr>pending := rest, transcript := t, events := events w @ [Output_Delta emitted],
                  emitted_deltas := emitted_deltas w + 1\<rparr>"
      obtain w' ds r where w': "process_pending ?w = Some w'" "streams_out limit (seen @ emitted) ?w ds r w'"
        using 1(2)[OF Some p[symmetric] t(1) False, of "seen @ emitted"] t(2) 1(4) by auto
      then have "streams_out limit seen w (emitted # ds) r w'"
        using False split by (auto simp: streams_out_def)
      then show ?thesis
        using w'(1) Some p t(1) False by (subst process_pending.simps) auto
    qed
  qed
qed

lemma process_chunk_streams_out:
  assumes "buffers limit seen (transcript w)" "limit \<le> usize_max" "pending w = []"
  shows "\<exists>w' ds rest. process_chunk chunk w = Some w' \<and> streams_out limit seen (w\<lparr>pending := chunk\<rparr>) ds rest w'"
  using process_pending_streams_out[of limit seen "w\<lparr>pending := chunk\<rparr>"] assms
  by (simp add: process_chunk_def)

section \<open>Invariants of a run\<close>

lemma received_bytes_append [simp]:
  "received_bytes (acts @ acts') = received_bytes acts @ received_bytes acts'"
  by (induction acts rule: received_bytes.induct) simp_all

inductive_cases watch_stepE: "watch_step w act w'"

text \<open>The control state: who may still move.\<close>

definition control_inv :: "watch_state \<Rightarrow> bool" where
  "control_inv w \<longleftrightarrow>
    (streaming w \<longrightarrow> waiting w \<and> \<not> drained w) \<and>
    (\<not> streaming w \<and> waiting w \<longrightarrow> drained w) \<and>
    (\<not> waiting w \<longrightarrow> cancelled w)"

text \<open>The data: what the transcript holds and what was emitted for the received bytes.\<close>

definition data_inv :: "byte list \<Rightarrow> watch_state \<Rightarrow> bool" where
  "data_inv bytes w \<longleftrightarrow>
    pending w = [] \<and> buffers unified_exec_output_max_bytes bytes (transcript w) \<and>
    (\<exists>ds rest. bytes = concat ds @ rest \<and> list_all delta_ok ds \<and>
       (rest \<noteq> [] \<longrightarrow> length ds = max_exec_output_deltas_per_call) \<and>
       length ds \<le> max_exec_output_deltas_per_call \<and> emitted_deltas w = length ds \<and>
       (if waiting w then events w = map Output_Delta ds
        else \<exists>failure code elapsed.
               events w = map Output_Delta ds @ [exit_event (transcript w) failure code elapsed]))"

lemma capacity_usize: "unified_exec_output_max_bytes \<le> usize_max"
  by (simp add: unified_exec_output_max_bytes_def usize_max_def)

lemma data_inv_flags [simp]:
  "data_inv bytes (w\<lparr>cancelled := x\<rparr>) = data_inv bytes w"
  "data_inv bytes (w\<lparr>grace_sleep := x\<rparr>) = data_inv bytes w"
  "data_inv bytes (w\<lparr>drained := x, streaming := y\<rparr>) = data_inv bytes w"
  by (simp_all add: data_inv_def)

lemma data_inv_initial: "data_inv [] initial_watch"
  using new_buffer_buffers by (simp add: data_inv_def initial_watch_def default_buffer_def)

lemma control_inv_initial: "control_inv initial_watch"
  by (simp add: control_inv_def initial_watch_def)

lemma data_inv_chunk:
  assumes "data_inv bytes w" "waiting w" "process_chunk chunk w = Some w'"
  shows "data_inv (bytes @ chunk) w'" "streaming w' = streaming w" "waiting w' = waiting w"
    "drained w' = drained w" "cancelled w' = cancelled w"
proof -
  obtain ds rest where ds: "bytes = concat ds @ rest" "list_all delta_ok ds"
    "rest \<noteq> [] \<Longrightarrow> length ds = max_exec_output_deltas_per_call"
    "length ds \<le> max_exec_output_deltas_per_call" "emitted_deltas w = length ds"
    "events w = map Output_Delta ds"
    and pend: "pending w = []" and buf: "buffers unified_exec_output_max_bytes bytes (transcript w)"
    using assms(1,2) by (auto simp: data_inv_def)
  obtain ds' rest' t where
    out: "chunk = concat ds' @ rest'" "list_all delta_ok ds'"
      "rest' \<noteq> [] \<Longrightarrow> max_exec_output_deltas_per_call \<le> emitted_deltas w + length ds'"
      "ds' \<noteq> [] \<Longrightarrow> emitted_deltas w + length ds' \<le> max_exec_output_deltas_per_call"
      "buffers unified_exec_output_max_bytes (bytes @ chunk) t"
    and w': "w' = w\<lparr>pending := [], transcript := t, events := events w @ map Output_Delta ds',
                emitted_deltas := emitted_deltas w + length ds'\<rparr>"
    using process_chunk_streams_out[OF buf capacity_usize pend, of chunk] assms(3)
    by (auto simp: streams_out_def)
  show "streaming w' = streaming w" "waiting w' = waiting w" "drained w' = drained w" "cancelled w' = cancelled w"
    by (simp_all add: w')
  have none: "ds' = []" if "rest \<noteq> []"
    using ds(3)[OF that] out(4) ds(5) by (cases ds') auto
  have bytes: "bytes @ chunk = concat (ds @ ds') @ rest @ rest'"
    using ds(1) out(1) none by (cases "rest = []") auto
  have "rest @ rest' \<noteq> [] \<longrightarrow> length (ds @ ds') = max_exec_output_deltas_per_call"
    using ds(3,4,5) out(3,4) none by (cases "rest = []"; cases "ds' = []") auto
  moreover have "length (ds @ ds') \<le> max_exec_output_deltas_per_call"
    using ds(4,5) out(4) by (cases "ds' = []") auto
  ultimately show "data_inv (bytes @ chunk) w'"
    unfolding data_inv_def using bytes out(2,5) ds(2,5,6) assms(2)
    by (auto simp: w' intro!: exI[of _ "ds @ ds'"] exI[of _ "rest @ rest'"])
qed

lemma data_inv_emit:
  assumes "data_inv bytes w" "waiting w"
  shows "data_inv bytes (w\<lparr>drained := False, waiting := False,
    events := events w @ [exit_event (transcript w) failure code elapsed]\<rparr>)"
proof -
  obtain ds rest where "bytes = concat ds @ rest \<and> list_all delta_ok ds \<and>
       (rest \<noteq> [] \<longrightarrow> length ds = max_exec_output_deltas_per_call) \<and>
       length ds \<le> max_exec_output_deltas_per_call \<and> emitted_deltas w = length ds \<and>
       events w = map Output_Delta ds"
    using assms unfolding data_inv_def by metis
  then show ?thesis
    using assms(1) unfolding data_inv_def by (intro conjI exI[of _ ds] exI[of _ rest]) auto
qed

lemma watch_step_inv:
  assumes "watch_step w act w'" "control_inv w" "data_inv bytes w"
  shows "control_inv w' \<and> data_inv (bytes @ received_bytes [act]) w'"
  using assms(1)
proof (cases rule: watch_step.cases)
  case (recv_chunk chunk)
  have "waiting w" using recv_chunk assms(2) by (simp add: control_inv_def)
  note chunk = data_inv_chunk[OF assms(3) this recv_chunk(3)]
  then show ?thesis
    using assms(2) recv_chunk(1) by (simp add: control_inv_def)
next
  case (watcher_emits failure code elapsed)
  then show ?thesis
    using data_inv_emit[OF assms(3), of failure code elapsed] assms(2) by (simp add: control_inv_def)
qed (use assms(2,3) in \<open>auto simp: control_inv_def\<close>)

lemma watch_run_inv: "watch_run acts w \<Longrightarrow> control_inv w \<and> data_inv (received_bytes acts) w"
proof (induction rule: watch_run.induct)
  case start
  then show ?case by (simp add: control_inv_initial data_inv_initial)
next
  case (step acts w act w')
  then show ?case using watch_step_inv[of w act w' "received_bytes acts"] by simp
qed

section \<open>Liveness\<close>

text \<open>The steps that the two tasks take by themselves, with no further output from the process.\<close>

definition task_action :: "watch_action \<Rightarrow> bool" where
  "task_action act = (case act of Cancel \<Rightarrow> False | Streamer_Recv _ \<Rightarrow> False | _ \<Rightarrow> True)"

lemma watcher_can_finish:
  assumes "control_inv w" "cancelled w" "waiting w" "watch_run acts w"
  shows "\<exists>own w'. length own \<le> 3 \<and> list_all task_action own \<and> watch_run (acts @ own) w' \<and> \<not> waiting w'"
proof -
  have emit: "\<exists>w'. watch_run (acts' @ [Watcher_Emits None None 0]) w' \<and> \<not> waiting w'"
    if "watch_run acts' v" "waiting v" "cancelled v" "drained v" for acts' v
    using watch_run.step[OF that(1) watcher_emits[OF that(2-4)]] by fastforce
  have stop: "\<exists>w'. watch_run (acts' @ [Streamer_Grace_Ends, Watcher_Emits None None 0]) w' \<and> \<not> waiting w'"
    if "watch_run acts' v" "streaming v" "waiting v" "cancelled v" "grace_sleep v" for acts' v
    using emit[OF watch_run.step[OF that(1) grace_ends[OF that(2,5)]]] that by simp
  consider "\<not> streaming w" | "streaming w" "grace_sleep w" | "streaming w" "\<not> grace_sleep w" by blast
  then show ?thesis
  proof cases
    case 1
    then show ?thesis
      using emit[OF assms(4,3,2)] assms(1,3)
      by (intro exI[of _ "[Watcher_Emits None None 0]"]) (simp add: control_inv_def task_action_def)
  next
    case 2
    then show ?thesis
      using stop[OF assms(4) 2(1) assms(3,2) 2(2)]
      by (intro exI[of _ "[Streamer_Grace_Ends, Watcher_Emits None None 0]"]) (simp add: task_action_def)
  next
    case 3
    then show ?thesis
      using stop[OF watch_run.step[OF assms(4) grace_starts[OF 3 assms(2)]]] assms(2,3)
      by (intro exI[of _ "[Streamer_Grace_Starts, Streamer_Grace_Ends, Watcher_Emits None None 0]"])
        (simp add: task_action_def)
  qed
qed

section \<open>Session properties\<close>

text \<open>
  C6: In every interleaving of the process, the streamer and the exit watcher, the events of a
  session are output deltas followed by at most one final event, emitted once the watcher stops
  waiting and built from the transcript of everything received. The deltas, at most ten thousand,
  each at most 8192 bytes and each well-formed UTF-8 or a single byte, spell out a prefix of the
  received bytes, and all of them as long as the limit on their number is not reached; no received
  byte is ever left pending.
\<close>

theorem session_events_ordered:
  assumes "watch_run acts w"
  shows "\<exists>ds rest final. events w = map Output_Delta ds @ final
    \<and> received_bytes acts = concat ds @ rest
    \<and> length ds \<le> max_exec_output_deltas_per_call
    \<and> (rest \<noteq> [] \<longrightarrow> length ds = max_exec_output_deltas_per_call)
    \<and> (\<forall>d\<in>set ds. d \<noteq> [] \<and> length d \<le> unified_exec_output_delta_max_bytes \<and> (from_utf8_ok d \<or> length d = 1))
    \<and> (if waiting w then final = []
       else \<exists>failure code elapsed. final = [exit_event (transcript w) failure code elapsed])
    \<and> to_bytes (transcript w) = retained unified_exec_output_max_bytes (received_bytes acts)
    \<and> pending w = []"
proof -
  have data: "data_inv (received_bytes acts) w" using watch_run_inv[OF assms] by simp
  then obtain ds rest final where ds: "received_bytes acts = concat ds @ rest" "list_all delta_ok ds"
    "rest \<noteq> [] \<longrightarrow> length ds = max_exec_output_deltas_per_call"
    "length ds \<le> max_exec_output_deltas_per_call"
    "events w = map Output_Delta ds @ final"
    "if waiting w then final = []
       else \<exists>failure code elapsed. final = [exit_event (transcript w) failure code elapsed]"
    unfolding data_inv_def by (cases "waiting w") (metis append_Nil2)+
  moreover have "to_bytes (transcript w) = retained unified_exec_output_max_bytes (received_bytes acts)"
    using data buffers_to_bytes by (simp add: data_inv_def)
  ultimately show ?thesis
    using data unfolding data_inv_def list_all_iff delta_ok_def by blast
qed


text \<open>
  C23: No session is stuck: from every reachable state in which the process has exited and the final
  event is still missing, at most three steps of the two tasks themselves, which need no more
  output from the process, emit it.
\<close>

theorem final_event_reachable:
  assumes "watch_run acts w" "cancelled w" "waiting w"
  shows "\<exists>own w'. length own \<le> 3 \<and> list_all task_action own \<and> watch_run (acts @ own) w' \<and> \<not> waiting w'"
  using watcher_can_finish[OF _ assms(2,3,1)] watch_run_inv[OF assms(1)] by simp

section \<open>A character cut by a read\<close>

text \<open>The euro sign, three bytes, arrives in two reads.\<close>

definition euro :: "byte list" where
  "euro = [0xE2, 0x82, 0xAC]"

definition euro_actions :: "watch_action list" where
  "euro_actions = [Streamer_Recv (Received [0xE2]), Streamer_Recv (Received [0x82, 0xAC])]"

lemma from_utf8_ok_euro:
  "from_utf8_ok [0xE2, 0x82, 0xAC]" "\<not> from_utf8_ok [0xE2 :: byte]" "\<not> from_utf8_ok [0x82 :: byte]"
  "\<not> from_utf8_ok [0xAC :: byte]" "\<not> from_utf8_ok [0x82, 0xAC :: byte]"
  by (simp_all add: from_utf8_ok.simps decode_step_def safe_get_def second_byte_ok_def is_continuation_def)

lemma split_prefix_euro:
  "split_valid_utf8_prefix [0xE2] = Some ([0xE2], [])"
  "split_valid_utf8_prefix [0x82, 0xAC] = Some ([0x82], [0xAC])"
  "split_valid_utf8_prefix [0xAC] = Some ([0xAC], [])"
  "split_valid_utf8_prefix [] = None"
  by (simp_all add: split_valid_utf8_prefix_def split_valid_utf8_prefix_with_max_def
      unified_exec_output_delta_max_bytes_def from_utf8_ok_euro numeral_2_eq_2)

lemma process_chunk_euro:
  "process_chunk [0xE2] initial_watch =
    Some (initial_watch\<lparr>emitted_deltas := 1, events := [Output_Delta [0xE2]],
      transcript := default_buffer\<lparr>head_chunks := [[0xE2]], head_bytes := 1\<rparr>\<rparr>)"
  "process_chunk [0x82, 0xAC]
     (initial_watch\<lparr>emitted_deltas := 1, events := [Output_Delta [0xE2]],
        transcript := default_buffer\<lparr>head_chunks := [[0xE2]], head_bytes := 1\<rparr>\<rparr>) =
    Some (initial_watch\<lparr>emitted_deltas := 3,
      events := [Output_Delta [0xE2], Output_Delta [0x82], Output_Delta [0xAC]],
      transcript := default_buffer\<lparr>head_chunks := [[0xE2], [0x82], [0xAC]], head_bytes := 3\<rparr>\<rparr>)"
  by (simp_all add: process_chunk_def process_pending.simps split_prefix_euro push_chunk_def initial_watch_def
      default_buffer_def new_buffer_def unified_exec_output_max_bytes_def saturating_add_usize_def usize_max_def
      max_exec_output_deltas_per_call_def Let_def)

lemma euro_run:
  "watch_run euro_actions
    (initial_watch\<lparr>emitted_deltas := 3,
      events := [Output_Delta [0xE2], Output_Delta [0x82], Output_Delta [0xAC]],
      transcript := default_buffer\<lparr>head_chunks := [[0xE2], [0x82], [0xAC]], head_bytes := 3\<rparr>\<rparr>)"
  using watch_run.step[OF watch_run.step[OF start recv_chunk[OF _ process_chunk_euro(1)]] recv_chunk[OF _ process_chunk_euro(2)]]
  by (simp add: euro_actions_def initial_watch_def)

definition euro_finished :: "watch_action list" where
  "euro_finished = euro_actions @ [Streamer_Recv Closed, Cancel, Watcher_Emits None (Some 0) 7]"

definition euro_output :: exec_tool_call_output where
  "euro_output = \<lparr>exit_code = 0, stdout = [0x20AC], stderr = [], aggregated_output = [0x20AC],
     duration = 7, timed_out = False\<rparr>"

lemma euro_run_finished:
  "\<exists>w. watch_run euro_finished w \<and> Exec_Success euro_output \<in> set (events w)"
proof -
  let ?w = "initial_watch\<lparr>emitted_deltas := 3,
      events := [Output_Delta [0xE2], Output_Delta [0x82], Output_Delta [0xAC]],
      transcript := default_buffer\<lparr>head_chunks := [[0xE2], [0x82], [0xAC]], head_bytes := 3\<rparr>\<rparr>"
  let ?w1 = "?w\<lparr>drained := True, streaming := False\<rparr>"
  let ?w2 = "?w1\<lparr>cancelled := True\<rparr>"
  let ?w3 = "?w2\<lparr>drained := False, waiting := False,
         events := events ?w2 @ [exit_event (transcript ?w2) None (Some 0) 7]\<rparr>"
  have 1: "watch_run (euro_actions @ [Streamer_Recv Closed]) ?w1"
    by (rule watch_run.step[OF euro_run recv_closed]) (simp add: initial_watch_def)
  have 2: "watch_run (euro_actions @ [Streamer_Recv Closed, Cancel]) ?w2"
    using watch_run.step[OF 1 watch_step.cancel] by simp
  have 3: "watch_run euro_finished ?w3"
    using watch_run.step[OF 2 watcher_emits, of None "Some 0" 7]
    by (simp add: euro_finished_def initial_watch_def)
  have "exit_event (transcript ?w2) None (Some 0) 7 = Exec_Success euro_output"
    by (simp add: exit_event_def exec_end_def resolve_aggregated_output_def retained_bytes_def default_buffer_def
        new_buffer_def saturating_add_usize_def usize_max_def to_bytes_def euro_output_def Let_def
        from_utf8_lossy.simps decode_step_def safe_get_def second_byte_ok_def is_continuation_def)
  then show ?thesis using 3 by (intro exI[of _ ?w3]) simp
qed

theorem session_events_ordered_witness:
  "\<exists>w ds rest final. watch_run euro_finished w \<and> events w = map Output_Delta ds @ final
     \<and> euro = concat ds @ rest \<and> length final \<le> 1"
proof -
  obtain w where w: "watch_run euro_finished w" using euro_run_finished by blast
  obtain ds rest final where ds: "events w = map Output_Delta ds @ final"
    "received_bytes euro_finished = concat ds @ rest"
    "if waiting w then final = []
     else \<exists>failure code elapsed. final = [exit_event (transcript w) failure code elapsed]"
    using session_events_ordered[OF w] by blast
  have "received_bytes euro_finished = euro"
    by (simp add: euro_finished_def euro_actions_def euro_def)
  moreover have "length final \<le> 1"
    using ds(3) by (auto split: if_splits)
  ultimately show ?thesis
    using w ds(1,2) by metis
qed


theorem final_event_reachable_witness:
  "\<exists>own w'. length own \<le> 3 \<and> watch_run ([Cancel] @ own) w' \<and> \<not> waiting w'"
proof -
  have run: "watch_run ([] @ [Cancel]) (initial_watch\<lparr>cancelled := True\<rparr>)"
    by (rule watch_run.step[OF start watch_step.cancel])
  then show ?thesis
    using final_event_reachable[OF run] by (simp add: initial_watch_def) blast
qed

text \<open>
  Output deltas are not aligned to character boundaries: nothing is ever held back for the next
  read, so a character that arrives in two reads is emitted as one malformed delta per byte, although
  the received bytes are well-formed.
\<close>

theorem delta_splits_character:
  "\<exists>w. watch_run euro_actions w \<and> from_utf8_ok (received_bytes euro_actions)
     \<and> events w = [Output_Delta [0xE2], Output_Delta [0x82], Output_Delta [0xAC]]
     \<and> \<not> from_utf8_ok [0xE2 :: byte] \<and> \<not> from_utf8_ok [0x82 :: byte] \<and> \<not> from_utf8_ok [0xAC :: byte]"
  by (intro exI conjI, rule euro_run) (simp_all add: euro_actions_def from_utf8_ok_euro)

end
