(* ===== verification/Response_Items.thy ===== *)
theory Response_Items
  imports Codex_Prelude
begin

text \<open>
  The conversation items of the protocol crate (\<open>codex-rs/protocol/src/models.rs\<close>): one datatype per
  Rust enum, with the source's variants and fields in their order, and the small accessors that the
  truncation and history components call. JSON values are the opaque type \<open>json_value\<close>.
\<close>

typedecl json_value

section \<open>Content\<close>

datatype image_detail = Detail_Auto | Detail_Low | Detail_High | Detail_Original

datatype content_item =
    Input_Text str
  | Input_Image str "image_detail option"
  | Output_Text str

datatype agent_message_input_content = Agent_Encrypted_Content str

datatype message_phase = Commentary | Final_Answer

datatype reasoning_summary = Summary_Text str

datatype reasoning_content = Reasoning_Text str | Plain_Text str

datatype local_shell_status = Status_Completed | Status_In_Progress | Status_Incomplete

record local_shell_exec_action =
  shell_command :: "str list"
  shell_timeout_ms :: "nat option"
  shell_working_directory :: "str option"
  shell_env :: "(str \<rightharpoonup> str) option"
  shell_user :: "str option"

datatype local_shell_action = Shell_Exec local_shell_exec_action

datatype web_search_action =
    Web_Search "str option" "str list option"
  | Web_Open_Page "str option"
  | Web_Find_In_Page "str option" "str option"
  | Web_Other

section \<open>Tool outputs\<close>

datatype output_content_item =
    Output_Input_Text str
  | Output_Input_Image str "image_detail option"
  | Output_Encrypted_Content str

datatype output_body = Body_Text str | Body_Items "output_content_item list"

record output_payload =
  body :: output_body
  success :: "bool option"

definition payload_from_text :: "str \<Rightarrow> output_payload" where
  "payload_from_text content = \<lparr>body = Body_Text content, success = None\<rparr>"

text \<open>\<open>content_items_mut\<close>: an update of the content items, if the body has any.\<close>

fun map_content_items :: "(output_content_item list \<Rightarrow> output_content_item list) \<Rightarrow> output_payload \<Rightarrow> output_payload" where
  "map_content_items f output =
    (case body output of
       Body_Text _ \<Rightarrow> output
     | Body_Items items \<Rightarrow> output\<lparr>body := Body_Items (f items)\<rparr>)"

definition output_items_to_text :: "output_content_item list \<Rightarrow> str option" where
  "output_items_to_text items =
    (let segments = filter_map
           (\<lambda>item. case item of
              Output_Input_Text content \<Rightarrow> if trim content \<noteq> [] then Some content else None
            | _ \<Rightarrow> None) items
     in if segments = [] then None else Some (join [newline] segments))"

fun body_to_text :: "output_body \<Rightarrow> str option" where
  "body_to_text (Body_Text content) = Some content"
| "body_to_text (Body_Items items) = output_items_to_text items"

section \<open>Conversation items\<close>

datatype response_item =
    Message "str option" str "content_item list" "message_phase option"
  | Agent_Message str str "agent_message_input_content list"
  | Reasoning str "reasoning_summary list" "reasoning_content list option" "str option"
  | Local_Shell_Call "str option" "str option" local_shell_status local_shell_action
  | Function_Call "str option" str "str option" str str
  | Tool_Search_Call "str option" "str option" "str option" str json_value
  | Function_Call_Output str output_payload
  | Custom_Tool_Call "str option" "str option" str str str
  | Custom_Tool_Call_Output str "str option" output_payload
  | Tool_Search_Output "str option" str str "json_value list"
  | Web_Search_Call "str option" "str option" "web_search_action option"
  | Image_Generation_Call str str "str option" str
  | Compaction str
  | Compaction_Trigger
  | Context_Compaction "str option"
  | Other_Item

datatype input_modality = Modality_Text | Modality_Image

end
