(* ===== verification/History_Normalize.thy ===== *)
theory History_Normalize
  imports Response_Items
begin

text \<open>
  Normalization of the conversation history
  (\<open>codex-rs/core/src/context_manager/normalize.rs\<close>): every tool call gets an output, every output
  without a call is dropped, and images are replaced when the model cannot see them.
  \<open>error_or_panic\<close> panics exactly in builds with debug assertions; the flag \<open>debug\<close> says which build
  it is, and a panic is \<open>None\<close>. The lemmas relate the index arithmetic of the source to an in-place
  definition, and show pairing, idempotence and that nothing but outputs is touched.
\<close>

section \<open>Missing outputs\<close>

definition error_or_panic :: "bool \<Rightarrow> unit option" where
  "error_or_panic debug = (if debug then None else Some ())"

definition aborted :: output_payload where
  "aborted = payload_from_text (lit ''aborted'')"

fun is_function_output :: "str \<Rightarrow> response_item \<Rightarrow> bool" where
  "is_function_output call_id (Function_Call_Output existing _) = (existing = call_id)"
| "is_function_output call_id _ = False"

fun is_search_output :: "str \<Rightarrow> response_item \<Rightarrow> bool" where
  "is_search_output call_id (Tool_Search_Output (Some existing) _ _ _) = (existing = call_id)"
| "is_search_output call_id _ = False"

fun is_custom_output :: "str \<Rightarrow> response_item \<Rightarrow> bool" where
  "is_custom_output call_id (Custom_Tool_Call_Output existing _ _) = (existing = call_id)"
| "is_custom_output call_id _ = False"

text \<open>
  One round of the loop: the synthetic output of a call that has none, and whether its absence is
  reported through \<open>error_or_panic\<close>.
\<close>

fun missing_output :: "response_item list \<Rightarrow> response_item \<Rightarrow> (response_item \<times> bool) option" where
  "missing_output items (Function_Call _ _ _ _ call_id) =
    (if list_ex (is_function_output call_id) items then None
     else Some (Function_Call_Output call_id aborted, False))"
| "missing_output items (Tool_Search_Call _ (Some call_id) _ _ _) =
    (if list_ex (is_search_output call_id) items then None
     else Some (Tool_Search_Output (Some call_id) (lit ''completed'') (lit ''client'') [], False))"
| "missing_output items (Custom_Tool_Call _ _ call_id _ _) =
    (if list_ex (is_custom_output call_id) items then None
     else Some (Custom_Tool_Call_Output call_id None aborted, True))"
| "missing_output items (Local_Shell_Call _ (Some call_id) _ _) =
    (if list_ex (is_function_output call_id) items then None
     else Some (Function_Call_Output call_id aborted, True))"
| "missing_output items _ = None"

fun missing_outputs_to_insert ::
    "bool \<Rightarrow> response_item list \<Rightarrow> nat \<Rightarrow> response_item list \<Rightarrow> (nat \<times> response_item) list option" where
  "missing_outputs_to_insert debug items idx [] = Some []"
| "missing_outputs_to_insert debug items idx (item # rest) =
    (case missing_output items item of
       None \<Rightarrow> missing_outputs_to_insert debug items (Suc idx) rest
     | Some (output, reported) \<Rightarrow>
         if reported \<and> error_or_panic debug = None then None
         else map_option ((#) (idx, output)) (missing_outputs_to_insert debug items (Suc idx) rest))"

definition ensure_call_outputs_present :: "bool \<Rightarrow> response_item list \<Rightarrow> response_item list option" where
  "ensure_call_outputs_present debug items =
    map_option
      (\<lambda>missing. fold (\<lambda>(idx, output) items. insert_at (idx + 1) output items) (rev missing) items)
      (missing_outputs_to_insert debug items 0 items)"

section \<open>Orphan outputs\<close>

fun function_call_id :: "response_item \<Rightarrow> str option" where
  "function_call_id (Function_Call _ _ _ _ call_id) = Some call_id"
| "function_call_id _ = None"

fun tool_search_call_id :: "response_item \<Rightarrow> str option" where
  "tool_search_call_id (Tool_Search_Call _ call_id _ _ _) = call_id"
| "tool_search_call_id _ = None"

fun local_shell_call_id :: "response_item \<Rightarrow> str option" where
  "local_shell_call_id (Local_Shell_Call _ call_id _ _) = call_id"
| "local_shell_call_id _ = None"

fun custom_tool_call_id :: "response_item \<Rightarrow> str option" where
  "custom_tool_call_id (Custom_Tool_Call _ _ call_id _ _) = Some call_id"
| "custom_tool_call_id _ = None"

fun retained_item :: "response_item list \<Rightarrow> response_item \<Rightarrow> bool" where
  "retained_item items (Function_Call_Output call_id _) \<longleftrightarrow>
    call_id \<in> set (filter_map function_call_id items) \<or> call_id \<in> set (filter_map local_shell_call_id items)"
| "retained_item items (Custom_Tool_Call_Output call_id _ _) \<longleftrightarrow>
    call_id \<in> set (filter_map custom_tool_call_id items)"
| "retained_item items (Tool_Search_Output call_id _ execution _) \<longleftrightarrow>
    (if execution = lit ''server'' then True
     else case call_id of
            Some call_id \<Rightarrow> call_id \<in> set (filter_map tool_search_call_id items)
          | None \<Rightarrow> True)"
| "retained_item items _ = True"

text \<open>Every dropped item is reported.\<close>

fun retain_items :: "bool \<Rightarrow> response_item list \<Rightarrow> response_item list \<Rightarrow> response_item list option" where
  "retain_items debug items [] = Some []"
| "retain_items debug items (item # rest) =
    (if retained_item items item then map_option ((#) item) (retain_items debug items rest)
     else if error_or_panic debug = None then None
     else retain_items debug items rest)"

definition remove_orphan_outputs :: "bool \<Rightarrow> response_item list \<Rightarrow> response_item list option" where
  "remove_orphan_outputs debug items = retain_items debug items items"

section \<open>Removing a counterpart\<close>

definition remove_first_matching :: "(response_item \<Rightarrow> bool) \<Rightarrow> response_item list \<Rightarrow> response_item list" where
  "remove_first_matching matches items =
    (case position matches items of Some pos \<Rightarrow> remove_at pos items | None \<Rightarrow> items)"

fun remove_corresponding_for :: "response_item list \<Rightarrow> response_item \<Rightarrow> response_item list" where
  "remove_corresponding_for items (Function_Call _ _ _ _ call_id) =
    remove_first_matching (is_function_output call_id) items"
| "remove_corresponding_for items (Function_Call_Output call_id _) =
    (case position (\<lambda>i. function_call_id i = Some call_id) items of
       Some pos \<Rightarrow> remove_at pos items
     | None \<Rightarrow>
         (case position (\<lambda>i. local_shell_call_id i = Some call_id) items of
            Some pos \<Rightarrow> remove_at pos items
          | None \<Rightarrow> items))"
| "remove_corresponding_for items (Tool_Search_Call _ (Some call_id) _ _ _) =
    remove_first_matching (is_search_output call_id) items"
| "remove_corresponding_for items (Tool_Search_Output (Some call_id) _ _ _) =
    remove_first_matching (\<lambda>i. tool_search_call_id i = Some call_id) items"
| "remove_corresponding_for items (Custom_Tool_Call _ _ call_id _ _) =
    remove_first_matching (is_custom_output call_id) items"
| "remove_corresponding_for items (Custom_Tool_Call_Output call_id _ _) =
    remove_first_matching (\<lambda>i. custom_tool_call_id i = Some call_id) items"
| "remove_corresponding_for items (Local_Shell_Call _ (Some call_id) _ _) =
    remove_first_matching (is_function_output call_id) items"
| "remove_corresponding_for items _ = items"

section \<open>Images\<close>

definition image_content_omitted_placeholder :: str where
  "image_content_omitted_placeholder = lit ''image content omitted because you do not support image input''"

fun strip_content_item :: "content_item \<Rightarrow> content_item" where
  "strip_content_item (Input_Image _ _) = Input_Text image_content_omitted_placeholder"
| "strip_content_item c = c"

fun strip_output_item :: "output_content_item \<Rightarrow> output_content_item" where
  "strip_output_item (Output_Input_Image _ _) = Output_Input_Text image_content_omitted_placeholder"
| "strip_output_item c = c"

fun strip_item :: "response_item \<Rightarrow> response_item" where
  "strip_item (Message msg_id role content phase) = Message msg_id role (map strip_content_item content) phase"
| "strip_item (Function_Call_Output call_id output) =
    Function_Call_Output call_id (map_content_items (map strip_output_item) output)"
| "strip_item (Custom_Tool_Call_Output call_id name output) =
    Custom_Tool_Call_Output call_id name (map_content_items (map strip_output_item) output)"
| "strip_item (Image_Generation_Call call_id status revised_prompt _) =
    Image_Generation_Call call_id status revised_prompt []"
| "strip_item item = item"

definition strip_images_when_unsupported :: "input_modality list \<Rightarrow> response_item list \<Rightarrow> response_item list" where
  "strip_images_when_unsupported input_modalities items =
    (if Modality_Image \<in> set input_modalities then items else map strip_item items)"

section \<open>Normalization\<close>

definition normalize_history ::
    "bool \<Rightarrow> input_modality list \<Rightarrow> response_item list \<Rightarrow> response_item list option" where
  "normalize_history debug input_modalities items =
    (case ensure_call_outputs_present debug items of
       None \<Rightarrow> None
     | Some items \<Rightarrow>
         (case remove_orphan_outputs debug items of
            None \<Rightarrow> None
          | Some items \<Rightarrow> Some (strip_images_when_unsupported input_modalities items)))"

section \<open>Pairing\<close>

text \<open>
  Calls and outputs by the key that relates them: the kind of tool and the call id. Local shell
  calls are answered by function outputs.
\<close>

datatype tool_kind = Function_Kind | Search_Kind | Custom_Kind

fun call_key :: "response_item \<Rightarrow> (tool_kind \<times> str) option" where
  "call_key (Function_Call _ _ _ _ call_id) = Some (Function_Kind, call_id)"
| "call_key (Local_Shell_Call _ call_id _ _) = map_option (Pair Function_Kind) call_id"
| "call_key (Tool_Search_Call _ call_id _ _ _) = map_option (Pair Search_Kind) call_id"
| "call_key (Custom_Tool_Call _ _ call_id _ _) = Some (Custom_Kind, call_id)"
| "call_key _ = None"

fun output_key :: "response_item \<Rightarrow> (tool_kind \<times> str) option" where
  "output_key (Function_Call_Output call_id _) = Some (Function_Kind, call_id)"
| "output_key (Tool_Search_Output call_id _ _ _) = map_option (Pair Search_Kind) call_id"
| "output_key (Custom_Tool_Call_Output call_id _ _) = Some (Custom_Kind, call_id)"
| "output_key _ = None"

text \<open>Outputs of searches that ran on the server need no call.\<close>

fun from_server :: "response_item \<Rightarrow> bool" where
  "from_server (Tool_Search_Output _ _ execution _) = (execution = lit ''server'')"
| "from_server _ = False"

definition calls_answered :: "response_item list \<Rightarrow> bool" where
  "calls_answered items \<longleftrightarrow> (\<forall>c\<in>set items. \<forall>k. call_key c = Some k \<longrightarrow> (\<exists>out\<in>set items. output_key out = Some k))"

definition outputs_called :: "response_item list \<Rightarrow> bool" where
  "outputs_called items \<longleftrightarrow>
    (\<forall>out\<in>set items. \<forall>k. output_key out = Some k \<and> \<not> from_server out \<longrightarrow> (\<exists>c\<in>set items. call_key c = Some k))"

definition paired :: "response_item list \<Rightarrow> bool" where
  "paired items \<longleftrightarrow> calls_answered items \<and> outputs_called items"

fun is_image_content :: "content_item \<Rightarrow> bool" where
  "is_image_content (Input_Image _ _) = True"
| "is_image_content _ = False"

fun is_image_output :: "output_content_item \<Rightarrow> bool" where
  "is_image_output (Output_Input_Image _ _) = True"
| "is_image_output _ = False"

fun payload_has_image :: "output_body \<Rightarrow> bool" where
  "payload_has_image (Body_Text _) = False"
| "payload_has_image (Body_Items items) = list_ex is_image_output items"

fun has_image :: "response_item \<Rightarrow> bool" where
  "has_image (Message _ _ content _) = list_ex is_image_content content"
| "has_image (Function_Call_Output _ output) = payload_has_image (body output)"
| "has_image (Custom_Tool_Call_Output _ _ output) = payload_has_image (body output)"
| "has_image (Image_Generation_Call _ _ _ generated) = (generated \<noteq> [])"
| "has_image _ = False"

section \<open>In-place insertion\<close>

text \<open>What the reverse-order insertions amount to.\<close>

definition answered :: "response_item list \<Rightarrow> response_item \<Rightarrow> response_item list" where
  "answered items item = item # (case missing_output items item of Some (output, _) \<Rightarrow> [output] | None \<Rightarrow> [])"

lemma insert_at_append: "length xs \<le> i \<Longrightarrow> insert_at i x (xs @ ys) = xs @ insert_at (i - length xs) x ys"
  by (simp add: insert_at_def)

lemma insert_missing_in_place:
  "missing_outputs_to_insert debug items (length done_items) rest = Some missing \<Longrightarrow>
   fold (\<lambda>(idx, output) items. insert_at (idx + 1) output items) (rev missing) (done_items @ rest) =
     done_items @ concat (map (answered items) rest)"
proof (induction rest arbitrary: done_items missing)
  case Nil
  then show ?case by simp
next
  case (Cons item rest)
  show ?case
  proof (cases "missing_output items item")
    case None
    then have "missing_outputs_to_insert debug items (length (done_items @ [item])) rest = Some missing"
      using Cons.prems by simp
    from Cons.IH[OF this] show ?thesis using None by (simp add: answered_def)
  next
    case (Some m)
    obtain new_output reported where m: "m = (new_output, reported)" by fastforce
    obtain later where later: "missing_outputs_to_insert debug items (length (done_items @ [item])) rest = Some later"
      "missing = (length done_items, new_output) # later"
      using Cons.prems Some m by (auto split: if_splits)
    then show ?thesis
      using Cons.IH[OF later(1)] Some m by (simp add: answered_def insert_at_append) (simp add: insert_at_def)
  qed
qed

lemma ensure_in_place:
  "ensure_call_outputs_present debug items = Some items' \<Longrightarrow> items' = concat (map (answered items) items)"
  using insert_missing_in_place[of debug items "[]" items] by (auto simp: ensure_call_outputs_present_def)

lemma missing_outputs_release: "\<exists>missing. missing_outputs_to_insert False items idx rest = Some missing"
  by (induction rest arbitrary: idx) (auto simp: error_or_panic_def split: option.splits)

lemma ensure_release:
  "ensure_call_outputs_present False items = Some (concat (map (answered items) items))"
proof -
  obtain items' where "ensure_call_outputs_present False items = Some items'"
    using missing_outputs_release[of items 0 items] by (auto simp: ensure_call_outputs_present_def)
  then show ?thesis using ensure_in_place by blast
qed

lemma retain_filter: "retain_items debug items rest = Some kept \<Longrightarrow> kept = filter (retained_item items) rest"
  by (induction rest arbitrary: kept) (auto split: if_splits)

lemma retain_release: "retain_items False items rest = Some (filter (retained_item items) rest)"
  by (induction rest) (auto simp: error_or_panic_def)

section \<open>Keys\<close>

lemma is_output_keys:
  "is_function_output j i \<longleftrightarrow> output_key i = Some (Function_Kind, j)"
  "is_search_output j i \<longleftrightarrow> output_key i = Some (Search_Kind, j)"
  "is_custom_output j i \<longleftrightarrow> output_key i = Some (Custom_Kind, j)"
proof -
  show "is_function_output j i \<longleftrightarrow> output_key i = Some (Function_Kind, j)" by (cases i) auto
  show "is_search_output j i \<longleftrightarrow> output_key i = Some (Search_Kind, j)"
    by (cases "(j, i)" rule: is_search_output.cases) auto
  show "is_custom_output j i \<longleftrightarrow> output_key i = Some (Custom_Kind, j)" by (cases i) auto
qed

lemma call_id_keys:
  "call_key i = Some (Function_Kind, j) \<longleftrightarrow> function_call_id i = Some j \<or> local_shell_call_id i = Some j"
  "call_key i = Some (Search_Kind, j) \<longleftrightarrow> tool_search_call_id i = Some j"
  "call_key i = Some (Custom_Kind, j) \<longleftrightarrow> custom_tool_call_id i = Some j"
  by (cases i; auto)+

lemma missing_output_iff:
  "missing_output items item \<noteq> None \<longleftrightarrow> (\<exists>k. call_key item = Some k \<and> (\<forall>out\<in>set items. output_key out \<noteq> Some k))"
  by (cases "(items, item)" rule: missing_output.cases) (auto simp: list_ex_iff is_output_keys)

lemma missing_output_key:
  "missing_output items item = Some (output, reported) \<Longrightarrow>
   output_key output = call_key item \<and> call_key item \<noteq> None \<and> call_key output = None \<and> \<not> from_server output"
  by (cases "(items, item)" rule: missing_output.cases) (auto split: if_splits simp: lit_def)

lemma retained_item_iff:
  "retained_item items item \<longleftrightarrow>
    from_server item \<or> output_key item = None \<or> (\<exists>c\<in>set items. call_key c = output_key item)"
  by (cases item) (auto simp: set_filter_map call_id_keys split: option.splits)

lemma set_answered:
  "x \<in> set (concat (map (answered items) xs)) \<longleftrightarrow>
    x \<in> set xs \<or> (\<exists>item\<in>set xs. \<exists>reported. missing_output items item = Some (x, reported))"
proof -
  have "x \<in> set (answered items item) \<longleftrightarrow> x = item \<or> (\<exists>reported. missing_output items item = Some (x, reported))" for item
    by (cases "missing_output items item") (auto simp: answered_def)
  then show ?thesis by auto
qed

lemma calls_answered_ensure: "calls_answered (concat (map (answered items) items))"
  unfolding calls_answered_def
proof (intro ballI allI impI)
  fix c k
  assume c: "c \<in> set (concat (map (answered items) items))" and k: "call_key c = Some k"
  have "c \<in> set items" using c k unfolding set_answered by (auto dest: missing_output_key)
  show "\<exists>out\<in>set (concat (map (answered items) items)). output_key out = Some k"
  proof (cases "missing_output items c")
    case None
    then obtain out where "out \<in> set items" "output_key out = Some k"
      using missing_output_iff[of items c] k by auto
    then show ?thesis using set_answered by blast
  next
    case (Some m)
    obtain new_output reported where m: "m = (new_output, reported)" by fastforce
    then have "output_key new_output = Some k" using missing_output_key Some k by metis
    moreover have "new_output \<in> set (concat (map (answered items) items))"
      using Some m \<open>c \<in> set items\<close> set_answered by blast
    ultimately show ?thesis by blast
  qed
qed

lemma call_key_no_output: "call_key c = Some k \<Longrightarrow> output_key c = None"
  by (cases c) auto

lemma paired_retained: "calls_answered items \<Longrightarrow> paired (filter (retained_item items) items)"
  unfolding paired_def calls_answered_def outputs_called_def
  using call_key_no_output by (auto simp: retained_item_iff) metis+

lemma strip_keys [simp]:
  "call_key (strip_item i) = call_key i" "output_key (strip_item i) = output_key i"
  "from_server (strip_item i) = from_server i"
  by (cases i; simp)+

lemma paired_strip: "paired (map strip_item items) = paired items"
  by (simp add: paired_def calls_answered_def outputs_called_def)

lemma strip_content_idem: "strip_content_item (strip_content_item c) = strip_content_item c"
  by (cases c) auto

lemma strip_output_idem: "strip_output_item (strip_output_item c) = strip_output_item c"
  by (cases c) auto

lemma strip_item_idem: "strip_item (strip_item i) = strip_item i"
  by (cases i) (auto simp: strip_content_idem strip_output_idem split: output_body.splits)

lemma strip_no_image: "\<not> has_image (strip_item i)"
proof -
  have c: "\<not> is_image_content (strip_content_item x)" for x by (cases x) auto
  have out: "\<not> is_image_output (strip_output_item x)" for x by (cases x) auto
  show ?thesis
    by (cases i) (auto simp: list_ex_iff c out split: output_body.splits)
qed

lemma paired_images: "paired (strip_images_when_unsupported modalities items) = paired items"
  by (simp add: strip_images_when_unsupported_def paired_strip)

lemma normalize_Some:
  assumes "normalize_history debug modalities items = Some out"
  shows "out = strip_images_when_unsupported modalities
    (filter (retained_item (concat (map (answered items) items))) (concat (map (answered items) items)))"
  using assms ensure_in_place retain_filter
  by (auto simp: normalize_history_def remove_orphan_outputs_def split: option.splits)

lemma normalize_release:
  "normalize_history False modalities items = Some (strip_images_when_unsupported modalities
    (filter (retained_item (concat (map (answered items) items))) (concat (map (answered items) items))))"
  by (simp add: normalize_history_def ensure_release remove_orphan_outputs_def retain_release)

lemma normalize_paired: "normalize_history debug modalities items = Some out \<Longrightarrow> paired out"
  using normalize_Some paired_images paired_retained[OF calls_answered_ensure] by metis

lemma paired_normalize:
  assumes "paired items"
  shows "normalize_history debug modalities items = Some (strip_images_when_unsupported modalities items)"
proof -
  have none: "missing_output items c = None" if "c \<in> set items" for c
    using missing_output_iff[of items c] assms that unfolding paired_def calls_answered_def by blast
  have "missing_outputs_to_insert debug items idx rest = Some []" if "set rest \<subseteq> set items" for idx rest
    using that none by (induction rest arbitrary: idx) auto
  then have ensure: "ensure_call_outputs_present debug items = Some items"
    by (simp add: ensure_call_outputs_present_def)
  have kept: "retained_item items c" if "c \<in> set items" for c
    using assms that unfolding paired_def outputs_called_def retained_item_iff
    by (metis not_Some_eq)
  have "retain_items debug items rest = Some rest" if "set rest \<subseteq> set items" for rest
    using that kept by (induction rest) auto
  then show ?thesis
    using ensure by (simp add: normalize_history_def remove_orphan_outputs_def)
qed

lemma strip_images_idem:
  "strip_images_when_unsupported modalities (strip_images_when_unsupported modalities items) =
   strip_images_when_unsupported modalities items"
  by (simp add: strip_images_when_unsupported_def strip_item_idem)

section \<open>Properties\<close>



text \<open>
  C39: Normalization is a projection: a history whose calls and outputs are paired only has its images
  stripped, in a debug build as well, which therefore never panics on it; so normalizing the result
  of a normalization, in any build, changes nothing.
\<close>

theorem normalize_history_idempotent:
  "(paired items \<longrightarrow>
      normalize_history debug modalities items = Some (strip_images_when_unsupported modalities items))
   \<and> (normalize_history debug modalities items = Some out \<longrightarrow>
      normalize_history debug' modalities out = Some out)"
proof (intro conjI impI)
  show "paired items \<Longrightarrow> normalize_history debug modalities items = Some (strip_images_when_unsupported modalities items)"
    by (rule paired_normalize)
  assume out: "normalize_history debug modalities items = Some out"
  have "strip_images_when_unsupported modalities out = out"
    using normalize_Some[OF out] strip_images_idem by metis
  then show "normalize_history debug' modalities out = Some out"
    using paired_normalize[OF normalize_paired[OF out]] by metis
qed

theorem normalize_history_idempotent_witness:
  "normalize_history True [] [Function_Call None (lit ''f'') None [] (lit ''1''), Function_Call_Output (lit ''1'') aborted]
     = Some [Function_Call None (lit ''f'') None [] (lit ''1''), Function_Call_Output (lit ''1'') aborted]"
proof -
  let ?h = "[Function_Call None (lit ''f'') None [] (lit ''1''), Function_Call_Output (lit ''1'') aborted]"
  have "paired ?h" by (simp add: paired_def calls_answered_def outputs_called_def)
  then have "normalize_history True [] ?h = Some (strip_images_when_unsupported [] ?h)"
    using normalize_history_idempotent[of ?h True "[]"] by blast
  then show ?thesis by (simp add: strip_images_when_unsupported_def aborted_def payload_from_text_def)
qed

section \<open>Removing a pair\<close>

text \<open>At most one call and at most one output per key.\<close>

definition unique_keys :: "response_item list \<Rightarrow> bool" where
  "unique_keys items \<longleftrightarrow> distinct (filter_map call_key items) \<and> distinct (filter_map output_key items)"

text \<open>Removing the first item that satisfies a predicate.\<close>

lemma remove_first_matching_cases:
  obtains "\<forall>y\<in>set items. \<not> P y" "remove_first_matching P items = items"
    | ys x zs where "items = ys @ x # zs" "P x" "remove_first_matching P items = ys @ zs"
proof (cases "position P items")
  case None
  then have "remove_first_matching P items = items" by (simp add: remove_first_matching_def)
  moreover have "\<forall>y\<in>set items. \<not> P y" using None by (simp add: position_None)
  ultimately show thesis using that(1) by blast
next
  case (Some i)
  then show thesis
    using that(2) remove_at_position_filter[OF Some] by (auto simp: remove_first_matching_def)
qed

lemma remove_first_key:
  assumes "distinct (filter_map f items)"
  shows "set (remove_first_matching (\<lambda>i. f i = Some k) items) = {i \<in> set items. f i \<noteq> Some k}"
    "distinct (filter_map g items) \<Longrightarrow> distinct (filter_map g (remove_first_matching (\<lambda>i. f i = Some k) items))"
  by (rule remove_first_matching_cases[of items "\<lambda>i. f i = Some k"];
      use assms in \<open>auto simp: set_filter_map split: option.splits\<close>)+

lemma call_removes_output:
  assumes "call_key x = Some k"
  shows "remove_corresponding_for items x = remove_first_matching (\<lambda>i. output_key i = Some k) items"
  using assms by (cases x) (auto simp: is_output_keys[abs_def])

lemma position_unique_key:
  "distinct (filter_map f items) \<Longrightarrow> (\<And>i. P i \<Longrightarrow> f i = Some k) \<Longrightarrow> \<exists>i\<in>set items. P i \<Longrightarrow>
   position P items = position (\<lambda>i. f i = Some k) items"
proof (induction items)
  case (Cons a items)
  show ?case
  proof (cases "f a = Some k")
    case True
    then have "\<not> (\<exists>i\<in>set items. P i)" using Cons.prems(1,2) by (auto simp: set_filter_map)
    then show ?thesis using True Cons.prems(3) by simp
  next
    case False
    then have "\<not> P a" "\<exists>i\<in>set items. P i" using Cons.prems(2,3) by auto
    moreover have "distinct (filter_map f items)" using Cons.prems(1) by (auto split: option.splits)
    ultimately show ?thesis using Cons.IH Cons.prems(2) False by simp
  qed
qed simp

lemma output_removes_call:
  assumes "output_key x = Some k" "distinct (filter_map call_key items)"
  shows "remove_corresponding_for items x = remove_first_matching (\<lambda>i. call_key i = Some k) items"
proof (cases x)
  case (Function_Call_Output j payload)
  then have k: "k = (Function_Kind, j)" using assms(1) by simp
  let ?F = "\<lambda>i. function_call_id i = Some j" and ?L = "\<lambda>i. local_shell_call_id i = Some j"
  have F: "position ?F items = Some n \<Longrightarrow> position (\<lambda>i. call_key i = Some k) items = Some n" for n
    using position_unique_key[OF assms(2), of ?F k] position_None[of ?F items] by (auto simp: k call_id_keys)
  have L: "position ?L items = Some n \<Longrightarrow> position (\<lambda>i. call_key i = Some k) items = Some n" for n
    using position_unique_key[OF assms(2), of ?L k] position_None[of ?L items] by (auto simp: k call_id_keys)
  have none: "position ?F items = None \<Longrightarrow> position ?L items = None \<Longrightarrow> position (\<lambda>i. call_key i = Some k) items = None"
    by (simp add: position_None k call_id_keys)
  show ?thesis
    using F L none Function_Call_Output by (auto simp: remove_first_matching_def split: option.splits)
qed (use assms in \<open>auto simp: call_id_keys\<close>)

lemma remove_corresponding_none:
  "call_key x = None \<Longrightarrow> output_key x = None \<Longrightarrow> remove_corresponding_for items x = items"
  by (cases "(items, x)" rule: remove_corresponding_for.cases) auto

text \<open>Pairing in terms of the sets of keys.\<close>

definition call_keys :: "response_item list \<Rightarrow> (tool_kind \<times> str) set" where
  "call_keys items = {k. \<exists>c\<in>set items. call_key c = Some k}"

definition output_keys :: "response_item list \<Rightarrow> (tool_kind \<times> str) set" where
  "output_keys items = {k. \<exists>out\<in>set items. output_key out = Some k}"

definition local_output_keys :: "response_item list \<Rightarrow> (tool_kind \<times> str) set" where
  "local_output_keys items = {k. \<exists>out\<in>set items. output_key out = Some k \<and> \<not> from_server out}"

lemma paired_keys: "paired items \<longleftrightarrow> call_keys items \<subseteq> output_keys items \<and> local_output_keys items \<subseteq> call_keys items"
  unfolding paired_def calls_answered_def outputs_called_def call_keys_def output_keys_def local_output_keys_def
  by blast

lemma local_output_keys_subset: "local_output_keys items \<subseteq> output_keys items"
  by (auto simp: local_output_keys_def output_keys_def)

lemma keys_Cons:
  "call_keys (x # items) = set_option (call_key x) \<union> call_keys items"
  "output_keys (x # items) = set_option (output_key x) \<union> output_keys items"
  "local_output_keys (x # items) = (if from_server x then {} else set_option (output_key x)) \<union> local_output_keys items"
  by (auto simp: call_keys_def output_keys_def local_output_keys_def)

lemma keys_without_output:
  assumes "set items' = {i \<in> set items. output_key i \<noteq> Some k}"
  shows "call_keys items' = call_keys items" "output_keys items' = output_keys items - {k}"
    "local_output_keys items' = local_output_keys items - {k}"
  using assms call_key_no_output by (auto simp: call_keys_def output_keys_def local_output_keys_def)

lemma keys_without_call:
  assumes "set items' = {i \<in> set items. call_key i \<noteq> Some k}"
  shows "call_keys items' = call_keys items - {k}" "output_keys items' = output_keys items"
    "local_output_keys items' = local_output_keys items"
  using assms call_key_no_output by (auto simp: call_keys_def output_keys_def local_output_keys_def) force+

lemma unique_keys_head:
  assumes "unique_keys (x # items)"
  shows "call_key x = Some k \<Longrightarrow> k \<notin> call_keys items" "output_key x = Some k \<Longrightarrow> k \<notin> output_keys items"
  using assms by (auto simp: unique_keys_def set_filter_map call_keys_def output_keys_def)

lemma remove_corresponding_paired:
  assumes "paired (x # items)" "unique_keys (x # items)"
  shows "paired (remove_corresponding_for items x)" "unique_keys (remove_corresponding_for items x)"
proof -
  have unique: "distinct (filter_map call_key items)" "distinct (filter_map output_key items)"
    using assms(2) by (auto simp: unique_keys_def split: option.splits)
  consider k where "call_key x = Some k" "output_key x = None"
    | k where "output_key x = Some k" "call_key x = None" | "call_key x = None" "output_key x = None"
    using call_key_no_output by (cases "call_key x"; cases "output_key x") auto
  then have "paired (remove_corresponding_for items x) \<and> unique_keys (remove_corresponding_for items x)"
  proof cases
    case 1
    note rem = call_removes_output[OF 1(1)] remove_first_key[where k = k, OF unique(2)]
    have "paired (remove_corresponding_for items x)"
      using assms(1) unique_keys_head(1)[OF assms(2) 1(1)] local_output_keys_subset[of items] 1
      unfolding rem(1) paired_keys keys_Cons keys_without_output[OF rem(2)] by auto
    then show ?thesis
      using rem(3)[of call_key] rem(3)[of output_key] unique by (simp add: rem(1) unique_keys_def)
  next
    case 2
    note rem = output_removes_call[OF 2(1) unique(1)] remove_first_key[where k = k, OF unique(1)]
    have "paired (remove_corresponding_for items x)"
      using assms(1) unique_keys_head(2)[OF assms(2) 2(1)] local_output_keys_subset[of items] 2
      unfolding rem(1) paired_keys keys_Cons keys_without_call[OF rem(2)] by auto
    then show ?thesis
      using rem(3)[of call_key] rem(3)[of output_key] unique by (simp add: rem(1) unique_keys_def)
  next
    case 3
    then show ?thesis
      using assms(1) unique unfolding remove_corresponding_none[OF 3]
      by (simp add: paired_keys keys_Cons unique_keys_def split: if_splits)
  qed
  then show "paired (remove_corresponding_for items x)" "unique_keys (remove_corresponding_for items x)" by simp_all
qed

end
