(* ===== verification/Text_Truncation.thy ===== *)
theory Text_Truncation
  imports Response_Items
begin

text \<open>
  Truncation of large outputs: \<open>codex-rs/utils/string/src/truncate.rs\<close>, the policies of
  \<open>codex-rs/protocol/src/protocol.rs\<close> and \<open>codex-rs/utils/output-truncation/src/lib.rs\<close>. Lengths
  and offsets are byte counts in \<open>usize\<close>, as in the source; a slice that does not fall on a character
  boundary would panic, which is the value \<open>None\<close>. The lemmas show that no slice panics, what is cut
  and what the marker says, and bound the size of what tool outputs put into the history.
\<close>

section \<open>Byte offsets\<close>

text \<open>\<open>&s[..n]\<close> and \<open>&s[n..]\<close>.\<close>

fun slice_to :: "nat \<Rightarrow> str \<Rightarrow> str option" where
  "slice_to 0 s = Some []"
| "slice_to (Suc n) [] = None"
| "slice_to (Suc n) (c # s) =
    (if utf8_width c \<le> Suc n then map_option ((#) c) (slice_to (Suc n - utf8_width c) s) else None)"

fun slice_from :: "nat \<Rightarrow> str \<Rightarrow> str option" where
  "slice_from 0 s = Some s"
| "slice_from (Suc n) [] = None"
| "slice_from (Suc n) (c # s) =
    (if utf8_width c \<le> Suc n then slice_from (Suc n - utf8_width c) s else None)"

section \<open>Approximate token counts\<close>

definition approx_bytes_per_token :: nat where
  "approx_bytes_per_token = 4"

definition approx_token_count :: "str \<Rightarrow> nat" where
  "approx_token_count s = saturating_add_usize (str_len s) (approx_bytes_per_token - 1) div approx_bytes_per_token"

definition approx_bytes_for_tokens :: "nat \<Rightarrow> nat" where
  "approx_bytes_for_tokens tokens = saturating_mul_usize tokens approx_bytes_per_token"

definition approx_tokens_from_byte_count :: "nat \<Rightarrow> nat" where
  "approx_tokens_from_byte_count bytes =
    saturating_add_usize bytes (approx_bytes_per_token - 1) div approx_bytes_per_token"

definition approx_tokens_from_byte_count_i64 :: "int \<Rightarrow> int" where
  "approx_tokens_from_byte_count_i64 bytes =
    (if bytes \<le> 0 then 0 else i64_of_usize (approx_tokens_from_byte_count (nat bytes)))"

section \<open>Cutting the middle\<close>

text \<open>
  The loop of \<open>split_string\<close> over the characters and their offsets. The accumulators are
  \<open>prefix_end\<close>, \<open>suffix_start\<close>, \<open>removed_chars\<close> and \<open>suffix_started\<close>.
\<close>

fun split_scan :: "nat \<Rightarrow> nat \<Rightarrow> str \<Rightarrow> nat \<Rightarrow> nat \<Rightarrow> nat \<Rightarrow> nat \<Rightarrow> bool \<Rightarrow> nat \<times> nat \<times> nat" where
  "split_scan beginning_bytes tail_start_target [] idx prefix_end suffix_start removed_chars suffix_started =
    (prefix_end, suffix_start, removed_chars)"
| "split_scan beginning_bytes tail_start_target (ch # s) idx prefix_end suffix_start removed_chars suffix_started =
    (let char_end = idx + utf8_width ch
     in if char_end \<le> beginning_bytes
        then split_scan beginning_bytes tail_start_target s char_end
               char_end suffix_start removed_chars suffix_started
        else if tail_start_target \<le> idx
        then (if \<not> suffix_started
              then split_scan beginning_bytes tail_start_target s char_end prefix_end idx removed_chars True
              else split_scan beginning_bytes tail_start_target s char_end
                     prefix_end suffix_start removed_chars suffix_started)
        else split_scan beginning_bytes tail_start_target s char_end
               prefix_end suffix_start (saturating_add_usize removed_chars 1) suffix_started)"

definition split_string :: "str \<Rightarrow> nat \<Rightarrow> nat \<Rightarrow> (nat \<times> str \<times> str) option" where
  "split_string s beginning_bytes end_bytes =
    (if s = [] then Some (0, [], [])
     else let len = str_len s;
              tail_start_target = len - end_bytes;
              (prefix_end, suffix_start, removed_chars) =
                split_scan beginning_bytes tail_start_target s 0 0 len 0 False;
              suffix_start = (if suffix_start < prefix_end then prefix_end else suffix_start)
          in case (slice_to prefix_end s, slice_from suffix_start s) of
               (Some before, Some after) \<Rightarrow> Some (removed_chars, before, after)
             | _ \<Rightarrow> None)"

definition split_budget :: "nat \<Rightarrow> nat \<times> nat" where
  "split_budget budget = (let left = budget div 2 in (left, budget - left))"

definition ellipsis :: uchar where
  "ellipsis = 0x2026"

definition format_truncation_marker :: "bool \<Rightarrow> nat \<Rightarrow> str" where
  "format_truncation_marker use_tokens removed_count =
    (if use_tokens
     then [ellipsis] @ show_nat removed_count @ lit '' tokens truncated'' @ [ellipsis]
     else [ellipsis] @ show_nat removed_count @ lit '' chars truncated'' @ [ellipsis])"

definition removed_units :: "bool \<Rightarrow> nat \<Rightarrow> nat \<Rightarrow> nat" where
  "removed_units use_tokens removed_bytes removed_chars =
    (if use_tokens then approx_tokens_from_byte_count removed_bytes else removed_chars)"

definition assemble_truncated_output :: "str \<Rightarrow> str \<Rightarrow> str \<Rightarrow> str" where
  "assemble_truncated_output before after marker = before @ marker @ after"

definition truncate_with_byte_estimate :: "str \<Rightarrow> nat \<Rightarrow> bool \<Rightarrow> str option" where
  "truncate_with_byte_estimate s limit use_tokens =
    (if s = [] then Some []
     else let total_chars = length s
          in if limit = 0
             then Some (format_truncation_marker use_tokens (removed_units use_tokens (str_len s) total_chars))
             else if str_len s \<le> limit then Some s
             else let total_bytes = str_len s;
                      (left_budget, right_budget) = split_budget limit
                  in case split_string s left_budget right_budget of
                       None \<Rightarrow> None
                     | Some (removed_chars, left, right) \<Rightarrow>
                         Some (assemble_truncated_output left right
                                (format_truncation_marker use_tokens
                                  (removed_units use_tokens (total_bytes - limit) removed_chars))))"

definition truncate_middle_chars :: "str \<Rightarrow> nat \<Rightarrow> str option" where
  "truncate_middle_chars s limit = truncate_with_byte_estimate s limit False"

definition truncate_middle_with_token_budget :: "str \<Rightarrow> nat \<Rightarrow> (str \<times> nat option) option" where
  "truncate_middle_with_token_budget s max_tokens =
    (if s = [] then Some ([], None)
     else if 0 < max_tokens \<and> str_len s \<le> approx_bytes_for_tokens max_tokens then Some (s, None)
     else case truncate_with_byte_estimate s (approx_bytes_for_tokens max_tokens) True of
            None \<Rightarrow> None
          | Some truncated \<Rightarrow>
              let total_tokens = approx_token_count s
              in if truncated = s then Some (truncated, None) else Some (truncated, Some total_tokens))"

section \<open>Policies\<close>

datatype truncation_policy = Bytes nat | Tokens nat

fun token_budget :: "truncation_policy \<Rightarrow> nat" where
  "token_budget (Bytes bytes) = approx_tokens_from_byte_count bytes"
| "token_budget (Tokens tokens) = tokens"

fun byte_budget :: "truncation_policy \<Rightarrow> nat" where
  "byte_budget (Bytes bytes) = bytes"
| "byte_budget (Tokens tokens) = approx_bytes_for_tokens tokens"

fun truncate_text :: "str \<Rightarrow> truncation_policy \<Rightarrow> str option" where
  "truncate_text content (Bytes bytes) = truncate_middle_chars content bytes"
| "truncate_text content (Tokens tokens) = map_option fst (truncate_middle_with_token_budget content tokens)"

definition formatted_truncate_text :: "str \<Rightarrow> truncation_policy \<Rightarrow> str option" where
  "formatted_truncate_text content policy =
    (if str_len content \<le> byte_budget policy then Some content
     else let total_lines = length (str_lines content)
          in map_option
               (\<lambda>r. lit ''Total output lines: '' @ show_nat total_lines @ [newline, newline] @ r)
               (truncate_text content policy))"

text \<open>The accumulation loop of \<open>formatted_truncate_text_content_items_with_policy\<close>.\<close>

fun combine_segments :: "str \<Rightarrow> str list \<Rightarrow> str" where
  "combine_segments combined [] = combined"
| "combine_segments combined (s # segments) =
    combine_segments ((if combined \<noteq> [] then combined @ [newline] else combined) @ s) segments"

fun text_segment :: "output_content_item \<Rightarrow> str option" where
  "text_segment (Output_Input_Text content) = Some content"
| "text_segment _ = None"

definition formatted_truncate_text_content_items_with_policy ::
    "output_content_item list \<Rightarrow> truncation_policy \<Rightarrow> (output_content_item list \<times> nat option) option" where
  "formatted_truncate_text_content_items_with_policy items policy =
    (let text_segments = filter_map text_segment items
     in if text_segments = [] then Some (items, None)
        else let combined = combine_segments [] text_segments
             in if str_len combined \<le> byte_budget policy then Some (items, None)
                else case formatted_truncate_text combined policy of
                       None \<Rightarrow> None
                     | Some shown \<Rightarrow>
                         Some (Output_Input_Text shown # filter (\<lambda>item. text_segment item = None) items,
                               Some (approx_token_count combined)))"

text \<open>
  The loop of \<open>truncate_function_output_items_with_policy\<close>: the produced items and the number of
  omitted text items. The first argument says whether the policy counts tokens.
\<close>

definition policy_of :: "bool \<Rightarrow> nat \<Rightarrow> truncation_policy" where
  "policy_of use_tokens budget = (if use_tokens then Tokens budget else Bytes budget)"

fun truncate_items :: "bool \<Rightarrow> output_content_item list \<Rightarrow> nat \<Rightarrow> (output_content_item list \<times> nat) option" where
  "truncate_items use_tokens [] remaining_budget = Some ([], 0)"
| "truncate_items use_tokens (Output_Input_Text content # items) remaining_budget =
    (if remaining_budget = 0
     then map_option (\<lambda>(out, omitted). (out, omitted + 1)) (truncate_items use_tokens items 0)
     else let cost = (if use_tokens then approx_token_count content else str_len content)
          in if cost \<le> remaining_budget
             then map_option (\<lambda>(out, omitted). (Output_Input_Text content # out, omitted))
                    (truncate_items use_tokens items (remaining_budget - cost))
             else case truncate_text content (policy_of use_tokens remaining_budget) of
                    None \<Rightarrow> None
                  | Some snippet \<Rightarrow>
                      map_option
                        (\<lambda>(out, omitted).
                           if snippet = [] then (out, omitted + 1) else (Output_Input_Text snippet # out, omitted))
                        (truncate_items use_tokens items 0))"
| "truncate_items use_tokens (Output_Input_Image image_url detail # items) remaining_budget =
    map_option (\<lambda>(out, omitted). (Output_Input_Image image_url detail # out, omitted))
      (truncate_items use_tokens items remaining_budget)"
| "truncate_items use_tokens (Output_Encrypted_Content content # items) remaining_budget =
    map_option (\<lambda>(out, omitted). (Output_Encrypted_Content content # out, omitted))
      (truncate_items use_tokens items remaining_budget)"

definition omitted_notice :: "nat \<Rightarrow> str" where
  "omitted_notice n = lit ''[omitted '' @ show_nat n @ lit '' text items ...]''"

definition truncate_function_output_items_with_policy ::
    "output_content_item list \<Rightarrow> truncation_policy \<Rightarrow> output_content_item list option" where
  "truncate_function_output_items_with_policy items policy =
    (let (use_tokens, budget) =
           (case policy of Bytes _ \<Rightarrow> (False, byte_budget policy) | Tokens _ \<Rightarrow> (True, token_budget policy))
     in map_option
          (\<lambda>(out, omitted). if 0 < omitted then out @ [Output_Input_Text (omitted_notice omitted)] else out)
          (truncate_items use_tokens items budget))"

section \<open>Floating-point budgets\<close>

text \<open>
  \<open>policy * 1.2\<close>: conversion of a \<open>usize\<close> to \<open>f64\<close>, the product with the double nearest to 1.2 (which
  is \<open>5404319552844595 / 2^52\<close>), \<open>ceil\<close> and the saturating conversion back, in exact integers. A
  \<open>f64\<close> holds 53 significant bits and rounds to nearest, ties to even.
\<close>

function bit_length :: "nat \<Rightarrow> nat" where
  "bit_length n = (if n = 0 then 0 else Suc (bit_length (n div 2)))"
  by auto

termination
  by (relation "measure id") simp_all

declare bit_length.simps [simp del]

definition f64_round :: "nat \<Rightarrow> nat" where
  "f64_round p =
    (let k = bit_length p - 53; q = p div 2 ^ k; r = p mod 2 ^ k
     in if k = 0 then p
        else if 2 * r < 2 ^ k \<or> (2 * r = 2 ^ k \<and> even q) then q * 2 ^ k
        else (q + 1) * 2 ^ k)"

definition f64_1_2 :: nat where
  "f64_1_2 = 5404319552844595"

definition mul_1_2 :: "nat \<Rightarrow> nat" where
  "mul_1_2 n = min usize_max ((f64_round (f64_round n * f64_1_2) + (2 ^ 52 - 1)) div 2 ^ 52)"

fun policy_mul_1_2 :: "truncation_policy \<Rightarrow> truncation_policy" where
  "policy_mul_1_2 (Bytes bytes) = Bytes (mul_1_2 bytes)"
| "policy_mul_1_2 (Tokens tokens) = Tokens (mul_1_2 tokens)"

section \<open>Other string helpers\<close>

fun char_boundary_scan :: "nat \<Rightarrow> str \<Rightarrow> nat \<Rightarrow> nat \<Rightarrow> nat" where
  "char_boundary_scan maxb [] i last_ok = last_ok"
| "char_boundary_scan maxb (ch # s) i last_ok =
    (let nb = i + utf8_width ch
     in if maxb < nb then last_ok else char_boundary_scan maxb s nb nb)"

definition take_bytes_at_char_boundary :: "str \<Rightarrow> nat \<Rightarrow> str option" where
  "take_bytes_at_char_boundary s maxb =
    (if str_len s \<le> maxb then Some s else slice_to (char_boundary_scan maxb s 0 0) s)"

definition is_ascii_alphanumeric :: "uchar \<Rightarrow> bool" where
  "is_ascii_alphanumeric c \<longleftrightarrow> (48 \<le> c \<and> c \<le> 57) \<or> (65 \<le> c \<and> c \<le> 90) \<or> (97 \<le> c \<and> c \<le> 122)"

definition underscore :: uchar where
  "underscore = 95"

definition metric_char :: "uchar \<Rightarrow> bool" where
  "metric_char c \<longleftrightarrow> is_ascii_alphanumeric c \<or> c = 46 \<or> c = underscore \<or> c = 45 \<or> c = 47"

definition sanitize_metric_tag_value :: "str \<Rightarrow> str option" where
  "sanitize_metric_tag_value value =
    (let sanitized = map (\<lambda>ch. if metric_char ch then ch else underscore) value;
         trimmed = rev (dropWhile ((=) underscore) (rev (dropWhile ((=) underscore) sanitized)))
     in if trimmed = [] \<or> list_all (\<lambda>ch. \<not> is_ascii_alphanumeric ch) trimmed then Some (lit ''unspecified'')
        else if str_len trimmed \<le> 256 then Some trimmed
        else slice_to 256 trimmed)"

section \<open>No slice panics\<close>

lemma str_len_simps [simp]:
  "str_len [] = 0" "str_len (c # s) = utf8_width c + str_len s" "str_len (s @ s') = str_len s + str_len s'"
  by (simp_all add: str_len_def)

lemma utf8_width_pos: "0 < utf8_width c"
  by (simp add: utf8_width_def)

lemma str_len_zero [simp]: "str_len s = 0 \<longleftrightarrow> s = []"
  using utf8_width_pos by (cases s) (auto simp: neq0_conv[symmetric] simp del: neq0_conv)

lemma str_len_pos [simp]: "0 < str_len s \<longleftrightarrow> s \<noteq> []"
  by (cases s) (simp_all add: utf8_width_pos)

lemma length_le_str_len: "length s \<le> str_len s"
proof (induction s)
  case (Cons c s)
  then show ?case using utf8_width_pos[of c] by (simp add: Suc_le_eq)
qed simp

lemma slice_to_append [simp]: "slice_to (str_len a) (a @ b) = Some a"
proof (induction a)
  case (Cons c a)
  obtain n where n: "str_len (c # a) = Suc n" using utf8_width_pos[of c] by (cases "str_len (c # a)") auto
  then have "Suc n - utf8_width c = str_len a" "utf8_width c \<le> Suc n" by simp_all
  then show ?case using Cons n by simp
qed simp

lemma slice_from_append [simp]: "slice_from (str_len a) (a @ b) = Some b"
proof (induction a)
  case (Cons c a)
  obtain n where n: "str_len (c # a) = Suc n" using utf8_width_pos[of c] by (cases "str_len (c # a)") auto
  then have "Suc n - utf8_width c = str_len a" "utf8_width c \<le> Suc n" by simp_all
  then show ?case using Cons n by simp
qed simp

text \<open>The three phases of the scan: prefix, removed middle, suffix.\<close>

lemma split_scan_prefix:
  "idx + str_len p \<le> b \<Longrightarrow>
   split_scan b t (p @ r) idx pe ss rc st =
     split_scan b t r (idx + str_len p) (if p = [] then pe else idx + str_len p) ss rc st"
  by (induction p arbitrary: idx pe) (simp_all add: add.assoc Let_def)

lemma split_scan_middle:
  "\<forall>i<length m. idx + str_len (take i m) < t \<Longrightarrow> m \<noteq> [] \<longrightarrow> b < idx + utf8_width (hd m) \<Longrightarrow>
   rc + length m \<le> usize_max \<Longrightarrow>
   split_scan b t (m @ r) idx pe ss rc st = split_scan b t r (idx + str_len m) pe ss (rc + length m) st"
proof (induction m arbitrary: idx rc)
  case (Cons c m)
  have later: "\<forall>i<length m. idx + utf8_width c + str_len (take i m) < t"
    using Cons.prems(1) by (auto simp: add.assoc dest: spec[of _ "Suc _"])
  have "idx < t" using Cons.prems(1) by force
  moreover have "b < idx + utf8_width c" using Cons.prems(2) by simp
  moreover have "split_scan b t (m @ r) (idx + utf8_width c) pe ss (Suc rc) st =
      split_scan b t r (idx + utf8_width c + str_len m) pe ss (Suc rc + length m) st"
    using later Cons.prems(3) \<open>b < idx + utf8_width c\<close> by (intro Cons.IH) auto
  ultimately show ?case
    using Cons.prems(3) by (simp add: saturating_add_usize_def add.assoc min_absorb2)
qed simp

lemma split_scan_started:
  "t \<le> idx \<Longrightarrow> b < idx + utf8_width (hd r) \<or> r = [] \<Longrightarrow> split_scan b t r idx pe ss rc True = (pe, ss, rc)"
proof (induction r arbitrary: idx)
  case (Cons c r)
  then show ?case by (auto simp: Let_def)
qed simp

lemma split_scan_suffix:
  "r \<noteq> [] \<longrightarrow> t \<le> idx \<and> b < idx + utf8_width (hd r) \<Longrightarrow>
   split_scan b t r idx pe ss rc False = (pe, (if r = [] then ss else idx), rc)"
  using split_scan_started[of t "idx + utf8_width (hd r)" b "tl r" pe idx rc]
  by (cases r) (auto simp: Let_def)

text \<open>Every text splits into these three phases.\<close>

lemma fitting_prefix:
  obtains p r where "s = p @ r" "str_len p \<le> b" "r \<noteq> [] \<longrightarrow> b < str_len p + utf8_width (hd r)"
proof (induction s arbitrary: b thesis)
  case (Cons c s)
  show ?case
  proof (cases "utf8_width c \<le> b")
    case True
    show ?thesis
    proof (rule Cons.IH[of "b - utf8_width c"])
      fix p r
      assume "s = p @ r" "str_len p \<le> b - utf8_width c" "r \<noteq> [] \<longrightarrow> b - utf8_width c < str_len p + utf8_width (hd r)"
      then show thesis using True by (intro Cons.prems[of "c # p" r]) auto
    qed
  next
    case False
    then show ?thesis by (intro Cons.prems[of "[]" "c # s"]) simp_all
  qed
qed simp

lemma removed_middle:
  obtains m r where "s = m @ r" "\<forall>i<length m. idx + str_len (take i m) < t" "r \<noteq> [] \<longrightarrow> t \<le> idx + str_len m"
proof (induction s arbitrary: idx thesis)
  case (Cons c s)
  show ?case
  proof (cases "idx < t")
    case True
    show ?thesis
    proof (rule Cons.IH[of "idx + utf8_width c"])
      fix m r
      assume m: "s = m @ r" "\<forall>i<length m. idx + utf8_width c + str_len (take i m) < t"
        "r \<noteq> [] \<longrightarrow> t \<le> idx + utf8_width c + str_len m"
      have "\<forall>i<length (c # m). idx + str_len (take i (c # m)) < t"
        using m(2) True by (auto simp: take_Cons' add.assoc)
      then show thesis using m by (intro Cons.prems[of "c # m" r]) (auto simp: add.assoc)
    qed
  next
    case False
    then show ?thesis by (intro Cons.prems[of "[]" "c # s"]) simp_all
  qed
qed simp

lemma split_phases:
  obtains p m r where "s = p @ m @ r" "str_len p \<le> b"
    "m @ r \<noteq> [] \<longrightarrow> b < str_len p + utf8_width (hd (m @ r))"
    "\<forall>i<length m. str_len p + str_len (take i m) < t" "r \<noteq> [] \<longrightarrow> t \<le> str_len p + str_len m"
proof -
  obtain p s' where p: "s = p @ s'" "str_len p \<le> b" "s' \<noteq> [] \<longrightarrow> b < str_len p + utf8_width (hd s')"
    by (rule fitting_prefix)
  obtain m r where "s' = m @ r" "\<forall>i<length m. str_len p + str_len (take i m) < t"
    "r \<noteq> [] \<longrightarrow> t \<le> str_len p + str_len m"
    by (rule removed_middle)
  then show thesis using p that by simp
qed

lemma split_scan_phases:
  assumes "str_len p \<le> b" "m @ r \<noteq> [] \<longrightarrow> b < str_len p + utf8_width (hd (m @ r))"
    "\<forall>i<length m. str_len p + str_len (take i m) < t" "r \<noteq> [] \<longrightarrow> t \<le> str_len p + str_len m"
    "length m \<le> usize_max"
  shows "split_scan b t (p @ m @ r) 0 0 (str_len (p @ m @ r)) 0 False = (str_len p, str_len p + str_len m, length m)"
proof -
  have first: "m \<noteq> [] \<longrightarrow> b < str_len p + utf8_width (hd m)"
    using assms(2) by (cases m) auto
  have beyond: "r \<noteq> [] \<longrightarrow> b < str_len p + str_len m + utf8_width (hd r)"
    using assms(2) utf8_width_pos by (cases m) auto
  have "split_scan b t (p @ m @ r) 0 0 (str_len (p @ m @ r)) 0 False =
      split_scan b t (m @ r) (str_len p) (str_len p) (str_len (p @ m @ r)) 0 False"
    using split_scan_prefix[of 0 p b t "m @ r" 0 "str_len (p @ m @ r)" 0 False] assms(1) by simp
  also have "\<dots> = split_scan b t r (str_len p + str_len m) (str_len p) (str_len (p @ m @ r)) (length m) False"
    using split_scan_middle[of m "str_len p" t b 0 r "str_len p" "str_len (p @ m @ r)" False] assms(3,5) first by simp
  also have "\<dots> = (str_len p, str_len p + str_len m, length m)"
    using assms(4) beyond by (subst split_scan_suffix) auto
  finally show ?thesis .
qed

lemma split_string_phases:
  assumes "str_len s \<le> usize_max"
  obtains before middle after where
    "split_string s b e = Some (length middle, before, after)" "s = before @ middle @ after"
    "str_len before \<le> b" "middle @ after \<noteq> [] \<longrightarrow> b < str_len before + utf8_width (hd (middle @ after))"
    "str_len after \<le> e" "middle \<noteq> [] \<longrightarrow> e < utf8_width (last middle) + str_len after"
proof -
  obtain p m r where ph: "s = p @ m @ r" "str_len p \<le> b"
    "m @ r \<noteq> [] \<longrightarrow> b < str_len p + utf8_width (hd (m @ r))"
    "\<forall>i<length m. str_len p + str_len (take i m) < str_len s - e" "r \<noteq> [] \<longrightarrow> str_len s - e \<le> str_len p + str_len m"
    by (rule split_phases)
  have "length m \<le> usize_max"
    using assms length_le_str_len[of m] by (simp add: ph(1))
  note scan = split_scan_phases[OF ph(2-5) this]
  have suffix: "slice_from (str_len p + str_len m) (p @ m @ r) = Some r"
    using slice_from_append[of "p @ m" r] by simp
  have "split_string s b e = Some (length m, p, r)"
    using scan suffix by (auto simp: split_string_def ph(1) Let_def)
  moreover have "str_len r \<le> e" using ph(1,5) by (cases "r = []") auto
  moreover have "e < utf8_width (last m) + str_len r" if "m \<noteq> []"
  proof -
    have "str_len p + str_len (butlast m) < str_len s - e"
      using ph(4) that by (simp add: butlast_conv_take)
    moreover have "str_len m = str_len (butlast m) + utf8_width (last m)"
      using that str_len_simps(3)[of "butlast m" "[last m]"] by simp
    ultimately show ?thesis by (simp add: ph(1))
  qed
  ultimately show thesis using that ph by blast
qed

text \<open>The other slices: the longest prefix within a byte budget, and ASCII tags.\<close>

lemma char_boundary_scan_prefix:
  "i + str_len p \<le> maxb \<Longrightarrow> r \<noteq> [] \<longrightarrow> maxb < i + str_len p + utf8_width (hd r) \<Longrightarrow>
   char_boundary_scan maxb (p @ r) i last_ok = (if p = [] then last_ok else i + str_len p)"
proof (induction p arbitrary: i last_ok)
  case Nil
  then show ?case by (cases r) simp_all
next
  case (Cons c p)
  then show ?case by (auto simp: Let_def add.assoc)
qed

lemma take_bytes_longest_prefix:
  "\<exists>p r. take_bytes_at_char_boundary s maxb = Some p \<and> s = p @ r \<and> str_len p \<le> maxb
     \<and> (r \<noteq> [] \<longrightarrow> maxb < str_len p + utf8_width (hd r))"
proof -
  obtain p r where p: "s = p @ r" "str_len p \<le> maxb" "r \<noteq> [] \<longrightarrow> maxb < str_len p + utf8_width (hd r)"
    by (rule fitting_prefix)
  have "char_boundary_scan maxb s 0 0 = str_len p"
    using char_boundary_scan_prefix[of 0 p maxb r 0] p by (simp split: if_splits)
  moreover have "str_len s \<le> maxb \<Longrightarrow> r = []"
    using p utf8_width_pos by (cases r) auto
  ultimately show ?thesis
    using p by (intro exI[of _ p] exI[of _ r]) (auto simp: take_bytes_at_char_boundary_def)
qed

lemma slice_to_ascii: "(\<And>c. c \<in> set s \<Longrightarrow> c < 128) \<Longrightarrow> n \<le> length s \<Longrightarrow> slice_to n s = Some (take n s)"
  by (induction n s rule: slice_to.induct) (auto simp: utf8_width_def)

lemma sanitize_metric_tag_value_valid:
  "\<exists>tag. sanitize_metric_tag_value value = Some tag \<and> list_all metric_char tag \<and> tag \<noteq> [] \<and> length tag \<le> 256"
proof -
  define sanitized where "sanitized = map (\<lambda>ch. if metric_char ch then ch else underscore) value"
  define trimmed where "trimmed = rev (dropWhile ((=) underscore) (rev (dropWhile ((=) underscore) sanitized)))"
  have "set trimmed \<subseteq> set sanitized"
    by (auto simp: trimmed_def dest!: set_dropWhileD)
  moreover have "metric_char c" if "c \<in> set sanitized" for c
    using that by (auto simp: sanitized_def metric_char_def)
  ultimately have valid: "metric_char c" if "c \<in> set trimmed" for c using that by blast
  have ascii: "c < 128" if "c \<in> set trimmed" for c
    using valid[OF that] by (auto simp: metric_char_def is_ascii_alphanumeric_def underscore_def)
  have len: "str_len trimmed = length trimmed"
    using ascii by (induction trimmed) (simp_all add: utf8_width_def)
  have unspecified: "list_all metric_char (lit ''unspecified'')" "length (lit ''unspecified'') \<le> 256"
    by (simp_all add: lit_def metric_char_def is_ascii_alphanumeric_def)
  show ?thesis
    using slice_to_ascii[of trimmed 256, OF ascii] valid unspecified len in_set_takeD[where n = 256 and xs = trimmed]
    unfolding sanitize_metric_tag_value_def Let_def sanitized_def[symmetric] trimmed_def[symmetric]
    by (auto simp: list_all_iff)
qed

section \<open>What truncation keeps\<close>

lemma truncate_phases:
  assumes "limit < str_len s" "str_len s \<le> usize_max"
  obtains before middle after where
    "truncate_with_byte_estimate s limit use_tokens =
       Some (before @ format_truncation_marker use_tokens
               (if use_tokens then approx_tokens_from_byte_count (str_len s - limit) else length middle) @ after)"
    "s = before @ middle @ after" "middle \<noteq> []"
    "str_len before \<le> limit div 2" "limit div 2 < str_len before + utf8_width (hd middle)"
    "str_len after \<le> limit - limit div 2" "limit - limit div 2 < utf8_width (last middle) + str_len after"
proof (cases "limit = 0")
  case True
  then show thesis
    using assms(1) that[of "[]" s "[]"] utf8_width_pos
    by (cases use_tokens) (auto simp: truncate_with_byte_estimate_def removed_units_def Let_def)
next
  case False
  obtain before middle after where ph:
    "split_string s (limit div 2) (limit - limit div 2) = Some (length middle, before, after)"
    "s = before @ middle @ after" "str_len before \<le> limit div 2"
    "middle @ after \<noteq> [] \<longrightarrow> limit div 2 < str_len before + utf8_width (hd (middle @ after))"
    "str_len after \<le> limit - limit div 2"
    "middle \<noteq> [] \<longrightarrow> limit - limit div 2 < utf8_width (last middle) + str_len after"
    using split_string_phases[OF assms(2)] by metis
  have "middle \<noteq> []" using assms(1) ph(2,3,5) by (cases middle) auto
  moreover have "truncate_with_byte_estimate s limit use_tokens =
       Some (before @ format_truncation_marker use_tokens
               (if use_tokens then approx_tokens_from_byte_count (str_len s - limit) else length middle) @ after)"
    using False assms(1) ph(1)
    by (auto simp: truncate_with_byte_estimate_def split_budget_def removed_units_def
        assemble_truncated_output_def Let_def)
  ultimately show thesis using that ph by auto
qed

lemma truncate_short: "str_len s \<le> limit \<Longrightarrow> truncate_with_byte_estimate s limit use_tokens = Some s"
  by (auto simp: truncate_with_byte_estimate_def Let_def)

section \<open>Sizes of the markers\<close>

lemma show_nat_ascii: "c \<in> set (show_nat n) \<Longrightarrow> c < 128"
proof (induction n rule: show_nat.induct)
  case (1 n)
  then show ?case by (subst (asm) (2) show_nat.simps) (auto split: if_splits)
qed

lemma str_len_ascii: "(\<And>c. c \<in> set s \<Longrightarrow> c < 128) \<Longrightarrow> str_len s = length s"
  by (induction s) (simp_all add: utf8_width_def)

lemma length_show_nat: "n < 10 ^ Suc k \<Longrightarrow> length (show_nat n) \<le> Suc k"
proof (induction k arbitrary: n)
  case 0
  then show ?case by (simp add: show_nat.simps)
next
  case (Suc k)
  then have "n div 10 < 10 ^ Suc k" by (simp add: less_mult_imp_div_less mult.commute)
  then show ?case using Suc.IH[of "n div 10"] by (subst show_nat.simps) simp
qed

lemma str_len_show_nat: "n \<le> usize_max \<Longrightarrow> str_len (show_nat n) \<le> 20"
  using length_show_nat[of n 19] str_len_ascii[of "show_nat n"] show_nat_ascii[of _ n]
  by (simp add: usize_max_def)

lemma str_len_marker: "n \<le> usize_max \<Longrightarrow> str_len (format_truncation_marker use_tokens n) \<le> 43"
  using str_len_show_nat[of n]
  by (simp add: format_truncation_marker_def ellipsis_def lit_def utf8_width_def)

lemma marker_nonempty [simp]: "format_truncation_marker use_tokens n \<noteq> []"
  by (simp add: format_truncation_marker_def)

lemma str_len_omitted_notice: "n \<le> usize_max \<Longrightarrow> str_len (omitted_notice n) \<le> 45"
  using str_len_show_nat[of n] by (simp add: omitted_notice_def lit_def utf8_width_def)

section \<open>Sizes of truncated outputs\<close>

definition text_bytes :: "output_content_item list \<Rightarrow> nat" where
  "text_bytes items = sum_list (map str_len (filter_map text_segment items))"

lemma text_bytes_simps [simp]:
  "text_bytes [] = 0"
  "text_bytes (Output_Input_Text s # items) = str_len s + text_bytes items"
  "text_bytes (Output_Input_Image u d # items) = text_bytes items"
  "text_bytes (Output_Encrypted_Content s # items) = text_bytes items"
  "text_bytes (items @ items') = text_bytes items + text_bytes items'"
  by (simp_all add: text_bytes_def)

definition other_items :: "output_content_item list \<Rightarrow> output_content_item list" where
  "other_items items = filter (\<lambda>item. text_segment item = None) items"

lemma other_items_simps [simp]:
  "other_items [] = []"
  "other_items (Output_Input_Text s # items) = other_items items"
  "other_items (Output_Input_Image u d # items) = Output_Input_Image u d # other_items items"
  "other_items (Output_Encrypted_Content s # items) = Output_Encrypted_Content s # other_items items"
  "other_items (items @ items') = other_items items @ other_items items'"
  by (simp_all add: other_items_def)

text \<open>Bytes that a budget unit stands for.\<close>

definition unit_bytes :: "bool \<Rightarrow> nat" where
  "unit_bytes use_tokens = (if use_tokens then 4 else 1)"

lemma approx_token_count_le:
  "str_len s \<le> isize_max \<Longrightarrow> approx_token_count s \<le> r \<longleftrightarrow> str_len s \<le> 4 * r"
  by (auto simp: approx_token_count_def approx_bytes_per_token_def saturating_add_usize_def usize_max_def
      isize_max_def min_def)

lemma truncate_items_zero:
  "\<exists>omitted. truncate_items use_tokens items 0 = Some (other_items items, omitted) \<and> omitted \<le> length items"
proof (induction items)
  case (Cons item items)
  then show ?case by (cases item) auto
qed simp

lemma truncate_text_over_budget:
  assumes "str_len s \<le> isize_max" "unit_bytes use_tokens * r < str_len s"
  shows "\<exists>shown. truncate_text s (policy_of use_tokens r) = Some shown \<and> shown \<noteq> []
    \<and> str_len shown \<le> unit_bytes use_tokens * r + 43"
proof -
  let ?limit = "unit_bytes use_tokens * r"
  have small: "str_len s \<le> usize_max" using assms(1) by (simp add: isize_max_def usize_max_def)
  obtain before middle after where ph:
    "truncate_with_byte_estimate s ?limit use_tokens =
       Some (before @ format_truncation_marker use_tokens
               (if use_tokens then approx_tokens_from_byte_count (str_len s - ?limit) else length middle) @ after)"
    "s = before @ middle @ after" "str_len before \<le> ?limit div 2" "str_len after \<le> ?limit - ?limit div 2"
    using truncate_phases[OF assms(2) small] by metis
  let ?n = "if use_tokens then approx_tokens_from_byte_count (str_len s - ?limit) else length middle"
  have "?n \<le> usize_max"
    using small length_le_str_len[of middle] ph(2)
    by (auto simp: approx_tokens_from_byte_count_def saturating_add_usize_def approx_bytes_per_token_def min_def)
  then obtain shown where shown: "truncate_with_byte_estimate s ?limit use_tokens = Some shown"
    "shown \<noteq> []" "str_len shown \<le> ?limit + 43"
    using str_len_marker[of ?n use_tokens] ph by auto
  have "approx_bytes_for_tokens r = 4 * r" if use_tokens
    using that assms by (simp add: approx_bytes_for_tokens_def saturating_mul_usize_def approx_bytes_per_token_def
        unit_bytes_def isize_max_def usize_max_def)
  then show ?thesis
    using shown assms(2)
    by (cases use_tokens)
      (auto simp: policy_of_def truncate_middle_chars_def truncate_middle_with_token_budget_def unit_bytes_def Let_def)
qed

lemma truncate_items_bound:
  "\<forall>s. Output_Input_Text s \<in> set items \<longrightarrow> str_len s \<le> isize_max \<Longrightarrow>
   \<exists>out omitted. truncate_items use_tokens items r = Some (out, omitted) \<and> omitted \<le> length items
     \<and> other_items out = other_items items \<and> text_bytes out \<le> unit_bytes use_tokens * r + 43"
proof (induction items arbitrary: r)
  case Nil
  then show ?case by simp
next
  case (Cons item items)
  have IH: "\<exists>out omitted. truncate_items use_tokens items r = Some (out, omitted) \<and> omitted \<le> length items
     \<and> other_items out = other_items items \<and> text_bytes out \<le> unit_bytes use_tokens * r + 43" for r
    using Cons.IH[of r] Cons.prems by simp
  show ?case
  proof (cases item)
    case (Output_Input_Text s)
    have size: "str_len s \<le> isize_max" using Cons.prems Output_Input_Text by simp
    let ?cost = "if use_tokens then approx_token_count s else str_len s"
    have cost: "?cost \<le> r \<longleftrightarrow> str_len s \<le> unit_bytes use_tokens * r" for r
      using approx_token_count_le[OF size] by (simp add: unit_bytes_def)
    obtain omitted where zero: "truncate_items use_tokens items 0 = Some (other_items items, omitted)"
      "omitted \<le> length items"
      using truncate_items_zero by blast
    have no_text: "text_bytes (other_items items) = 0" "other_items (other_items items) = other_items items"
      by (induction items) (auto simp: other_items_def text_bytes_def)
    consider "r = 0" | "0 < r" "?cost \<le> r" | "0 < r" "\<not> ?cost \<le> r" by blast
    then show ?thesis
    proof cases
      case 1
      then show ?thesis using zero no_text Output_Input_Text by simp
    next
      case 2
      obtain out om where rest: "truncate_items use_tokens items (r - ?cost) = Some (out, om)" "om \<le> length items"
        "other_items out = other_items items" "text_bytes out \<le> unit_bytes use_tokens * (r - ?cost) + 43"
        using IH by blast
      have "str_len s \<le> unit_bytes use_tokens * ?cost" using cost[of ?cost] by simp
      then have "str_len s + text_bytes out \<le> unit_bytes use_tokens * r + 43"
        using rest(4) le_Suc_ex[OF 2(2)] by (auto simp: distrib_left)
      then show ?thesis using 2 rest Output_Input_Text by (simp add: Let_def)
    next
      case 3
      then obtain shown where "truncate_text s (policy_of use_tokens r) = Some shown" "shown \<noteq> []"
        "str_len shown \<le> unit_bytes use_tokens * r + 43"
        using truncate_text_over_budget[OF size, of use_tokens r] cost[of r] by auto
      then show ?thesis using 3 zero no_text Output_Input_Text by (simp add: Let_def)
    qed
  next
    case (Output_Input_Image u d)
    then show ?thesis using IH[of r] by auto
  next
    case (Output_Encrypted_Content s)
    then show ?thesis using IH[of r] by auto
  qed
qed

definition policy_bytes :: "truncation_policy \<Rightarrow> nat" where
  "policy_bytes policy = (case policy of Bytes n \<Rightarrow> n | Tokens n \<Rightarrow> 4 * n)"

lemma truncate_function_output_items_bound:
  assumes "\<forall>s. Output_Input_Text s \<in> set items \<longrightarrow> str_len s \<le> isize_max" "length items \<le> isize_max"
  shows "\<exists>out. truncate_function_output_items_with_policy items policy = Some out
    \<and> other_items out = other_items items \<and> text_bytes out \<le> policy_bytes policy + 88"
proof -
  let ?tok = "case policy of Bytes _ \<Rightarrow> False | Tokens _ \<Rightarrow> True"
  let ?n = "case policy of Bytes n \<Rightarrow> n | Tokens n \<Rightarrow> n"
  obtain out omitted where out: "truncate_items ?tok items ?n = Some (out, omitted)" "omitted \<le> length items"
    "other_items out = other_items items" "text_bytes out \<le> unit_bytes ?tok * ?n + 43"
    using truncate_items_bound[OF assms(1)] by blast
  have "str_len (omitted_notice omitted) \<le> 45"
    using str_len_omitted_notice[of omitted] out(2) assms(2) by (simp add: isize_max_def usize_max_def)
  then show ?thesis
    using out by (cases policy) (auto simp: truncate_function_output_items_with_policy_def policy_bytes_def unit_bytes_def)
qed

section \<open>The serialization margin\<close>

lemma bit_length_bounds: "0 < p \<Longrightarrow> 2 ^ (bit_length p - 1) \<le> p \<and> p < 2 ^ bit_length p"
proof (induction p rule: bit_length.induct)
  case (1 p)
  show ?case
  proof (cases "p = 1")
    case True
    then show ?thesis by (simp add: bit_length.simps)
  next
    case False
    then have IH: "2 ^ (bit_length (p div 2) - 1) \<le> p div 2" "p div 2 < 2 ^ bit_length (p div 2)"
      using 1 by simp_all
    have "0 < bit_length (p div 2)" using 1 False by (subst bit_length.simps) simp
    then have "(2::nat) ^ bit_length (p div 2) = 2 * 2 ^ (bit_length (p div 2) - 1)"
      by (cases "bit_length (p div 2)") simp_all
    moreover have "bit_length p = Suc (bit_length (p div 2))"
      using 1(2) by (subst bit_length.simps) simp
    moreover define x where "x = (2::nat) ^ (bit_length (p div 2) - 1)"
    ultimately show ?thesis using IH by simp linarith
  qed
qed

lemma f64_round_small: "p < 2 ^ 53 \<Longrightarrow> f64_round p = p"
proof -
  assume p: "p < 2 ^ 53"
  have "bit_length p \<le> 53"
  proof (rule ccontr)
    assume "\<not> bit_length p \<le> 53"
    then have "0 < p" by (auto simp: bit_length.simps[of 0] intro: gr0I)
    moreover have "(2::nat) ^ 53 \<le> 2 ^ (bit_length p - 1)"
      using \<open>\<not> bit_length p \<le> 53\<close> by (intro power_increasing) simp_all
    ultimately show False using bit_length_bounds[of p] p by linarith
  qed
  then show ?thesis by (simp add: f64_round_def)
qed

text \<open>Rounding moves a value by at most its last significant bit.\<close>

lemma f64_round_error:
  "f64_round p \<le> p + p div 2 ^ 53 \<and> p \<le> f64_round p + p div 2 ^ 53"
proof -
  let ?k = "bit_length p - 53"
  show ?thesis
  proof (cases "?k = 0")
    case True
    then show ?thesis by (simp add: f64_round_def)
  next
    case False
    define k where "k = ?k"
    obtain j where j: "k = Suc j" using False by (cases k) (simp_all add: k_def)
    have "0 < p" using False by (auto simp: bit_length.simps[of 0] intro: gr0I)
    moreover have "bit_length p - 1 = 53 + j" using False j k_def by linarith
    ultimately have "2 ^ 53 * 2 ^ j \<le> p" using bit_length_bounds[of p] by (simp add: power_add)
    then have half: "2 ^ j \<le> p div 2 ^ 53"
      by (metis div_le_mono nonzero_mult_div_cancel_left power_not_zero zero_neq_numeral)
    let ?q = "p div 2 ^ k" and ?r = "p mod 2 ^ k"
    have p: "p = ?q * 2 ^ k + ?r" by (simp only: div_mult_mod_eq)
    have r: "?r < 2 ^ k" by simp
    have two: "(2::nat) ^ k = 2 * 2 ^ j" by (simp add: j)
    have "f64_round p = ?q * 2 ^ k \<and> ?r \<le> 2 ^ j \<or> f64_round p = ?q * 2 ^ k + 2 ^ k \<and> 2 ^ j \<le> ?r"
      using False two by (auto simp: f64_round_def Let_def simp flip: k_def)
    then show ?thesis using p r two half by linarith
  qed
qed

lemma mul_1_2_bounds:
  assumes "n < 2 ^ 53"
  shows "n \<le> mul_1_2 n" "mul_1_2 n \<le> n + n div 5 + 3"
proof -
  define p where "p = n * f64_1_2"
  define R where "R = f64_round p"
  have p: "5 * p + n = n * (6 * 2 ^ 52)" by (simp add: p_def f64_1_2_def)
  have R: "R \<le> p + p div 2 ^ 53" "p \<le> R + p div 2 ^ 53" using f64_round_error[of p] by (simp_all add: R_def)
  have m: "mul_1_2 n = min usize_max ((R + (2 ^ 52 - 1)) div 2 ^ 52)"
    by (simp add: mul_1_2_def f64_round_small[OF assms] R_def p_def)
  have d: "p div 2 ^ 53 * 2 ^ 53 \<le> p" by simp
  have "n * 2 ^ 52 \<le> R" using p R d by simp
  then have "n \<le> (R + (2 ^ 52 - 1)) div 2 ^ 52" by simp
  then show "n \<le> mul_1_2 n" using m assms by (simp add: usize_max_def)
  have "R + (2 ^ 52 - 1) < (n + n div 5 + 4) * 2 ^ 52" using p R d assms by simp
  then have "(R + (2 ^ 52 - 1)) div 2 ^ 52 < n + n div 5 + 4" by (rule less_mult_imp_div_less)
  then show "mul_1_2 n \<le> n + n div 5 + 3" using m by simp
qed

section \<open>Properties\<close>

text \<open>
  C27: Truncation to a byte budget never panics and cuts exactly one block out of the middle. A text
  within the budget is unchanged. A longer one keeps a beginning of at most half the budget and an
  end of at most the rest, both as long as character boundaries allow, and the marker between them
  gives the number of characters removed.
\<close>

theorem truncate_middle_chars_cuts_middle:
  assumes "str_len s \<le> isize_max"
  shows "\<exists>r. truncate_middle_chars s limit = Some r
    \<and> (if str_len s \<le> limit then r = s
       else \<exists>before middle after. s = before @ middle @ after \<and> middle \<noteq> []
              \<and> r = before @ format_truncation_marker False (length middle) @ after
              \<and> str_len before \<le> limit div 2 \<and> limit div 2 < str_len before + utf8_width (hd middle)
              \<and> str_len after \<le> limit - limit div 2
              \<and> limit - limit div 2 < utf8_width (last middle) + str_len after)"
proof (cases "str_len s \<le> limit")
  case True
  then show ?thesis by (simp add: truncate_middle_chars_def truncate_short)
next
  case False
  have small: "str_len s \<le> usize_max" using assms by (simp add: isize_max_def usize_max_def)
  show ?thesis
    by (rule truncate_phases[of limit s False])
      (use False small in \<open>auto simp: truncate_middle_chars_def\<close>)
qed

theorem truncate_middle_chars_cuts_middle_witness:
  "str_len (lit ''abcdefgh'') \<le> isize_max
   \<and> (\<exists>r. truncate_middle_chars (lit ''abcdefgh'') 4 = Some r
        \<and> (\<exists>before middle after. lit ''abcdefgh'' = before @ middle @ after
              \<and> r = before @ format_truncation_marker False (length middle) @ after \<and> str_len before \<le> 2))"
proof -
  have "str_len (lit ''abcdefgh'') = 8" by (simp add: lit_def utf8_width_def)
  then show ?thesis
    using truncate_middle_chars_cuts_middle[of "lit ''abcdefgh''" 4] by (auto simp: isize_max_def)
qed

text \<open>
  Whatever a tool returns, the text of its truncated content items is bounded by the policy's
  budget in bytes plus 88 bytes of markers, no slice panics, and the images and encrypted parts are
  all kept, in order.
\<close>

theorem truncated_items_bounded:
  assumes "\<forall>s. Output_Input_Text s \<in> set items \<longrightarrow> str_len s \<le> isize_max" "length items \<le> isize_max"
  shows "\<exists>out. truncate_function_output_items_with_policy items policy = Some out
    \<and> filter (\<lambda>item. text_segment item = None) out = filter (\<lambda>item. text_segment item = None) items
    \<and> sum_list (map str_len (filter_map text_segment out))
      \<le> (case policy of Bytes n \<Rightarrow> n | Tokens n \<Rightarrow> 4 * n) + 88"
  using truncate_function_output_items_bound[OF assms, of policy]
  by (simp add: other_items_def text_bytes_def policy_bytes_def)

theorem truncated_items_bounded_witness:
  "\<exists>out. truncate_function_output_items_with_policy
      [Output_Input_Text (lit ''abcdefgh''), Output_Encrypted_Content (lit ''k''), Output_Input_Text (lit ''zz'')]
      (Bytes 4) = Some out
    \<and> filter (\<lambda>item. text_segment item = None) out = [Output_Encrypted_Content (lit ''k'')]
    \<and> sum_list (map str_len (filter_map text_segment out)) \<le> 92"
  using truncated_items_bounded[of
      "[Output_Input_Text (lit ''abcdefgh''), Output_Encrypted_Content (lit ''k''), Output_Input_Text (lit ''zz'')]"
      "Bytes 4"]
  by (simp add: lit_def utf8_width_def isize_max_def)

end
