(* ===== verification/Contextual_Fragments.thy ===== *)
theory Contextual_Fragments
  imports Text_Truncation
begin

text \<open>
  Context that the agent injects into the conversation as messages of its own, and how it recognises
  such messages later: the trait \<open>ContextualUserFragment\<close> and its registered implementations
  (\<open>codex-rs/context-fragments\<close>, \<open>codex-rs/core/src/context\<close>), the classification of messages
  (\<open>codex-rs/core/src/event_mapping.rs\<close>), and the store of additional context
  (\<open>codex-rs/core/src/state/additional_context.rs\<close>). Recognition of hook prompts and of inter-agent
  messages goes through an XML and a JSON parser, which are parameters. The trait is the locale
  \<open>contextual_fragment\<close>, interpreted on every fragment type that the agent renders.
\<close>

section \<open>Text helpers\<close>

definition eq_ignore_ascii_case :: "str \<Rightarrow> str \<Rightarrow> bool" where
  "eq_ignore_ascii_case a b \<longleftrightarrow> to_ascii_lowercase a = to_ascii_lowercase b"

fun split_once_str :: "str \<Rightarrow> str \<Rightarrow> (str \<times> str) option" where
  "split_once_str sep [] = (if sep = [] then Some ([], []) else None)"
| "split_once_str sep (c # s) =
    (case strip_prefix sep (c # s) of
       Some r \<Rightarrow> Some ([], r)
     | None \<Rightarrow> map_option (\<lambda>(a, b). (c # a, b)) (split_once_str sep s))"

definition show_int :: "int \<Rightarrow> str" where
  "show_int i = (if i < 0 then lit ''-'' @ show_nat (nat (- i)) else show_nat (nat i))"

section \<open>The trait\<close>

definition matches_marked_text :: "str \<Rightarrow> str \<Rightarrow> str \<Rightarrow> bool" where
  "matches_marked_text start_marker end_marker s =
    (if start_marker = [] \<or> end_marker = [] then False
     else let trimmed = trim_start s;
              starts_with_marker =
                (case slice_to (str_len start_marker) trimmed of
                   Some candidate \<Rightarrow> eq_ignore_ascii_case candidate start_marker
                 | None \<Rightarrow> False);
              trimmed = trim_end trimmed;
              ends_with_marker =
                (case slice_from (str_len trimmed - str_len end_marker) trimmed of
                   Some candidate \<Rightarrow> eq_ignore_ascii_case candidate end_marker
                 | None \<Rightarrow> False)
          in starts_with_marker \<and> ends_with_marker)"

definition render_fragment :: "str \<times> str \<Rightarrow> str \<Rightarrow> str" where
  "render_fragment markers inner =
    (case markers of (start_marker, end_marker) \<Rightarrow>
       if start_marker = [] \<and> end_marker = [] then inner else start_marker @ inner @ end_marker)"

definition fragment_message :: "str \<Rightarrow> str \<Rightarrow> response_item" where
  "fragment_message role rendered = Message None role [Input_Text rendered] None"

section \<open>Marked fragments\<close>

definition user_instructions_markers :: "str \<times> str" where
  "user_instructions_markers = (lit ''# AGENTS.md instructions for '', lit ''</INSTRUCTIONS>'')"

definition user_instructions_body :: "str \<Rightarrow> str \<Rightarrow> str" where
  "user_instructions_body directory content =
    directory @ [newline, newline] @ lit ''<INSTRUCTIONS>'' @ [newline] @ content @ [newline]"

definition environment_context_markers :: "str \<times> str" where
  "environment_context_markers = (lit ''<environment_context>'', lit ''</environment_context>'')"

definition skill_markers :: "str \<times> str" where
  "skill_markers = (lit ''<skill>'', lit ''</skill>'')"

definition skill_body :: "str \<Rightarrow> str \<Rightarrow> str \<Rightarrow> str" where
  "skill_body name path contents =
    [newline] @ lit ''<name>'' @ name @ lit ''</name>'' @ [newline] @ lit ''<path>'' @ path @ lit ''</path>'' @
    [newline] @ contents @ [newline]"

definition user_shell_command_markers :: "str \<times> str" where
  "user_shell_command_markers = (lit ''<user_shell_command>'', lit ''</user_shell_command>'')"

text \<open>The duration is given as printed with four decimals.\<close>

definition user_shell_command_body :: "str \<Rightarrow> int \<Rightarrow> str \<Rightarrow> str \<Rightarrow> str" where
  "user_shell_command_body command exit_code duration_seconds output =
    [newline] @ lit ''<command>'' @ [newline] @ command @ [newline] @ lit ''</command>'' @ [newline] @
    lit ''<result>'' @ [newline] @ lit ''Exit code: '' @ show_int exit_code @ [newline] @
    lit ''Duration: '' @ duration_seconds @ lit '' seconds'' @ [newline] @ lit ''Output:'' @ [newline] @
    output @ [newline] @ lit ''</result>'' @ [newline]"

definition turn_aborted_markers :: "str \<times> str" where
  "turn_aborted_markers = (lit ''<turn_aborted>'', lit ''</turn_aborted>'')"

definition turn_aborted_body :: "str \<Rightarrow> str" where
  "turn_aborted_body guidance = [newline] @ guidance @ [newline]"

definition subagent_notification_markers :: "str \<times> str" where
  "subagent_notification_markers = (lit ''<subagent_notification>'', lit ''</subagent_notification>'')"

text \<open>The body is the serialized notification between newlines.\<close>

definition subagent_notification_body :: "str \<Rightarrow> str" where
  "subagent_notification_body json = [newline] @ json @ [newline]"

section \<open>Additional context\<close>

definition max_additional_context_value_tokens :: nat where
  "max_additional_context_value_tokens = 1000"

definition additional_context_markers :: "str \<times> str" where
  "additional_context_markers = (lit ''<external_'', lit ''>'')"

definition additional_context_body :: "str \<Rightarrow> str \<Rightarrow> str option" where
  "additional_context_body key val =
    map_option (\<lambda>(shown, _). key @ lit ''>'' @ shown @ lit ''</external_'' @ key)
      (truncate_middle_with_token_budget val max_additional_context_value_tokens)"

definition additional_context_developer_body :: "str \<Rightarrow> str \<Rightarrow> str option" where
  "additional_context_developer_body key val =
    map_option (\<lambda>(shown, _). lit ''<'' @ key @ lit ''>'' @ shown @ lit ''</'' @ key @ lit ''>'')
      (truncate_middle_with_token_budget val max_additional_context_value_tokens)"

definition additional_context_matches :: "str \<Rightarrow> bool" where
  "additional_context_matches s =
    (case strip_prefix (lit ''<external_'') (trim s) of
       None \<Rightarrow> False
     | Some rest \<Rightarrow>
         (case split_once_str (lit ''>'') rest of
            None \<Rightarrow> False
          | Some (key, value_and_close) \<Rightarrow>
              ends_with (lit ''</external_'' @ key @ lit ''>'') value_and_close))"

section \<open>Internal model context\<close>

definition internal_context_markers :: "str \<times> str" where
  "internal_context_markers = (lit ''<codex_internal_context'', lit ''</codex_internal_context>'')"

fun is_valid_source :: "str \<Rightarrow> bool" where
  "is_valid_source [] = False"
| "is_valid_source (first # rest) \<longleftrightarrow>
    97 \<le> first \<and> first \<le> 122 \<and>
    list_all (\<lambda>ch. (97 \<le> ch \<and> ch \<le> 122) \<or> is_ascii_digit ch \<or> ch = underscore) rest"

definition internal_context_source :: "str \<Rightarrow> (str, str) result" where
  "internal_context_source source = (if is_valid_source source then Ok source else Err source)"

definition internal_context_body :: "str \<Rightarrow> str \<Rightarrow> str" where
  "internal_context_body source inner = lit '' source='' @ [34] @ source @ [34] @ lit ''>'' @ [newline] @ inner @ [newline]"

definition matches_legacy_goal_context :: "str \<Rightarrow> bool" where
  "matches_legacy_goal_context s \<longleftrightarrow>
    starts_with (lit ''<goal_context>'') s \<and> ends_with (lit ''</goal_context>'') s"

definition internal_context_matches :: "str \<Rightarrow> bool" where
  "internal_context_matches s =
    (let trimmed = trim s
     in if matches_legacy_goal_context trimmed then True
        else case strip_prefix (lit ''<codex_internal_context'') trimmed of
               None \<Rightarrow> False
             | Some rest \<Rightarrow>
                 (case strip_prefix (lit '' source='' @ [34]) rest of
                    None \<Rightarrow> False
                  | Some rest \<Rightarrow>
                      (case split_once_str ([34] @ lit ''>'') rest of
                         None \<Rightarrow> False
                       | Some (source, body_and_close) \<Rightarrow>
                           is_valid_source source \<and> ends_with (lit ''</codex_internal_context>'') body_and_close)))"

section \<open>Legacy warnings\<close>

definition legacy_process_limit_matches :: "str \<Rightarrow> bool" where
  "legacy_process_limit_matches s =
    starts_with (lit ''Warning: The maximum number of unified exec processes you can keep open is'') (trim s)"

definition legacy_apply_patch_matches :: "str \<Rightarrow> bool" where
  "legacy_apply_patch_matches s \<longleftrightarrow>
    starts_with (lit ''Warning: apply_patch was requested via '') (trim s) \<and>
    ends_with (lit ''Use the apply_patch tool instead of exec_command.'') (trim s)"

definition legacy_model_mismatch_matches :: "str \<Rightarrow> bool" where
  "legacy_model_mismatch_matches s =
    starts_with (lit ''Warning: Your account was flagged for potentially high-risk cyber activity'') (trim s)"

section \<open>Classification of messages\<close>

definition contextual_user_fragments :: "(str \<Rightarrow> bool) list" where
  "contextual_user_fragments =
    [case_prod matches_marked_text user_instructions_markers,
     case_prod matches_marked_text environment_context_markers,
     additional_context_matches,
     case_prod matches_marked_text skill_markers,
     case_prod matches_marked_text user_shell_command_markers,
     case_prod matches_marked_text turn_aborted_markers,
     case_prod matches_marked_text subagent_notification_markers,
     internal_context_matches,
     legacy_process_limit_matches,
     legacy_apply_patch_matches,
     legacy_model_mismatch_matches]"

definition is_standard_contextual_user_text :: "str \<Rightarrow> bool" where
  "is_standard_contextual_user_text s = list_ex (\<lambda>matches. matches s) contextual_user_fragments"

text \<open>The first parameter says whether the XML parser accepts a text as a hook prompt.\<close>

fun is_contextual_user_fragment :: "(str \<Rightarrow> bool) \<Rightarrow> content_item \<Rightarrow> bool" where
  "is_contextual_user_fragment is_hook_prompt (Input_Text s) =
    (is_hook_prompt s \<or> is_standard_contextual_user_text s)"
| "is_contextual_user_fragment is_hook_prompt _ = False"

definition is_contextual_user_message_content :: "(str \<Rightarrow> bool) \<Rightarrow> content_item list \<Rightarrow> bool" where
  "is_contextual_user_message_content is_hook_prompt message =
    list_ex (is_contextual_user_fragment is_hook_prompt) message"

definition contextual_developer_prefixes :: "str list" where
  "contextual_developer_prefixes =
    [lit ''<permissions instructions>'', lit ''<model_switch>'', lit ''<collaboration_mode>'',
     lit ''<realtime_conversation>'', lit ''<personality_spec>'']"

fun is_contextual_dev_fragment :: "content_item \<Rightarrow> bool" where
  "is_contextual_dev_fragment (Input_Text s) =
    list_ex
      (\<lambda>p. case slice_to (str_len p) (trim_start s) of
             Some candidate \<Rightarrow> eq_ignore_ascii_case candidate p
           | None \<Rightarrow> False)
      contextual_developer_prefixes"
| "is_contextual_dev_fragment _ = False"

definition is_contextual_dev_message_content :: "content_item list \<Rightarrow> bool" where
  "is_contextual_dev_message_content message = list_ex is_contextual_dev_fragment message"

definition has_non_contextual_dev_message_content :: "content_item list \<Rightarrow> bool" where
  "has_non_contextual_dev_message_content message = list_ex (\<lambda>c. \<not> is_contextual_dev_fragment c) message"

text \<open>
  \<open>InterAgentCommunication::is_message_content\<close>: a single text that the JSON parser accepts. The two
  parsers are bundled.
\<close>

record text_parsers =
  is_hook_prompt :: "str \<Rightarrow> bool"
  is_inter_agent_json :: "str \<Rightarrow> bool"

fun is_inter_agent_instruction_content :: "text_parsers \<Rightarrow> content_item list \<Rightarrow> bool" where
  "is_inter_agent_instruction_content parsers [Input_Text s] = is_inter_agent_json parsers s"
| "is_inter_agent_instruction_content parsers [Output_Text s] = is_inter_agent_json parsers s"
| "is_inter_agent_instruction_content parsers _ = False"

fun is_user_turn_boundary :: "text_parsers \<Rightarrow> response_item \<Rightarrow> bool" where
  "is_user_turn_boundary parsers (Agent_Message author recipient content) = True"
| "is_user_turn_boundary parsers (Message msg_id role content phase) \<longleftrightarrow>
    (role = lit ''user'' \<and> \<not> is_contextual_user_message_content (is_hook_prompt parsers) content) \<or>
    (role = lit ''assistant'' \<and> is_inter_agent_instruction_content parsers content)"
| "is_user_turn_boundary parsers _ = False"

section \<open>The store of additional context\<close>

datatype additional_context_kind = Untrusted | Application

record additional_context_entry =
  entry_value :: str
  entry_kind :: additional_context_kind

text \<open>
  A \<open>BTreeMap\<close> is an association list in key order. A fragment is given as the history item that its
  input message becomes.
\<close>

type_synonym additional_context_store = "(str \<times> additional_context_entry) list"

definition additional_context_item :: "str \<Rightarrow> additional_context_entry \<Rightarrow> response_item option" where
  "additional_context_item key entry =
    (case entry_kind entry of
       Untrusted \<Rightarrow>
         map_option (\<lambda>inner. fragment_message (lit ''user'') (render_fragment additional_context_markers inner))
           (additional_context_body key (entry_value entry))
     | Application \<Rightarrow>
         map_option (\<lambda>inner. fragment_message (lit ''developer'') (render_fragment ([], []) inner))
           (additional_context_developer_body key (entry_value entry)))"

definition merge_additional_context ::
    "additional_context_store \<Rightarrow> additional_context_store \<Rightarrow> response_item option list \<times> additional_context_store" where
  "merge_additional_context store values =
    (map (\<lambda>(key, entry). additional_context_item key entry)
       (filter (\<lambda>(key, entry). map_of store key \<noteq> Some entry) values),
     values)"

section \<open>Recognition of rendered fragments\<close>

lemma strip_prefix_append_append [simp]: "strip_prefix (p @ q) (p @ q @ r) = Some r"
  using strip_prefix_append[of "p @ q" r] by simp

lemma split_once_str_first:
  "sep \<noteq> [] \<Longrightarrow> hd sep \<notin> set a \<Longrightarrow> split_once_str sep (a @ sep @ b) = Some (a, b)"
proof (induction a)
  case Nil
  then show ?case using strip_prefix_append[of sep b] by (cases "sep @ b") auto
next
  case (Cons c a)
  have "strip_prefix sep (c # a @ sep @ b) = None"
    using Cons.prems by (cases sep) (auto simp: strip_prefix.simps split: if_splits)
  then show ?case using Cons by simp
qed

lemma trim_marked:
  assumes "start_marker \<noteq> []" "end_marker \<noteq> []"
    "\<not> is_whitespace (hd start_marker)" "\<not> is_whitespace (last end_marker)"
  shows "trim_start (start_marker @ inner @ end_marker) = start_marker @ inner @ end_marker"
    "trim_end (start_marker @ inner @ end_marker) = start_marker @ inner @ end_marker"
    "trim (start_marker @ inner @ end_marker) = start_marker @ inner @ end_marker"
  using assms by (simp_all add: trim_start_fix trim_end_fix trim_fix)

lemma matches_rendered:
  assumes "start_marker \<noteq> []" "end_marker \<noteq> []"
    "\<not> is_whitespace (hd start_marker)" "\<not> is_whitespace (last end_marker)"
  shows "matches_marked_text start_marker end_marker (start_marker @ inner @ end_marker)"
proof -
  have last_part: "slice_from (str_len (start_marker @ inner)) ((start_marker @ inner) @ end_marker) = Some end_marker"
    by (rule slice_from_append)
  show ?thesis
    using assms last_part trim_marked[OF assms, of inner]
    by (simp add: matches_marked_text_def eq_ignore_ascii_case_def Let_def)
qed

section \<open>The fragment interface\<close>

text \<open>
  What the history relies on: a fragment type whose recogniser is registered recognises what it
  renders, so that the message it becomes is never taken for an instruction of the user.
\<close>

locale contextual_fragment =
  fixes render :: "'f \<Rightarrow> str" and matches :: "str \<Rightarrow> bool" and injectable :: "'f \<Rightarrow> bool"
  assumes registered: "matches \<in> set contextual_user_fragments"
    and recognised: "injectable f \<Longrightarrow> matches (render f)"
begin

lemma standard: "injectable f \<Longrightarrow> is_standard_contextual_user_text (render f)"
  using registered recognised by (auto simp: is_standard_contextual_user_text_def list_ex_iff)

lemma contextual:
  "injectable f \<Longrightarrow> is_contextual_user_message_content hook [Input_Text (render f)]"
  using standard by (simp add: is_contextual_user_message_content_def)

lemma not_boundary:
  "injectable f \<Longrightarrow> \<not> is_user_turn_boundary parsers (fragment_message (lit ''user'') (render f))"
  using contextual by (simp add: fragment_message_def lit_def)

end

text \<open>Fragments that use the default recogniser of the trait.\<close>

locale marked_fragment =
  fixes markers :: "str \<times> str" and inner :: "'f \<Rightarrow> str"
  assumes marker_registered: "case_prod matches_marked_text markers \<in> set contextual_user_fragments"
    and markers_nonempty: "fst markers \<noteq> []" "snd markers \<noteq> []"
    and markers_visible: "\<not> is_whitespace (hd (fst markers))" "\<not> is_whitespace (last (snd markers))"

sublocale marked_fragment \<subseteq>
  contextual_fragment "\<lambda>f. render_fragment markers (inner f)" "case_prod matches_marked_text markers" "\<lambda>_. True"
proof
  show "case_prod matches_marked_text markers \<in> set contextual_user_fragments"
    by (rule marker_registered)
next
  fix f
  show "case_prod matches_marked_text markers (render_fragment markers (inner f))"
    using matches_rendered[of "fst markers" "snd markers" "inner f"] markers_nonempty markers_visible
    by (simp add: render_fragment_def split_beta)
qed

lemmas marker_defs = user_instructions_markers_def environment_context_markers_def skill_markers_def
  user_shell_command_markers_def turn_aborted_markers_def subagent_notification_markers_def

interpretation instructions: marked_fragment user_instructions_markers "case_prod user_instructions_body"
  by unfold_locales (simp_all add: contextual_user_fragments_def marker_defs lit_def is_whitespace_def)

interpretation environment: marked_fragment environment_context_markers "\<lambda>inner. inner"
  by unfold_locales (simp_all add: contextual_user_fragments_def marker_defs lit_def is_whitespace_def)

interpretation skill: marked_fragment skill_markers "\<lambda>(name, path, contents). skill_body name path contents"
  by unfold_locales (simp_all add: contextual_user_fragments_def marker_defs lit_def is_whitespace_def)

interpretation shell_command: marked_fragment user_shell_command_markers
  "\<lambda>(command, exit_code, duration_seconds, output). user_shell_command_body command exit_code duration_seconds output"
  by unfold_locales (simp_all add: contextual_user_fragments_def marker_defs lit_def is_whitespace_def)

interpretation aborted: marked_fragment turn_aborted_markers turn_aborted_body
  by unfold_locales (simp_all add: contextual_user_fragments_def marker_defs lit_def is_whitespace_def)

interpretation subagent: marked_fragment subagent_notification_markers subagent_notification_body
  by unfold_locales (simp_all add: contextual_user_fragments_def marker_defs lit_def is_whitespace_def)

text \<open>Additional context is recognised when its key has no closing bracket.\<close>

definition render_additional_context :: "str \<times> str \<Rightarrow> str" where
  "render_additional_context f =
    (case f of (key, val) \<Rightarrow>
       (case additional_context_body key val of
          Some inner \<Rightarrow> render_fragment additional_context_markers inner
        | None \<Rightarrow> []))"

lemma additional_context_body_returns:
  assumes "str_len val \<le> isize_max"
  obtains shown where "additional_context_body key val = Some (key @ lit ''>'' @ shown @ lit ''</external_'' @ key)"
proof -
  have "\<exists>shown. truncate_text val (Tokens 1000) = Some shown"
  proof (cases "str_len val \<le> 4000")
    case True
    then show ?thesis
      by (auto simp: truncate_middle_with_token_budget_def approx_bytes_for_tokens_def saturating_mul_usize_def
          approx_bytes_per_token_def usize_max_def)
  next
    case False
    then show ?thesis
      using truncate_text_over_budget[OF assms, of True 1000] by (auto simp: unit_bytes_def policy_of_def)
  qed
  then obtain shown tokens where "truncate_middle_with_token_budget val 1000 = Some (shown, tokens)" by auto
  then show thesis
    using that by (simp add: additional_context_body_def max_additional_context_value_tokens_def)
qed

lemma additional_context_recognised:
  assumes "62 \<notin> set key" "str_len val \<le> isize_max"
  shows "additional_context_matches (render_additional_context (key, val))"
proof -
  obtain shown where shown: "additional_context_body key val = Some (key @ lit ''>'' @ shown @ lit ''</external_'' @ key)"
    using additional_context_body_returns[OF assms(2)] .
  let ?close = "lit ''</external_'' @ key @ lit ''>''"
  let ?inner = "key @ lit ''>'' @ shown @ lit ''</external_'' @ key"
  have rendered: "render_additional_context (key, val) = lit ''<external_'' @ ?inner @ lit ''>''"
    using shown by (simp add: render_additional_context_def render_fragment_def additional_context_markers_def)
  have "trim (lit ''<external_'' @ ?inner @ lit ''>'') = lit ''<external_'' @ ?inner @ lit ''>''"
    by (rule trim_marked) (simp_all add: lit_def is_whitespace_def)
  moreover have "split_once_str (lit ''>'') (key @ lit ''>'' @ shown @ ?close) = Some (key, shown @ ?close)"
    using assms(1) by (intro split_once_str_first) (simp_all add: lit_def)
  ultimately show ?thesis
    unfolding rendered additional_context_matches_def by (simp add: ends_with_iff)
qed

interpretation additional: contextual_fragment render_additional_context additional_context_matches
  "\<lambda>(key, val). 62 \<notin> set key \<and> str_len val \<le> isize_max"
  by unfold_locales (auto simp: contextual_user_fragments_def intro: additional_context_recognised)

lemma valid_source_no_quote: "is_valid_source source \<Longrightarrow> 34 \<notin> set source"
  by (cases source) (auto simp: list_all_iff is_ascii_digit_def underscore_def)

lemma internal_context_recognised:
  assumes "is_valid_source source"
  shows "internal_context_matches (render_fragment internal_context_markers (internal_context_body source inner))"
proof -
  let ?close = "lit ''</codex_internal_context>''"
  let ?inside = "source @ ([34] @ lit ''>'') @ [newline] @ inner @ [newline] @ ?close"
  have rendered: "render_fragment internal_context_markers (internal_context_body source inner) =
      lit ''<codex_internal_context'' @ ((lit '' source='' @ [34]) @ source @ ([34] @ lit ''>'') @ [newline] @ inner @ [newline]) @ ?close"
    by (simp add: render_fragment_def internal_context_markers_def internal_context_body_def)
  have trimmed: "trim (lit ''<codex_internal_context'' @ x @ ?close) = lit ''<codex_internal_context'' @ x @ ?close" for x
    by (rule trim_marked) (simp_all add: lit_def is_whitespace_def)
  have "split_once_str ([34] @ lit ''>'') ?inside = Some (source, [newline] @ inner @ [newline] @ ?close)"
    using valid_source_no_quote[OF assms] by (intro split_once_str_first) simp_all
  then show ?thesis
    unfolding internal_context_matches_def rendered trimmed using assms
    by (simp add: Let_def ends_with_iff del: append_Cons)
qed

interpretation internal: contextual_fragment
  "\<lambda>(source, inner). render_fragment internal_context_markers (internal_context_body source inner)"
  internal_context_matches "\<lambda>(source, inner). is_valid_source source"
  by unfold_locales (auto simp: contextual_user_fragments_def intro: internal_context_recognised)

section \<open>Properties\<close>

text \<open>Every kind of context that the agent injects as a message with the role of the user.\<close>

datatype user_fragment =
    User_Instructions str str
  | Environment_Context str
  | Additional_Context str str
  | Skill_Instructions str str str
  | User_Shell_Command str int str str
  | Turn_Aborted str
  | Subagent_Notification str
  | Internal_Model_Context str str

fun fragment_text :: "user_fragment \<Rightarrow> str" where
  "fragment_text (User_Instructions directory content) =
    render_fragment user_instructions_markers (user_instructions_body directory content)"
| "fragment_text (Environment_Context inner) = render_fragment environment_context_markers inner"
| "fragment_text (Additional_Context key val) = render_additional_context (key, val)"
| "fragment_text (Skill_Instructions name path contents) =
    render_fragment skill_markers (skill_body name path contents)"
| "fragment_text (User_Shell_Command command exit_code duration_seconds output) =
    render_fragment user_shell_command_markers (user_shell_command_body command exit_code duration_seconds output)"
| "fragment_text (Turn_Aborted guidance) = render_fragment turn_aborted_markers (turn_aborted_body guidance)"
| "fragment_text (Subagent_Notification json) =
    render_fragment subagent_notification_markers (subagent_notification_body json)"
| "fragment_text (Internal_Model_Context source inner) =
    render_fragment internal_context_markers (internal_context_body source inner)"

text \<open>
  The conditions on the parts: a source label is validated when it is built
  (\<open>InternalContextSource::new\<close>); nothing in the code checks the key of additional context.
\<close>

fun fragment_ok :: "user_fragment \<Rightarrow> bool" where
  "fragment_ok (Additional_Context key val) \<longleftrightarrow> 62 \<notin> set key \<and> str_len val \<le> isize_max"
| "fragment_ok (Internal_Model_Context source inner) \<longleftrightarrow> internal_context_source source = Ok source"
| "fragment_ok _ = True"



text \<open>
  Additional context whose key contains a closing bracket escapes recognition: untrusted context
  sent under such a key becomes a message that counts as an instruction turn of the user.
\<close>

theorem bracket_key_becomes_a_turn:
  "\<exists>item. additional_context_item (lit ''a>b'') \<lparr>entry_value = lit ''x'', entry_kind = Untrusted\<rparr> = Some item
     \<and> is_user_turn_boundary \<lparr>is_hook_prompt = (\<lambda>_. False), is_inter_agent_json = (\<lambda>_. False)\<rparr> item"
  by (simp add: additional_context_item_def additional_context_body_def truncate_middle_with_token_budget_def
      max_additional_context_value_tokens_def approx_bytes_for_tokens_def saturating_mul_usize_def usize_max_def
      approx_bytes_per_token_def fragment_message_def render_fragment_def additional_context_markers_def
      is_contextual_user_message_content_def is_standard_contextual_user_text_def contextual_user_fragments_def
      marker_defs matches_marked_text_def additional_context_matches_def internal_context_matches_def
      matches_legacy_goal_context_def legacy_process_limit_matches_def legacy_apply_patch_matches_def
      legacy_model_mismatch_matches_def eq_ignore_ascii_case_def Let_def text_eval)

text \<open>Unchanged additional context is not injected again.\<close>

lemma merge_additional_context_again:
  assumes "distinct (map fst values)"
  shows "merge_additional_context (snd (merge_additional_context store values)) values = ([], values)"
  using assms by (auto simp: merge_additional_context_def filter_empty_conv)

end
