(* ===== verification/Token_Usage.thy ===== *)
theory Token_Usage
  imports Text_Truncation
begin

text \<open>
  Token accounting: the usage counters of \<open>codex-rs/protocol/src/protocol.rs\<close> and the byte-based
  estimates of \<open>codex-rs/core/src/context_manager/history.rs\<close>. All quantities are \<open>i64\<close> with the
  source's mix of saturating and plain operations; plain ones panic on overflow in debug builds and
  wrap in release builds. JSON serialization and image decoding are parameters.
\<close>

section \<open>Usage counters\<close>

record token_usage =
  input_tokens :: int
  cached_input_tokens :: int
  output_tokens :: int
  reasoning_output_tokens :: int
  total_tokens :: int

definition default_usage :: token_usage where
  "default_usage = \<lparr>input_tokens = 0, cached_input_tokens = 0, output_tokens = 0,
     reasoning_output_tokens = 0, total_tokens = 0\<rparr>"

record token_usage_info =
  total_token_usage :: token_usage
  last_token_usage :: token_usage
  model_context_window :: "int option"

definition add_assign :: "bool \<Rightarrow> token_usage \<Rightarrow> token_usage \<Rightarrow> token_usage option" where
  "add_assign debug u v =
    (case plain_i64 debug (input_tokens u + input_tokens v) of None \<Rightarrow> None | Some a \<Rightarrow>
     case plain_i64 debug (cached_input_tokens u + cached_input_tokens v) of None \<Rightarrow> None | Some b \<Rightarrow>
     case plain_i64 debug (output_tokens u + output_tokens v) of None \<Rightarrow> None | Some c \<Rightarrow>
     case plain_i64 debug (reasoning_output_tokens u + reasoning_output_tokens v) of None \<Rightarrow> None | Some d \<Rightarrow>
     map_option (\<lambda>e. \<lparr>input_tokens = a, cached_input_tokens = b, output_tokens = c,
                       reasoning_output_tokens = d, total_tokens = e\<rparr>)
       (plain_i64 debug (total_tokens u + total_tokens v)))"

definition append_last_usage :: "bool \<Rightarrow> token_usage_info \<Rightarrow> token_usage \<Rightarrow> token_usage_info option" where
  "append_last_usage debug info last_usage =
    map_option (\<lambda>total. info\<lparr>total_token_usage := total, last_token_usage := last_usage\<rparr>)
      (add_assign debug (total_token_usage info) last_usage)"

text \<open>The outer option is a panic, the inner one is the source's.\<close>

definition new_or_append ::
    "bool \<Rightarrow> token_usage_info option \<Rightarrow> token_usage option \<Rightarrow> int option \<Rightarrow> token_usage_info option option" where
  "new_or_append debug info last_usage window =
    (if info = None \<and> last_usage = None then Some None
     else let info = (case info of
                        Some info \<Rightarrow> info
                      | None \<Rightarrow> \<lparr>total_token_usage = default_usage, last_token_usage = default_usage,
                                 model_context_window = window\<rparr>);
              appended = (case last_usage of
                            Some u \<Rightarrow> append_last_usage debug info u
                          | None \<Rightarrow> Some info)
          in map_option
               (\<lambda>info. Some (case window of Some w \<Rightarrow> info\<lparr>model_context_window := Some w\<rparr> | None \<Rightarrow> info))
               appended)"

definition fill_to_context_window :: "bool \<Rightarrow> int \<Rightarrow> token_usage_info \<Rightarrow> token_usage_info option" where
  "fill_to_context_window debug window info =
    map_option
      (\<lambda>difference. info\<lparr>model_context_window := Some window,
                        total_token_usage := default_usage\<lparr>total_tokens := window\<rparr>,
                        last_token_usage := default_usage\<lparr>total_tokens := max difference 0\<rparr>\<rparr>)
      (plain_i64 debug (window - total_tokens (total_token_usage info)))"

definition full_context_window :: "bool \<Rightarrow> int \<Rightarrow> token_usage_info option" where
  "full_context_window debug window =
    fill_to_context_window debug window
      \<lparr>total_token_usage = default_usage, last_token_usage = default_usage, model_context_window = Some window\<rparr>"

section \<open>Image data URLs\<close>

definition prefix_ignoring_case :: "str \<Rightarrow> str \<Rightarrow> bool" where
  "prefix_ignoring_case p s =
    (case slice_to (str_len p) s of
       Some candidate \<Rightarrow> to_ascii_lowercase candidate = to_ascii_lowercase p
     | None \<Rightarrow> False)"

text \<open>The comma is \<open>44\<close>, the semicolon \<open>59\<close>.\<close>

definition parse_base64_image_data_url :: "str \<Rightarrow> str option" where
  "parse_base64_image_data_url url =
    (if \<not> prefix_ignoring_case (lit ''data:'') url then None
     else case split_once 44 url of
            None \<Rightarrow> None
          | Some (metadata, payload) \<Rightarrow>
              let parts = split_on 59 (drop 5 metadata);
                  mime_type = hd parts;
                  has_base64_marker =
                    list_ex (\<lambda>part. to_ascii_lowercase part = lit ''base64'') (tl parts)
              in if \<not> prefix_ignoring_case (lit ''image/'') mime_type then None
                 else if \<not> has_base64_marker then None
                 else Some payload)"

text \<open>
  The parameters: the length of the serialized item (\<open>None\<close> for a serialization error), and the
  width and height that the base64 and image decoders find in a payload.
\<close>

record estimator =
  serialized_len :: "response_item \<Rightarrow> nat option"
  image_size :: "str \<Rightarrow> (nat \<times> nat) option"

definition resized_image_bytes_estimate :: int where
  "resized_image_bytes_estimate = 7373"

definition original_image_patch_size :: int where
  "original_image_patch_size = 32"

definition original_image_max_patches :: nat where
  "original_image_max_patches = 10000"

text \<open>The cache in front of this computation is keyed by a digest of the URL and is transparent.\<close>

definition estimate_original_image_bytes :: "estimator \<Rightarrow> str \<Rightarrow> int option" where
  "estimate_original_image_bytes est image_url =
    (case parse_base64_image_data_url image_url of
       None \<Rightarrow> None
     | Some payload \<Rightarrow>
         (case image_size est payload of
            None \<Rightarrow> None
          | Some (width, height) \<Rightarrow>
              let rounding = saturating_sub_i64 original_image_patch_size 1;
                  patches_wide = saturating_add_i64 (int width) rounding div original_image_patch_size;
                  patches_high = saturating_add_i64 (int height) rounding div original_image_patch_size;
                  patch_count = min (nat (saturating_mul_i64 patches_wide patches_high)) original_image_max_patches
              in Some (i64_of_usize (approx_bytes_for_tokens patch_count))))"

section \<open>Estimates per item\<close>

text \<open>One call of \<open>accumulate\<close>, on the pair of payload and replacement bytes.\<close>

definition accumulate_image :: "estimator \<Rightarrow> str \<Rightarrow> image_detail option \<Rightarrow> int \<times> int \<Rightarrow> int \<times> int" where
  "accumulate_image est image_url detail acc =
    (case parse_base64_image_data_url image_url of
       None \<Rightarrow> acc
     | Some payload \<Rightarrow>
         (saturating_add_i64 (fst acc) (i64_of_usize (str_len payload)),
          saturating_add_i64 (snd acc)
            (case detail of
               Some Detail_Original \<Rightarrow>
                 (case estimate_original_image_bytes est image_url of
                    Some n \<Rightarrow> n
                  | None \<Rightarrow> resized_image_bytes_estimate)
             | _ \<Rightarrow> resized_image_bytes_estimate)))"

fun accumulate_content :: "estimator \<Rightarrow> content_item \<Rightarrow> int \<times> int \<Rightarrow> int \<times> int" where
  "accumulate_content est (Input_Image image_url detail) acc = accumulate_image est image_url detail acc"
| "accumulate_content est _ acc = acc"

fun accumulate_output :: "estimator \<Rightarrow> output_content_item \<Rightarrow> int \<times> int \<Rightarrow> int \<times> int" where
  "accumulate_output est (Output_Input_Image image_url detail) acc = accumulate_image est image_url detail acc"
| "accumulate_output est _ acc = acc"

fun accumulate_body :: "estimator \<Rightarrow> output_body \<Rightarrow> int \<times> int" where
  "accumulate_body est (Body_Items items) = fold (accumulate_output est) items (0, 0)"
| "accumulate_body est (Body_Text _) = (0, 0)"

fun image_data_url_estimate_adjustment :: "estimator \<Rightarrow> response_item \<Rightarrow> int \<times> int" where
  "image_data_url_estimate_adjustment est (Message _ _ content _) = fold (accumulate_content est) content (0, 0)"
| "image_data_url_estimate_adjustment est (Function_Call_Output _ output) = accumulate_body est (body output)"
| "image_data_url_estimate_adjustment est (Custom_Tool_Call_Output _ _ output) = accumulate_body est (body output)"
| "image_data_url_estimate_adjustment est _ = (0, 0)"

definition estimate_reasoning_length :: "nat \<Rightarrow> nat" where
  "estimate_reasoning_length encoded_len = saturating_mul_usize encoded_len 3 div 4 - 650"

definition estimate_encrypted_function_output_length :: "nat \<Rightarrow> nat" where
  "estimate_encrypted_function_output_length encoded_len =
    (let n = saturating_mul_usize encoded_len 9
     in if n mod 16 = 0 then n div 16 else n div 16 + 1)"

fun accumulate_encrypted :: "output_content_item \<Rightarrow> int \<times> int \<Rightarrow> int \<times> int" where
  "accumulate_encrypted (Output_Encrypted_Content content) acc =
    (saturating_add_i64 (fst acc) (i64_of_usize (str_len content)),
     saturating_add_i64 (snd acc) (i64_of_usize (estimate_encrypted_function_output_length (str_len content))))"
| "accumulate_encrypted _ acc = acc"

fun encrypted_function_output_estimate_adjustment :: "response_item \<Rightarrow> int \<times> int" where
  "encrypted_function_output_estimate_adjustment (Function_Call_Output _ output) =
    (case body output of
       Body_Items items \<Rightarrow> fold accumulate_encrypted items (0, 0)
     | Body_Text _ \<Rightarrow> (0, 0))"
| "encrypted_function_output_estimate_adjustment _ = (0, 0)"

definition estimate_serialized_bytes :: "estimator \<Rightarrow> response_item \<Rightarrow> int" where
  "estimate_serialized_bytes est item =
    (let raw = (case serialized_len est item of Some n \<Rightarrow> i64_of_usize n | None \<Rightarrow> 0);
         (image_payload_bytes, image_replacement_bytes) = image_data_url_estimate_adjustment est item;
         (encrypted_payload_bytes, encrypted_replacement_bytes) =
           encrypted_function_output_estimate_adjustment item;
         raw = saturating_add_i64 (saturating_sub_i64 raw image_payload_bytes) image_replacement_bytes
     in saturating_add_i64 (saturating_sub_i64 raw encrypted_payload_bytes) encrypted_replacement_bytes)"

fun estimate_response_item_model_visible_bytes :: "estimator \<Rightarrow> response_item \<Rightarrow> int" where
  "estimate_response_item_model_visible_bytes est (Reasoning _ _ _ (Some content)) =
    i64_of_usize (estimate_reasoning_length (str_len content))"
| "estimate_response_item_model_visible_bytes est (Compaction content) =
    i64_of_usize (estimate_reasoning_length (str_len content))"
| "estimate_response_item_model_visible_bytes est (Context_Compaction (Some content)) =
    i64_of_usize (estimate_reasoning_length (str_len content))"
| "estimate_response_item_model_visible_bytes est item = estimate_serialized_bytes est item"

definition estimate_item_token_count :: "estimator \<Rightarrow> response_item \<Rightarrow> int" where
  "estimate_item_token_count est item =
    approx_tokens_from_byte_count_i64 (estimate_response_item_model_visible_bytes est item)"

text \<open>\<open>iter().map(estimate).fold(0, i64::saturating_add)\<close>\<close>

definition sum_estimates :: "(response_item \<Rightarrow> int) \<Rightarrow> response_item list \<Rightarrow> int" where
  "sum_estimates estimate items = foldl saturating_add_i64 0 (map estimate items)"

section \<open>Ranges\<close>

lemma i64_of_usize_range: "0 \<le> i64_of_usize n" "i64_of_usize n \<le> i64_max"
  by (simp_all add: i64_of_usize_def)

lemma estimate_item_token_count_range:
  "0 \<le> estimate_item_token_count est item" "estimate_item_token_count est item \<le> i64_max"
  by (simp_all add: estimate_item_token_count_def approx_tokens_from_byte_count_i64_def i64_of_usize_range)

lemma saturating_add_nonneg:
  assumes "0 \<le> a" "0 \<le> b" "a \<le> i64_max"
  shows "a \<le> saturating_add_i64 a b" "saturating_add_i64 a b \<le> i64_max"
  using assms by (auto simp: saturating_add_i64_def sat_i64_def)

lemma sum_estimates_range:
  assumes "\<And>i. i \<in> set items \<Longrightarrow> 0 \<le> estimate i"
  shows "0 \<le> sum_estimates estimate items \<and> sum_estimates estimate items \<le> i64_max"
proof -
  have "0 \<le> foldl saturating_add_i64 a (map estimate items) \<and> foldl saturating_add_i64 a (map estimate items) \<le> i64_max"
    if "0 \<le> a" "a \<le> i64_max" for a
    using assms that
  proof (induction items arbitrary: a)
    case (Cons i items)
    have "0 \<le> saturating_add_i64 a (estimate i)" "saturating_add_i64 a (estimate i) \<le> i64_max"
      using saturating_add_nonneg[of a "estimate i"] Cons.prems by force+
    then show ?case using Cons by simp
  qed simp
  then show ?thesis by (simp add: sum_estimates_def)
qed

text \<open>In range the plain sum is exact in both builds.\<close>

lemma plain_i64_exact: "in_i64 x \<Longrightarrow> plain_i64 debug x = Some x"
  by (simp add: plain_i64_def in_i64_def)

lemma plain_i64_release: "plain_i64 False x = Some (wrap_i64 x)"
  by (auto simp: plain_i64_def wrap_i64_def i64_min_def i64_max_def)

end
