(* ===== verification/Context_History.thy ===== *)
theory Context_History
  imports History_Normalize Contextual_Fragments Token_Usage "HOL-Library.AList"
begin

text \<open>
  The conversation history of a session: \<open>ContextManager\<close> of
  \<open>codex-rs/core/src/context_manager/history.rs\<close>, with recording, rollback, normalization for a
  prompt, the compaction of superseded diagnostics, and the token totals. It composes the theories of
  truncation, normalization, contextual fragments and token estimates. The parameters are those of
  the parts: the text parsers, the estimator, the JSON reader of tool arguments, and the build flag.
\<close>

section \<open>The context manager\<close>

record 'ctx context_manager =
  items :: "response_item list"
  history_version :: nat
  token_info :: "token_usage_info option"
  reference_context_item :: "'ctx option"

definition new_context_manager :: "'ctx context_manager" where
  "new_context_manager = \<lparr>items = [], history_version = 0, token_info = None, reference_context_item = None\<rparr>"

definition set_token_usage_full :: "bool \<Rightarrow> int \<Rightarrow> 'ctx context_manager \<Rightarrow> 'ctx context_manager option" where
  "set_token_usage_full debug window h =
    (case token_info h of
       Some info \<Rightarrow> map_option (\<lambda>info. h\<lparr>token_info := Some info\<rparr>) (fill_to_context_window debug window info)
     | None \<Rightarrow> map_option (\<lambda>info. h\<lparr>token_info := Some info\<rparr>) (full_context_window debug window))"

definition update_token_info ::
    "bool \<Rightarrow> token_usage \<Rightarrow> int option \<Rightarrow> 'ctx context_manager \<Rightarrow> 'ctx context_manager option" where
  "update_token_info debug usage window h =
    map_option (\<lambda>info. h\<lparr>token_info := info\<rparr>) (new_or_append debug (token_info h) (Some usage) window)"

definition replace_items :: "response_item list \<Rightarrow> 'ctx context_manager \<Rightarrow> 'ctx context_manager" where
  "replace_items new_items h =
    h\<lparr>items := new_items, history_version := saturating_add_usize (history_version h) 1\<rparr>"

section \<open>Recording\<close>

fun is_api_message :: "response_item \<Rightarrow> bool" where
  "is_api_message (Message _ role _ _) = (role \<noteq> lit ''system'')"
| "is_api_message Compaction_Trigger = False"
| "is_api_message Other_Item = False"
| "is_api_message _ = True"

definition truncate_function_output_payload :: "output_payload \<Rightarrow> truncation_policy \<Rightarrow> output_payload option" where
  "truncate_function_output_payload output policy =
    (case body output of
       Body_Text content \<Rightarrow>
         map_option (\<lambda>s. \<lparr>body = Body_Text s, success = success output\<rparr>) (truncate_text content policy)
     | Body_Items parts \<Rightarrow>
         map_option (\<lambda>s. \<lparr>body = Body_Items s, success = success output\<rparr>)
           (truncate_function_output_items_with_policy parts policy))"

fun process_item :: "response_item \<Rightarrow> truncation_policy \<Rightarrow> response_item option" where
  "process_item (Function_Call_Output call_id output) policy =
    map_option (Function_Call_Output call_id)
      (truncate_function_output_payload output (policy_mul_1_2 policy))"
| "process_item (Custom_Tool_Call_Output call_id name output) policy =
    map_option (Custom_Tool_Call_Output call_id name)
      (truncate_function_output_payload output (policy_mul_1_2 policy))"
| "process_item item policy = Some item"

fun record_items ::
    "response_item list \<Rightarrow> truncation_policy \<Rightarrow> 'ctx context_manager \<Rightarrow> 'ctx context_manager option" where
  "record_items [] policy h = Some h"
| "record_items (item # rest) policy h =
    (if \<not> is_api_message item then record_items rest policy h
     else case process_item item policy of
            None \<Rightarrow> None
          | Some processed \<Rightarrow> record_items rest policy (h\<lparr>items := items h @ [processed]\<rparr>))"

section \<open>Removing and replacing\<close>

definition remove_first_item :: "'ctx context_manager \<Rightarrow> 'ctx context_manager" where
  "remove_first_item h =
    (case items h of
       [] \<Rightarrow> h
     | removed # rest \<Rightarrow> h\<lparr>items := remove_corresponding_for rest removed\<rparr>)"

fun replace_image :: "str \<Rightarrow> output_content_item \<Rightarrow> output_content_item" where
  "replace_image placeholder (Output_Input_Image _ _) = Output_Input_Text placeholder"
| "replace_image placeholder item = item"

fun is_function_call_output :: "response_item \<Rightarrow> bool" where
  "is_function_call_output (Function_Call_Output _ _) = True"
| "is_function_call_output _ = False"

text \<open>The new state and the returned flag.\<close>

definition replace_last_turn_images ::
    "text_parsers \<Rightarrow> str \<Rightarrow> 'ctx context_manager \<Rightarrow> 'ctx context_manager \<times> bool" where
  "replace_last_turn_images parsers placeholder h =
    (case rposition (\<lambda>item. is_function_call_output item \<or> is_user_turn_boundary parsers item) (items h) of
       None \<Rightarrow> (h, False)
     | Some idx \<Rightarrow>
         (case items h ! idx of
            Function_Call_Output call_id output \<Rightarrow>
              (case body output of
                 Body_Text _ \<Rightarrow> (h, False)
               | Body_Items parts \<Rightarrow>
                   let replaced = list_ex is_image_output parts;
                       output' = output\<lparr>body := Body_Items (map (replace_image placeholder) parts)\<rparr>;
                       h' = h\<lparr>items := (items h)[idx := Function_Call_Output call_id output']\<rparr>
                   in (if replaced
                       then h'\<lparr>history_version := saturating_add_usize (history_version h') 1\<rparr>
                       else h',
                       replaced))
          | _ \<Rightarrow> (h, False)))"

section \<open>Rollback\<close>

fun user_message_positions_from :: "text_parsers \<Rightarrow> nat \<Rightarrow> response_item list \<Rightarrow> nat list" where
  "user_message_positions_from parsers idx [] = []"
| "user_message_positions_from parsers idx (item # rest) =
    (if is_user_turn_boundary parsers item then [idx] else []) @ user_message_positions_from parsers (Suc idx) rest"

definition user_message_positions :: "text_parsers \<Rightarrow> response_item list \<Rightarrow> nat list" where
  "user_message_positions parsers xs = user_message_positions_from parsers 0 xs"

text \<open>
  The backward walk of \<open>trim_pre_turn_context_updates\<close>: the cut index and the reference context item.
  An index out of range would panic.
\<close>

fun trim_pre_turn_context_updates ::
    "text_parsers \<Rightarrow> response_item list \<Rightarrow> nat \<Rightarrow> nat \<Rightarrow> 'ctx option \<Rightarrow> (nat \<times> 'ctx option) option" where
  "trim_pre_turn_context_updates parsers snapshot first_turn 0 reference = Some (0, reference)"
| "trim_pre_turn_context_updates parsers snapshot first_turn (Suc n) reference =
    (if first_turn < Suc n
     then case index_at snapshot n of
            None \<Rightarrow> None
          | Some (Message _ role content _) \<Rightarrow>
              if role = lit ''developer'' \<and> is_contextual_dev_message_content content
              then trim_pre_turn_context_updates parsers snapshot first_turn n
                     (if has_non_contextual_dev_message_content content then None else reference)
              else if role = lit ''user'' \<and> is_contextual_user_message_content (is_hook_prompt parsers) content
              then trim_pre_turn_context_updates parsers snapshot first_turn n reference
              else Some (Suc n, reference)
          | Some _ \<Rightarrow> Some (Suc n, reference)
     else Some (Suc n, reference))"

definition drop_last_n_user_turns ::
    "text_parsers \<Rightarrow> nat \<Rightarrow> 'ctx context_manager \<Rightarrow> 'ctx context_manager option" where
  "drop_last_n_user_turns parsers num_turns h =
    (if num_turns = 0 then Some h
     else let snapshot = items h; user_positions = user_message_positions parsers snapshot
          in case user_positions of
               [] \<Rightarrow> Some (replace_items snapshot h)
             | first_turn # _ \<Rightarrow>
                 (case (if length user_positions \<le> num_turns then Some first_turn
                        else index_at user_positions (length user_positions - num_turns)) of
                    None \<Rightarrow> None
                  | Some cut_idx \<Rightarrow>
                      (case trim_pre_turn_context_updates parsers snapshot first_turn cut_idx (reference_context_item h) of
                         None \<Rightarrow> None
                       | Some (cut_idx, reference) \<Rightarrow>
                           if cut_idx \<le> length snapshot
                           then Some (replace_items (take cut_idx snapshot) (h\<lparr>reference_context_item := reference\<rparr>))
                           else None)))"

section \<open>Token totals\<close>

fun is_model_generated_item :: "response_item \<Rightarrow> bool" where
  "is_model_generated_item (Message _ role _ _) = (role = lit ''assistant'')"
| "is_model_generated_item (Function_Call_Output _ _) = False"
| "is_model_generated_item (Tool_Search_Output _ _ _ _) = False"
| "is_model_generated_item (Custom_Tool_Call_Output _ _ _) = False"
| "is_model_generated_item (Agent_Message _ _ _) = False"
| "is_model_generated_item Compaction_Trigger = False"
| "is_model_generated_item Other_Item = False"
| "is_model_generated_item _ = True"

definition items_after_last_model_generated_item :: "'ctx context_manager \<Rightarrow> response_item list" where
  "items_after_last_model_generated_item h =
    drop (case rposition is_model_generated_item (items h) of
            Some i \<Rightarrow> saturating_add_usize i 1
          | None \<Rightarrow> length (items h)) (items h)"

fun has_encrypted_reasoning :: "response_item \<Rightarrow> bool" where
  "has_encrypted_reasoning (Reasoning _ _ _ (Some _)) = True"
| "has_encrypted_reasoning _ = False"

definition get_non_last_reasoning_items_tokens :: "text_parsers \<Rightarrow> estimator \<Rightarrow> 'ctx context_manager \<Rightarrow> int" where
  "get_non_last_reasoning_items_tokens parsers est h =
    (case rposition (is_user_turn_boundary parsers) (items h) of
       None \<Rightarrow> 0
     | Some last_user_index \<Rightarrow>
         sum_estimates (estimate_item_token_count est)
           (filter has_encrypted_reasoning (take last_user_index (items h))))"

definition last_total_tokens :: "'ctx context_manager \<Rightarrow> int" where
  "last_total_tokens h =
    (case token_info h of Some info \<Rightarrow> total_tokens (last_token_usage info) | None \<Rightarrow> 0)"

definition get_total_token_usage :: "text_parsers \<Rightarrow> estimator \<Rightarrow> bool \<Rightarrow> 'ctx context_manager \<Rightarrow> int" where
  "get_total_token_usage parsers est server_reasoning_included h =
    (let last_tokens = last_total_tokens h;
         after_tokens = sum_estimates (estimate_item_token_count est) (items_after_last_model_generated_item h)
     in if server_reasoning_included then saturating_add_i64 last_tokens after_tokens
        else saturating_add_i64
               (saturating_add_i64 last_tokens (get_non_last_reasoning_items_tokens parsers est h)) after_tokens)"

record total_token_usage_breakdown =
  last_api_response_total_tokens :: int
  all_history_items_model_visible_bytes :: int
  estimated_tokens_of_items_added :: int
  estimated_bytes_of_items_added :: int

definition get_total_token_usage_breakdown :: "estimator \<Rightarrow> 'ctx context_manager \<Rightarrow> total_token_usage_breakdown" where
  "get_total_token_usage_breakdown est h =
    (let added = items_after_last_model_generated_item h
     in \<lparr>last_api_response_total_tokens = last_total_tokens h,
         all_history_items_model_visible_bytes =
           sum_estimates (estimate_response_item_model_visible_bytes est) (items h),
         estimated_tokens_of_items_added = sum_estimates (estimate_item_token_count est) added,
         estimated_bytes_of_items_added =
           sum_estimates (estimate_response_item_model_visible_bytes est) added\<rparr>)"

definition estimate_token_count_with_base_instructions :: "estimator \<Rightarrow> str \<Rightarrow> 'ctx context_manager \<Rightarrow> int" where
  "estimate_token_count_with_base_instructions est base_instructions h =
    saturating_add_i64 (i64_of_usize (approx_token_count base_instructions))
      (sum_estimates (estimate_item_token_count est) (items h))"

section \<open>Superseded diagnostics\<close>

text \<open>\<open>name.rsplit("__").next()\<close>: what follows the last double underscore.\<close>

definition short_name :: "str \<Rightarrow> str" where
  "short_name name =
    (case split_once_str (lit ''__'') (rev name) of Some (short, _) \<Rightarrow> rev short | None \<Rightarrow> name)"

definition em_dash :: uchar where
  "em_dash = 0x2014"

definition build_stub :: str where
  "build_stub = lit ''[superseded build output '' @ [em_dash] @ lit '' project rebuilt on a later turn]''"

text \<open>The parameter reads the string at \<open>file_path\<close> from the JSON arguments.\<close>

definition superseded_diagnostic_key :: "(str \<Rightarrow> str option) \<Rightarrow> str \<Rightarrow> str \<Rightarrow> (str \<times> str) option" where
  "superseded_diagnostic_key json_file_path name arguments =
    (let short = short_name name
     in if short = lit ''lean_diagnostic_messages''
        then map_option
               (\<lambda>file. (lit ''diag:'' @ file,
                        lit ''[superseded diagnostics for '' @ file @ lit '' '' @ [em_dash] @
                          lit '' file re-checked on a later turn]''))
               (json_file_path arguments)
        else if short = lit ''lean_build'' then Some (lit ''build'', build_stub)
        else if (short = lit ''shell'' \<or> short = lit ''exec_command'') \<and> contains_str (lit ''lake build'') arguments
        then Some (lit ''build'', build_stub)
        else None)"

text \<open>The three passes over the items, with the hash maps as association lists.\<close>

fun collect_keyed ::
    "(str \<Rightarrow> str option) \<Rightarrow> response_item list \<Rightarrow> (str \<times> str \<times> str) list \<Rightarrow> (str \<times> str \<times> str) list" where
  "collect_keyed json_file_path [] keyed = keyed"
| "collect_keyed json_file_path (Function_Call _ name _ arguments call_id # rest) keyed =
    (case superseded_diagnostic_key json_file_path name arguments of
       Some ks \<Rightarrow> collect_keyed json_file_path rest (AList.update call_id ks keyed)
     | None \<Rightarrow> collect_keyed json_file_path rest keyed)"
| "collect_keyed json_file_path (_ # rest) keyed = collect_keyed json_file_path rest keyed"

fun collect_last_index ::
    "(str \<times> str \<times> str) list \<Rightarrow> nat \<Rightarrow> response_item list \<Rightarrow> (str \<times> nat) list \<Rightarrow> (str \<times> nat) list" where
  "collect_last_index keyed idx [] last_index = last_index"
| "collect_last_index keyed idx (Function_Call_Output call_id _ # rest) last_index =
    (case map_of keyed call_id of
       Some (key, _) \<Rightarrow> collect_last_index keyed (Suc idx) rest (AList.update key idx last_index)
     | None \<Rightarrow> collect_last_index keyed (Suc idx) rest last_index)"
| "collect_last_index keyed idx (_ # rest) last_index = collect_last_index keyed (Suc idx) rest last_index"

fun stub_output :: "(str \<times> str \<times> str) list \<Rightarrow> (str \<times> nat) list \<Rightarrow> nat \<Rightarrow> response_item \<Rightarrow> response_item" where
  "stub_output keyed last_index idx (Function_Call_Output call_id output) =
    (case map_of keyed call_id of
       Some (key, stub) \<Rightarrow>
         if map_of last_index key \<noteq> Some idx
         then Function_Call_Output call_id (output\<lparr>body := Body_Text stub\<rparr>)
         else Function_Call_Output call_id output
     | None \<Rightarrow> Function_Call_Output call_id output)"
| "stub_output keyed last_index idx item = item"

definition compact_superseded_diagnostics :: "(str \<Rightarrow> str option) \<Rightarrow> response_item list \<Rightarrow> response_item list" where
  "compact_superseded_diagnostics json_file_path xs =
    (let keyed = collect_keyed json_file_path xs []
     in if keyed = [] then xs
        else let last_index = collect_last_index keyed 0 xs []
             in map (\<lambda>(idx, item). stub_output keyed last_index idx item) (enumerate 0 xs))"

text \<open>The environment variable that enables compaction is an argument.\<close>

definition superseded_diagnostic_compaction_enabled :: "str option \<Rightarrow> bool" where
  "superseded_diagnostic_compaction_enabled env_value \<longleftrightarrow>
    env_value = Some (lit ''1'') \<or> env_value = Some (lit ''true'')"

definition for_prompt ::
    "bool \<Rightarrow> (str \<Rightarrow> str option) \<Rightarrow> str option \<Rightarrow> input_modality list \<Rightarrow> 'ctx context_manager \<Rightarrow> response_item list option" where
  "for_prompt debug json_file_path env_value input_modalities h =
    map_option
      (\<lambda>xs. if superseded_diagnostic_compaction_enabled env_value
            then compact_superseded_diagnostics json_file_path xs else xs)
      (normalize_history debug input_modalities (items h))"

section \<open>Turn boundaries and cuts\<close>

abbreviation turns :: "text_parsers \<Rightarrow> response_item list \<Rightarrow> nat" where
  "turns parsers xs \<equiv> length (filter (is_user_turn_boundary parsers) xs)"

lemma length_positions [simp]: "length (user_message_positions_from parsers k xs) = turns parsers xs"
  by (induction xs arbitrary: k) simp_all

lemma positions_nth:
  "j < turns parsers xs \<Longrightarrow>
   \<exists>c<length xs. user_message_positions_from parsers k xs ! j = k + c \<and> is_user_turn_boundary parsers (xs ! c)
     \<and> turns parsers (take c xs) = j"
proof (induction xs arbitrary: k j)
  case Nil
  then show ?case by simp
next
  case (Cons x xs)
  show ?case
  proof (cases "is_user_turn_boundary parsers x \<and> j = 0")
    case True
    then show ?thesis by (intro exI[of _ 0]) simp
  next
    case False
    define j' where "j' = (if is_user_turn_boundary parsers x then j - 1 else j)"
    have "j' < turns parsers xs" using Cons.prems False by (auto simp: j'_def)
    then obtain c where "c < length xs" "user_message_positions_from parsers (Suc k) xs ! j' = Suc k + c"
      "is_user_turn_boundary parsers (xs ! c)" "turns parsers (take c xs) = j'"
      using Cons.IH by blast
    then show ?thesis using False by (intro exI[of _ "Suc c"]) (auto simp: j'_def nth_append)
  qed
qed

lemma user_positions_nth:
  assumes "j < turns parsers xs"
  shows "user_message_positions parsers xs ! j < length xs"
    "turns parsers (take (user_message_positions parsers xs ! j) xs) = j"
    "is_user_turn_boundary parsers (xs ! (user_message_positions parsers xs ! j))"
  using positions_nth[OF assms, of 0] by (auto simp: user_message_positions_def)

lemma turns_take_mono: "a \<le> b \<Longrightarrow> turns parsers (take a xs) \<le> turns parsers (take b xs)"
  by (metis filter_append le_add1 length_append min.absorb1 take_add take_take le_iff_add)

lemma take_first_position:
  assumes "0 < turns parsers xs"
  shows "take (user_message_positions parsers xs ! 0) xs = takeWhile (\<lambda>i. \<not> is_user_turn_boundary parsers i) xs"
proof -
  let ?c = "user_message_positions parsers xs ! 0"
  note c = user_positions_nth[OF assms]
  have "xs = take ?c xs @ xs ! ?c # drop (Suc ?c) xs" using c(1) by (rule id_take_nth_drop)
  moreover have "\<forall>i\<in>set (take ?c xs). \<not> is_user_turn_boundary parsers i"
    using c(2) by (simp add: filter_empty_conv)
  ultimately show ?thesis
    using c(3) takeWhile_append2[of "take ?c xs" "\<lambda>i. \<not> is_user_turn_boundary parsers i" "xs ! ?c # drop (Suc ?c) xs"]
    by simp
qed

lemma trim_walk:
  fixes reference :: "'ctx option"
  shows "first_turn \<le> c \<Longrightarrow> c \<le> length xs \<Longrightarrow>
   \<exists>c' reference'. trim_pre_turn_context_updates parsers xs first_turn c reference = Some (c', reference')
     \<and> first_turn \<le> c' \<and> c' \<le> c \<and> turns parsers (take c' xs) = turns parsers (take c xs)"
proof (induction c arbitrary: reference)
  case 0
  then show ?case by simp
next
  case (Suc n)
  have n: "n < length xs" using Suc.prems by simp
  have step: "\<exists>c' reference'. trim_pre_turn_context_updates parsers xs first_turn n r = Some (c', reference')
     \<and> first_turn \<le> c' \<and> c' \<le> Suc n \<and> turns parsers (take c' xs) = turns parsers (take (Suc n) xs)"
    if "first_turn < Suc n" "\<not> is_user_turn_boundary parsers (xs ! n)" for r :: "'ctx option"
    using Suc.IH[of r] that n by (fastforce simp: take_Suc_conv_app_nth)
  show ?case
  proof (cases "first_turn < Suc n \<and> (\<exists>m role content phase. xs ! n = Message m role content phase
      \<and> (role = lit ''developer'' \<and> is_contextual_dev_message_content content
         \<or> role = lit ''user'' \<and> is_contextual_user_message_content (is_hook_prompt parsers) content))")
    case True
    then obtain m role content phase where msg: "xs ! n = Message m role content phase"
      "role = lit ''developer'' \<and> is_contextual_dev_message_content content
       \<or> role = lit ''user'' \<and> is_contextual_user_message_content (is_hook_prompt parsers) content" by blast
    then have "\<not> is_user_turn_boundary parsers (xs ! n)" by (auto simp: lit_def)
    then show ?thesis using step True msg n by (auto simp: index_at_def lit_def)
  next
    case False
    then have "trim_pre_turn_context_updates parsers xs first_turn (Suc n) reference = Some (Suc n, reference)"
      using n by (auto simp: index_at_def split: response_item.splits)
    then show ?thesis using Suc.prems by simp
  qed
qed

lemma rollback_cut:
  assumes "0 < n"
  shows "\<exists>h' k. drop_last_n_user_turns parsers n h = Some h' \<and> items h' = take k (items h)
    \<and> turns parsers (items h') = turns parsers (items h) - n
    \<and> (\<exists>rest. items h' = takeWhile (\<lambda>i. \<not> is_user_turn_boundary parsers i) (items h) @ rest
         \<and> (turns parsers (items h) \<le> n \<longrightarrow> rest = []))
    \<and> history_version h' = saturating_add_usize (history_version h) 1"
proof (cases "turns parsers (items h) = 0")
  case True
  then have "user_message_positions parsers (items h) = []"
    using length_positions[of parsers 0 "items h"] by (simp add: user_message_positions_def del: length_positions)
  moreover have all: "takeWhile (\<lambda>i. \<not> is_user_turn_boundary parsers i) (items h) = items h"
    using True by (simp add: filter_empty_conv)
  ultimately show ?thesis
    using assms True by (auto simp: all drop_last_n_user_turns_def replace_items_def intro!: exI[of _ "length (items h)"])
next
  case False
  let ?xs = "items h" and ?ps = "user_message_positions parsers (items h)"
  have len: "length ?ps = turns parsers ?xs" by (simp add: user_message_positions_def)
  define j where "j = turns parsers ?xs - n"
  define c where "c = ?ps ! j"
  have j: "j < turns parsers ?xs" using False assms by (simp add: j_def)
  note c = user_positions_nth[OF j, folded c_def]
  have first: "?ps ! 0 \<le> c"
    using turns_take_mono[of "Suc c" "?ps ! 0" parsers ?xs] user_positions_nth(2)[of 0 parsers ?xs] c False
    by (cases "?ps ! 0 \<le> c") (auto simp: take_Suc_conv_app_nth)
  obtain c' reference where trim:
    "trim_pre_turn_context_updates parsers ?xs (?ps ! 0) c (reference_context_item h) = Some (c', reference)"
    "?ps ! 0 \<le> c'" "c' \<le> c" "turns parsers (take c' ?xs) = j"
    using trim_walk[OF first, of ?xs parsers "reference_context_item h"] c by auto
  let ?h' = "replace_items (take c' ?xs) (h\<lparr>reference_context_item := reference\<rparr>)"
  have "drop_last_n_user_turns parsers n h = Some ?h'"
    using assms False len trim c(1) j
    by (cases ?ps) (auto simp: drop_last_n_user_turns_def index_at_def j_def c_def Let_def)
  moreover have "\<exists>rest. take c' ?xs = takeWhile (\<lambda>i. \<not> is_user_turn_boundary parsers i) ?xs @ rest
      \<and> (turns parsers ?xs \<le> n \<longrightarrow> rest = [])"
  proof (intro exI conjI impI)
    show "take c' ?xs = takeWhile (\<lambda>i. \<not> is_user_turn_boundary parsers i) ?xs @ drop (?ps ! 0) (take c' ?xs)"
      using take_first_position[of parsers ?xs] False trim(2) append_take_drop_id[of "?ps ! 0" "take c' ?xs"]
      by (simp add: min.absorb1)
    show "turns parsers ?xs \<le> n \<Longrightarrow> drop (?ps ! 0) (take c' ?xs) = []"
      using trim(3) by (simp add: c_def j_def)
  qed
  ultimately show ?thesis
    using trim(4) by (intro exI[of _ ?h'] exI[of _ c']) (simp add: replace_items_def j_def)
qed

section \<open>Sizes of recorded outputs\<close>

fun output_text_bytes :: "response_item \<Rightarrow> nat" where
  "output_text_bytes (Function_Call_Output _ output) =
    (case body output of Body_Text s \<Rightarrow> str_len s | Body_Items parts \<Rightarrow> text_bytes parts)"
| "output_text_bytes (Custom_Tool_Call_Output _ _ output) =
    (case body output of Body_Text s \<Rightarrow> str_len s | Body_Items parts \<Rightarrow> text_bytes parts)"
| "output_text_bytes _ = 0"

text \<open>Every string and vector of an item is one that Rust can hold.\<close>

fun payload_fits :: "output_body \<Rightarrow> bool" where
  "payload_fits (Body_Text s) = (str_len s \<le> isize_max)"
| "payload_fits (Body_Items parts) \<longleftrightarrow>
    length parts \<le> isize_max \<and> list_all (\<lambda>part. case text_segment part of Some s \<Rightarrow> str_len s \<le> isize_max | None \<Rightarrow> True) parts"

fun item_fits :: "response_item \<Rightarrow> bool" where
  "item_fits (Function_Call_Output _ output) = payload_fits (body output)"
| "item_fits (Custom_Tool_Call_Output _ _ output) = payload_fits (body output)"
| "item_fits _ = True"

lemma truncate_text_bound:
  assumes "str_len s \<le> isize_max"
  shows "\<exists>r. truncate_text s policy = Some r \<and> str_len r \<le> policy_bytes policy + 43"
proof -
  let ?tok = "case policy of Bytes _ \<Rightarrow> False | Tokens _ \<Rightarrow> True"
  let ?n = "case policy of Bytes n \<Rightarrow> n | Tokens n \<Rightarrow> n"
  have policy: "policy = policy_of ?tok ?n" "unit_bytes ?tok * ?n = policy_bytes policy"
    by (cases policy; simp add: policy_of_def unit_bytes_def policy_bytes_def)+
  show ?thesis
  proof (cases "unit_bytes ?tok * ?n < str_len s")
    case True
    then show ?thesis using truncate_text_over_budget[OF assms True] policy by metis
  next
    case False
    have "str_len s \<le> approx_bytes_for_tokens m" if "str_len s \<le> 4 * m" for m
      using that assms by (simp add: approx_bytes_for_tokens_def saturating_mul_usize_def approx_bytes_per_token_def
          isize_max_def usize_max_def)
    then have "truncate_text s policy = Some s"
      using False by (cases policy)
        (auto simp: truncate_middle_chars_def truncate_short truncate_middle_with_token_budget_def unit_bytes_def
          split: option.splits)
    then show ?thesis using False policy(2) by simp
  qed
qed

lemma truncate_payload_bound:
  assumes "payload_fits (body output)"
  shows "\<exists>p. truncate_function_output_payload output policy = Some p
    \<and> (case body p of Body_Text s \<Rightarrow> str_len s | Body_Items parts \<Rightarrow> text_bytes parts) \<le> policy_bytes policy + 88"
proof (cases "body output")
  case (Body_Text s)
  then show ?thesis
    using truncate_text_bound[of s policy] assms by (auto simp: truncate_function_output_payload_def)
next
  case (Body_Items parts)
  then have "\<forall>s. Output_Input_Text s \<in> set parts \<longrightarrow> str_len s \<le> isize_max" "length parts \<le> isize_max"
    using assms by (auto simp: list_all_iff)
  then show ?thesis
    using truncate_function_output_items_bound[of parts policy] Body_Items
    by (auto simp: truncate_function_output_payload_def)
qed

lemma process_item_bound:
  assumes "item_fits item"
  shows "\<exists>processed. process_item item policy = Some processed
    \<and> output_text_bytes processed \<le> policy_bytes (policy_mul_1_2 policy) + 88
    \<and> (output_key item = None \<longrightarrow> processed = item)
    \<and> call_key processed = call_key item \<and> output_key processed = output_key item"
proof (cases item)
  case (Function_Call_Output call_id payload)
  then show ?thesis using truncate_payload_bound[of payload "policy_mul_1_2 policy"] assms by auto
next
  case (Custom_Tool_Call_Output call_id name payload)
  then show ?thesis using truncate_payload_bound[of payload "policy_mul_1_2 policy"] assms by auto
qed auto

lemma record_items_append:
  assumes "list_all item_fits new"
  shows "\<exists>processed. record_items new policy h = Some (h\<lparr>items := items h @ processed\<rparr>)
    \<and> list_all2 (\<lambda>item p. output_text_bytes p \<le> policy_bytes (policy_mul_1_2 policy) + 88
         \<and> (output_key item = None \<longrightarrow> p = item) \<and> call_key p = call_key item \<and> output_key p = output_key item)
      (filter is_api_message new) processed"
  using assms
proof (induction new arbitrary: h)
  case Nil
  then show ?case by simp
next
  case (Cons item new)
  show ?case
  proof (cases "is_api_message item")
    case True
    obtain p where p: "process_item item policy = Some p"
      "output_text_bytes p \<le> policy_bytes (policy_mul_1_2 policy) + 88"
      "output_key item = None \<longrightarrow> p = item" "call_key p = call_key item" "output_key p = output_key item"
      using process_item_bound[of item policy] Cons.prems by auto
    show ?thesis
      using Cons.IH[of "h\<lparr>items := items h @ [p]\<rparr>"] Cons.prems True p by (auto intro: exI[of _ "p # _"])
  next
    case False
    then show ?thesis using Cons by simp
  qed
qed

section \<open>Compaction\<close>

definition diagnostic_key :: "(str \<times> str \<times> str) list \<Rightarrow> response_item \<Rightarrow> str option" where
  "diagnostic_key keyed item =
    (case item of Function_Call_Output call_id _ \<Rightarrow> map_option fst (map_of keyed call_id) | _ \<Rightarrow> None)"

lemma collect_last_index_rposition:
  "map_of (collect_last_index keyed idx xs last_index) key =
    (case rposition (\<lambda>i. diagnostic_key keyed i = Some key) xs of
       Some j \<Rightarrow> Some (idx + j)
     | None \<Rightarrow> map_of last_index key)"
proof (induction keyed idx xs last_index rule: collect_last_index.induct)
  case (2 keyed idx call_id payload rest last_index)
  then show ?case
    by (auto simp: diagnostic_key_def update_conv' split: option.splits)
qed (auto simp: diagnostic_key_def split: option.splits)

lemma stub_output_cases:
  "stub_output keyed last_index idx item = item
   \<or> (\<exists>key call_id payload stub. diagnostic_key keyed item = Some key \<and> map_of last_index key \<noteq> Some idx
        \<and> item = Function_Call_Output call_id payload
        \<and> stub_output keyed last_index idx item = Function_Call_Output call_id (payload\<lparr>body := Body_Text stub\<rparr>))"
  by (cases item) (auto simp: diagnostic_key_def split: option.splits)

lemma stub_keys [simp]:
  "call_key (stub_output keyed last_index idx item) = call_key item"
  "output_key (stub_output keyed last_index idx item) = output_key item"
  "from_server (stub_output keyed last_index idx item) = from_server item"
  by (cases item; auto split: option.splits)+

lemma compact_nth:
  assumes "i < length xs"
  shows "compact_superseded_diagnostics json xs ! i = xs ! i
    \<or> (\<exists>key call_id payload stub j. diagnostic_key (collect_keyed json xs []) (xs ! i) = Some key
         \<and> i < j \<and> j < length xs \<and> diagnostic_key (collect_keyed json xs []) (xs ! j) = Some key
         \<and> compact_superseded_diagnostics json xs ! j = xs ! j
         \<and> xs ! i = Function_Call_Output call_id payload
         \<and> compact_superseded_diagnostics json xs ! i = Function_Call_Output call_id (payload\<lparr>body := Body_Text stub\<rparr>))"
proof (cases "collect_keyed json xs [] = []")
  case True
  then show ?thesis by (simp add: compact_superseded_diagnostics_def)
next
  case False
  let ?keyed = "collect_keyed json xs []"
  let ?last = "collect_last_index ?keyed 0 xs []"
  have nth: "compact_superseded_diagnostics json xs ! k = stub_output ?keyed ?last k (xs ! k)" if "k < length xs" for k
    using False that by (simp add: compact_superseded_diagnostics_def Let_def nth_enumerate_eq)
  show ?thesis
    using stub_output_cases[of ?keyed ?last i "xs ! i"]
  proof (elim disjE exE conjE)
    assume "stub_output ?keyed ?last i (xs ! i) = xs ! i"
    then show ?thesis using nth[OF assms] by simp
  next
    fix key call_id payload stub
    assume key: "diagnostic_key ?keyed (xs ! i) = Some key" "map_of ?last key \<noteq> Some i"
      "xs ! i = Function_Call_Output call_id payload"
      "stub_output ?keyed ?last i (xs ! i) = Function_Call_Output call_id (payload\<lparr>body := Body_Text stub\<rparr>)"
    let ?P = "\<lambda>i. diagnostic_key ?keyed i = Some key"
    have "rposition ?P xs \<noteq> None" using key(1) assms by (auto simp: rposition_None)
    then obtain j where j: "rposition ?P xs = Some j" by blast
    note last = rposition_Some[OF j]
    have "map_of ?last key = Some j" using collect_last_index_rposition[of ?keyed 0 xs "[]" key] j by simp
    moreover have "i \<le> j" using last key(1) assms by (meson not_le)
    moreover have "stub_output ?keyed ?last j (xs ! j) = xs ! j"
      using stub_output_cases[of ?keyed ?last j "xs ! j"] last \<open>map_of ?last key = Some j\<close> by auto
    ultimately show ?thesis
      using key last nth[OF assms] nth[of j] by (intro disjI2 exI[of _ key] exI[of _ call_id]) (auto simp: le_less)
  qed
qed

lemma length_compact [simp]: "length (compact_superseded_diagnostics json xs) = length xs"
  by (simp add: compact_superseded_diagnostics_def Let_def)

lemma compact_keys:
  "map call_key (compact_superseded_diagnostics json xs) = map call_key xs"
  "map output_key (compact_superseded_diagnostics json xs) = map output_key xs"
  "map from_server (compact_superseded_diagnostics json xs) = map from_server xs"
proof -
  have "call_key (compact_superseded_diagnostics json xs ! i) = call_key (xs ! i)
      \<and> output_key (compact_superseded_diagnostics json xs ! i) = output_key (xs ! i)
      \<and> from_server (compact_superseded_diagnostics json xs ! i) = from_server (xs ! i)" if "i < length xs" for i
    using compact_nth[OF that, of json] by auto
  then show "map call_key (compact_superseded_diagnostics json xs) = map call_key xs"
    "map output_key (compact_superseded_diagnostics json xs) = map output_key xs"
    "map from_server (compact_superseded_diagnostics json xs) = map from_server xs"
    by (auto intro: nth_equalityI)
qed

lemma paired_by_keys:
  assumes "map call_key xs = map call_key ys" "map output_key xs = map output_key ys"
    "map from_server xs = map from_server ys"
  shows "paired xs = paired ys"
proof -
  have len: "length xs = length ys" using map_eq_imp_length_eq[OF assms(1)] .
  have at: "call_key (xs ! i) = call_key (ys ! i)" "output_key (xs ! i) = output_key (ys ! i)"
    "from_server (xs ! i) = from_server (ys ! i)" if "i < length xs" for i
    using that len assms by (metis nth_map)+
  have "call_keys xs = call_keys ys" "output_keys xs = output_keys ys" "local_output_keys xs = local_output_keys ys"
    using at len unfolding call_keys_def output_keys_def local_output_keys_def
    by (auto simp: in_set_conv_nth Bex_def)
  then show ?thesis by (simp add: paired_keys)
qed

section \<open>Properties\<close>


definition no_parsers :: text_parsers where
  "no_parsers = \<lparr>is_hook_prompt = (\<lambda>_. False), is_inter_agent_json = (\<lambda>_. False)\<rparr>"

definition sample_history :: "unit context_manager" where
  "sample_history = new_context_manager\<lparr>items :=
     [Compaction [], Agent_Message [] [] [], Reasoning [] [] None None, Agent_Message [] [] []]\<rparr>"


text \<open>
  Removing the oldest item keeps the history paired: with at most one call and one output per
  call id, the counterpart of the removed item goes with it and nothing else does.
\<close>

theorem remove_first_item_keeps_pairing:
  assumes "paired (items h)" "unique_keys (items h)"
  shows "paired (items (remove_first_item h)) \<and> unique_keys (items (remove_first_item h))
    \<and> length (items h) \<le> length (items (remove_first_item h)) + 2"
proof (cases "items h")
  case Nil
  then show ?thesis using assms by (simp add: remove_first_item_def)
next
  case (Cons x xs)
  have "length xs \<le> length (remove_corresponding_for xs x) + 1"
    by (cases "(xs, x)" rule: remove_corresponding_for.cases)
      (auto simp: remove_first_matching_def remove_at_def split: option.splits)
  then show ?thesis
    using remove_corresponding_paired[of x xs] assms Cons by (simp add: remove_first_item_def)
qed

theorem remove_first_item_keeps_pairing_witness:
  "paired (items (remove_first_item (new_context_manager\<lparr>items :=
     [Function_Call None (lit ''f'') None [] (lit ''1''), Function_Call_Output (lit ''1'') aborted]\<rparr>)))"
proof -
  let ?h = "new_context_manager\<lparr>items :=
     [Function_Call None (lit ''f'') None [] (lit ''1''), Function_Call_Output (lit ''1'') aborted]\<rparr>"
  have "paired (items ?h)" "unique_keys (items ?h)"
    by (simp_all add: paired_def calls_answered_def outputs_called_def unique_keys_def)
  then show ?thesis using remove_first_item_keeps_pairing[of ?h] by blast
qed



text \<open>
  C24: The prompt is well formed and compaction loses only superseded outputs. Whatever the history,
  a prompt that is produced is paired, in a release build one is always produced, and an output
  replaced by a stub is followed by a later output for the same file or build that is kept as it is.
\<close>

theorem prompt_paired_and_latest_kept:
  "(\<exists>out. for_prompt False json env modalities h = Some out)
   \<and> (for_prompt debug json env modalities h = Some out \<longrightarrow>
        paired out \<and> (\<exists>normalized. normalize_history debug modalities (items h) = Some normalized
          \<and> length out = length normalized
          \<and> (\<forall>i<length out. out ! i = normalized ! i
              \<or> (\<exists>key j. i < j \<and> j < length out \<and> out ! j = normalized ! j
                   \<and> diagnostic_key (collect_keyed json normalized []) (normalized ! i) = Some key
                   \<and> diagnostic_key (collect_keyed json normalized []) (normalized ! j) = Some key))))"
proof (intro conjI impI)
  show "\<exists>out. for_prompt False json env modalities h = Some out"
    by (simp add: for_prompt_def normalize_release)
  assume "for_prompt debug json env modalities h = Some out"
  then obtain normalized where n: "normalize_history debug modalities (items h) = Some normalized"
    "out = normalized \<or> out = compact_superseded_diagnostics json normalized"
    by (auto simp: for_prompt_def split: if_splits)
  have "paired normalized" using normalize_paired[OF n(1)] .
  then show "paired out"
    using n(2) paired_by_keys[OF compact_keys[of json normalized]] by auto
  have "length out = length normalized \<and> (\<forall>i<length out. out ! i = normalized ! i
      \<or> (\<exists>key j. i < j \<and> j < length out \<and> out ! j = normalized ! j
           \<and> diagnostic_key (collect_keyed json normalized []) (normalized ! i) = Some key
           \<and> diagnostic_key (collect_keyed json normalized []) (normalized ! j) = Some key))"
    using n(2) compact_nth[of _ normalized json] by (elim disjE) (simp, fastforce)
  then show "\<exists>normalized. normalize_history debug modalities (items h) = Some normalized
      \<and> length out = length normalized \<and> (\<forall>i<length out. out ! i = normalized ! i
      \<or> (\<exists>key j. i < j \<and> j < length out \<and> out ! j = normalized ! j
           \<and> diagnostic_key (collect_keyed json normalized []) (normalized ! i) = Some key
           \<and> diagnostic_key (collect_keyed json normalized []) (normalized ! j) = Some key))"
    using n(1) by blast
qed

theorem prompt_paired_and_latest_kept_witness:
  "\<exists>out. for_prompt False (\<lambda>_. None) (Some (lit ''1'')) [] sample_history = Some out \<and> paired out"
  using prompt_paired_and_latest_kept[of "\<lambda>_. None" "Some (lit ''1'')" "[]" sample_history] by blast

text \<open>
  Token totals never leave the range of \<open>i64\<close> and never fall below what the server reported:
  estimates only add, and saturate instead of overflowing.
\<close>

theorem token_totals_in_range:
  assumes "0 \<le> last_total_tokens h" "last_total_tokens h \<le> i64_max"
  shows "last_total_tokens h \<le> get_total_token_usage parsers est included h
    \<and> get_total_token_usage parsers est included h \<le> i64_max
    \<and> 0 \<le> estimate_token_count_with_base_instructions est base h
    \<and> estimate_token_count_with_base_instructions est base h \<le> i64_max"
proof -
  have estimates: "0 \<le> sum_estimates (estimate_item_token_count est) xs"
    "sum_estimates (estimate_item_token_count est) xs \<le> i64_max" for xs
    using sum_estimates_range[of xs "estimate_item_token_count est"] estimate_item_token_count_range by auto
  have reasoning: "0 \<le> get_non_last_reasoning_items_tokens parsers est h"
    using estimates by (simp add: get_non_last_reasoning_items_tokens_def split: option.splits)
  note with_reasoning = saturating_add_nonneg[OF assms(1) reasoning assms(2)]
  have "last_total_tokens h \<le> get_total_token_usage parsers est included h"
    "get_total_token_usage parsers est included h \<le> i64_max"
    using saturating_add_nonneg[OF assms(1) estimates(1) assms(2)]
      saturating_add_nonneg[OF _ estimates(1), of "saturating_add_i64 (last_total_tokens h) (get_non_last_reasoning_items_tokens parsers est h)"]
      with_reasoning assms(1)
    by (auto simp: get_total_token_usage_def Let_def intro: order_trans)
  moreover have "0 \<le> estimate_token_count_with_base_instructions est base h"
    "estimate_token_count_with_base_instructions est base h \<le> i64_max"
    using saturating_add_nonneg[OF _ estimates(1), of "i64_of_usize (approx_token_count base)"] i64_of_usize_range
    by (auto simp: estimate_token_count_with_base_instructions_def intro: order_trans)
  ultimately show ?thesis by blast
qed

theorem token_totals_in_range_witness:
  "0 \<le> get_total_token_usage no_parsers \<lparr>serialized_len = (\<lambda>_. Some 40), image_size = (\<lambda>_. None)\<rparr> True sample_history"
  using token_totals_in_range[of sample_history no_parsers "\<lparr>serialized_len = (\<lambda>_. Some 40), image_size = (\<lambda>_. None)\<rparr>" True]
  by (simp add: last_total_tokens_def sample_history_def new_context_manager_def i64_max_def)

definition interrupted_check :: "unit context_manager" where
  "interrupted_check = new_context_manager\<lparr>items :=
     [Function_Call None (lit ''lean_diagnostic_messages'') None (lit ''{}'') (lit ''1''),
      Function_Call_Output (lit ''1'') (payload_from_text (lit ''error'')),
      Function_Call None (lit ''lean_diagnostic_messages'') None (lit ''{}'') (lit ''2'')]\<rparr>"

text \<open>
  The only real diagnostics can be lost: when a later check of the same file was interrupted,
  normalization first gives it the placeholder output \<open>aborted\<close>, and compaction then treats the
  placeholder as the newer result and replaces the diagnostics that the model did receive.
\<close>

theorem aborted_check_supersedes_diagnostics:
  "\<exists>stub. for_prompt False (\<lambda>_. Some (lit ''A.lean'')) (Some (lit ''1'')) [Modality_Image] interrupted_check =
     Some [Function_Call None (lit ''lean_diagnostic_messages'') None (lit ''{}'') (lit ''1''),
           Function_Call_Output (lit ''1'') (payload_from_text stub),
           Function_Call None (lit ''lean_diagnostic_messages'') None (lit ''{}'') (lit ''2''),
           Function_Call_Output (lit ''2'') (payload_from_text (lit ''aborted''))]
   \<and> stub \<noteq> lit ''error''"
  by (simp add: for_prompt_def interrupted_check_def normalize_history_def ensure_call_outputs_present_def
      remove_orphan_outputs_def strip_images_when_unsupported_def superseded_diagnostic_compaction_enabled_def
      compact_superseded_diagnostics_def superseded_diagnostic_key_def short_name_def insert_at_def
      payload_from_text_def aborted_def error_or_panic_def new_context_manager_def Let_def lit_def)

end
