(* ===== verification/Stream_Text.thy ===== *)
theory Stream_Text
  imports Codex_Prelude
begin

text \<open>
  The interface of the streaming text parsers (\<open>utils/stream-parser/src/stream_text.rs\<close>): a parser
  consumes chunks of text and returns, for every chunk, the text that may be shown and the payloads
  it extracted. The locale \<open>stream_text_parser\<close> states what its clients rely on: cutting the input
  into other chunks changes neither the final state nor what is observed of the output. A payload
  is observed through \<open>pieces\<close>, so a parser may deliver one run of text in several deltas.
\<close>

record 'e stream_text_chunk =
  visible_text :: str
  extracted :: "'e list"

definition empty_text_chunk :: "'e stream_text_chunk" where
  "empty_text_chunk = \<lparr>visible_text = [], extracted = []\<rparr>"

definition chunk_is_empty :: "'e stream_text_chunk \<Rightarrow> bool" where
  "chunk_is_empty c \<longleftrightarrow> visible_text c = [] \<and> extracted c = []"

text \<open>\<open>out.visible_text.push_str(..); out.extracted.extend(..)\<close>, as the clients join two results.\<close>

definition chunk_append :: "'e stream_text_chunk \<Rightarrow> 'e stream_text_chunk \<Rightarrow> 'e stream_text_chunk" where
  "chunk_append a b =
     \<lparr>visible_text = visible_text a @ visible_text b, extracted = extracted a @ extracted b\<rparr>"

text \<open>What a client can tell of a result when payloads are read through \<open>pieces\<close>.\<close>

definition observed :: "('e \<Rightarrow> 'o list) \<Rightarrow> 'e stream_text_chunk \<Rightarrow> str \<times> 'o list" where
  "observed pieces c = (visible_text c, concat (map pieces (extracted c)))"

lemma chunk_append_empty [simp]:
  "chunk_append empty_text_chunk c = c" "chunk_append c empty_text_chunk = c"
  by (simp_all add: chunk_append_def empty_text_chunk_def)

lemma chunk_append_assoc: "chunk_append (chunk_append a b) c = chunk_append a (chunk_append b c)"
  by (simp add: chunk_append_def)

lemma chunk_append_fields [simp]:
  "visible_text (chunk_append a b) = visible_text a @ visible_text b"
  "extracted (chunk_append a b) = extracted a @ extracted b"
  by (simp_all add: chunk_append_def)

lemma empty_chunk_fields [simp]: "visible_text empty_text_chunk = []" "extracted empty_text_chunk = []"
  by (simp_all add: empty_text_chunk_def)

lemma observed_append_cong:
  "observed pieces a = observed pieces a' \<Longrightarrow> observed pieces b = observed pieces b' \<Longrightarrow>
   observed pieces (chunk_append a b) = observed pieces (chunk_append a' b')"
  by (simp add: observed_def)

text \<open>
  A stream fed chunk by chunk, and the whole run: every chunk, then the final flush. \<open>None\<close> is a
  push that does not return.
\<close>

fun push_chunks ::
  "('p \<Rightarrow> str \<Rightarrow> ('p \<times> 'e stream_text_chunk) option) \<Rightarrow> 'p \<Rightarrow> str list \<Rightarrow>
   ('p \<times> 'e stream_text_chunk) option" where
  "push_chunks push p [] = Some (p, empty_text_chunk)"
| "push_chunks push p (c # cs) =
     (case push p c of
        None \<Rightarrow> None
      | Some (q, out) \<Rightarrow>
          (case push_chunks push q cs of
             None \<Rightarrow> None
           | Some (r, rest) \<Rightarrow> Some (r, chunk_append out rest)))"

definition run_chunks ::
  "('p \<Rightarrow> str \<Rightarrow> ('p \<times> 'e stream_text_chunk) option) \<Rightarrow> ('p \<Rightarrow> 'p \<times> 'e stream_text_chunk) \<Rightarrow>
   'p \<Rightarrow> str list \<Rightarrow> 'e stream_text_chunk option" where
  "run_chunks push flush p cs =
     map_option (\<lambda>(q, out). chunk_append out (snd (flush q))) (push_chunks push p cs)"

locale stream_text_parser =
  fixes push_str :: "'p \<Rightarrow> str \<Rightarrow> ('p \<times> 'e stream_text_chunk) option"
    and finish :: "'p \<Rightarrow> 'p \<times> 'e stream_text_chunk"
    and ready :: "'p \<Rightarrow> bool"
    and pieces :: "'e \<Rightarrow> 'o list"
  assumes push_returns: "ready p \<Longrightarrow> push_str p s \<noteq> None"
    and push_ready: "ready p \<Longrightarrow> push_str p s = Some (q, out) \<Longrightarrow> ready q"
    and push_nothing: "ready p \<Longrightarrow> push_str p [] = Some (p, empty_text_chunk)"
    and push_append: "ready p \<Longrightarrow> push_str p a = Some (q, o1) \<Longrightarrow> push_str q b = Some (r, o2) \<Longrightarrow>
      \<exists>out. push_str p (a @ b) = Some (r, out) \<and>
            observed pieces out = observed pieces (chunk_append o1 o2)"
begin

lemma push_obtain:
  assumes "ready p"
  obtains q out where "push_str p s = Some (q, out)" "ready q"
  using push_returns[OF assms, of s] push_ready[OF assms, of s] by (cases "push_str p s") auto

lemma chunks_agree:
  assumes "ready p"
  shows "\<exists>q out whole. push_chunks push_str p cs = Some (q, out) \<and> push_str p (concat cs) = Some (q, whole)
    \<and> observed pieces whole = observed pieces out \<and> ready q"
  using assms
proof (induction cs arbitrary: p)
  case Nil
  then show ?case by (simp add: push_nothing)
next
  case (Cons c cs)
  obtain q out where q: "push_str p c = Some (q, out)" "ready q" using push_obtain[OF Cons.prems] .
  obtain r rest whole where r: "push_chunks push_str q cs = Some (r, rest)"
    "push_str q (concat cs) = Some (r, whole)" "observed pieces whole = observed pieces rest" "ready r"
    using Cons.IH[OF q(2)] by blast
  obtain full where full: "push_str p (c @ concat cs) = Some (r, full)"
    "observed pieces full = observed pieces (chunk_append out whole)"
    using push_append[OF Cons.prems q(1) r(2)] by blast
  show ?case
    using q r full observed_append_cong[OF refl r(3), of out] by simp
qed

text \<open>A stream may be cut anywhere: the run on the chunks shows what the run on the whole text shows.\<close>

lemma run_split:
  assumes "ready p"
  shows "\<exists>out whole. run_chunks push_str finish p cs = Some out \<and>
    run_chunks push_str finish p [concat cs] = Some whole \<and> observed pieces out = observed pieces whole"
proof -
  obtain q out whole where "push_chunks push_str p cs = Some (q, out)"
    "push_str p (concat cs) = Some (q, whole)" and obs: "observed pieces whole = observed pieces out"
    using chunks_agree[OF assms] by blast
  then show ?thesis
    using observed_append_cong[OF obs[symmetric] refl] by (simp add: run_chunks_def)
qed

end

end
