(* ===== verification/Inline_Hidden_Tag.thy ===== *)
theory Inline_Hidden_Tag
  imports Stream_Text
begin

text \<open>
  The parser that hides inline tags and collects what they enclose
  (\<open>utils/stream-parser/src/inline_hidden_tag.rs\<close>) and the citation parser on top of it
  (\<open>citation.rs\<close>). Positions in the pending text count characters where the source counts bytes;
  both orders agree, and every position used lies between two characters. The loop of \<open>push_str\<close>
  is a partial function: it is proved to return for every parser that \<open>new\<close> accepts. The lemmas
  show that cutting the stream changes nothing as long as no opening delimiter occurs inside
  another one, and that citations are recovered exactly.
\<close>

section \<open>Searching a text\<close>

text \<open>\<open>str::find\<close>: the first place where the pattern occurs.\<close>

fun find_str :: "'a list \<Rightarrow> 'a list \<Rightarrow> nat option" where
  "find_str p [] = (if p = [] then Some 0 else None)"
| "find_str p (c # cs) =
     (if starts_with p (c # cs) then Some 0 else map_option Suc (find_str p cs))"

definition longest_suffix_prefix_len :: "'a list \<Rightarrow> 'a list \<Rightarrow> nat" where
  "longest_suffix_prefix_len s needle =
     (let mx = min (length s) (length needle - 1)
      in case List.find (\<lambda>k. ends_with (take k needle) s) (rev [1..<Suc mx]) of
           Some k \<Rightarrow> k
         | None \<Rightarrow> 0)"

lemma find_str_Some_iff:
  "find_str p s = Some i \<longleftrightarrow>
   i \<le> length s \<and> starts_with p (drop i s) \<and> (\<forall>j<i. \<not> starts_with p (drop j s))"
proof (induction s arbitrary: i)
  case Nil
  then show ?case by (auto simp: starts_with_iff)
next
  case (Cons c cs)
  show ?case
  proof (cases i)
    case 0
    then show ?thesis by simp
  next
    case (Suc k)
    have "(\<forall>j<Suc k. \<not> starts_with p (drop j (c # cs))) \<longleftrightarrow>
        \<not> starts_with p (c # cs) \<and> (\<forall>j<k. \<not> starts_with p (drop j cs))"
      by (metis drop0 drop_Suc_Cons less_Suc_eq_0_disj)
    then show ?thesis
      using Cons.IH[of k] Suc by auto
  qed
qed

lemma find_str_None_iff:
  "find_str p s = None \<longleftrightarrow> (\<forall>i\<le>length s. \<not> starts_with p (drop i s))"
proof (induction s)
  case (Cons c cs)
  have "(\<forall>i\<le>length (c # cs). \<not> starts_with p (drop i (c # cs))) \<longleftrightarrow>
      \<not> starts_with p (c # cs) \<and> (\<forall>i\<le>length cs. \<not> starts_with p (drop i cs))"
    by (metis drop0 drop_Suc_Cons le0 length_Cons not_less_eq_eq old.nat.exhaust)
  then show ?case using Cons.IH by simp
qed (auto simp: starts_with_iff)

lemma starts_with_length: "starts_with p s \<Longrightarrow> length p \<le> length s"
  by (auto simp: starts_with_iff)

lemma starts_with_append_mono: "starts_with p s \<Longrightarrow> starts_with p (s @ b)"
  by (auto simp: starts_with_iff)

lemma starts_with_append_short:
  "length p \<le> length s \<Longrightarrow> starts_with p (s @ b) \<longleftrightarrow> starts_with p s"
  by (auto simp: starts_with_iff append_eq_append_conv2)

lemma find_str_le: "find_str p s = Some i \<Longrightarrow> i + length p \<le> length s"
  by (auto simp: find_str_Some_iff dest: starts_with_length)

lemma find_str_append_Some:
  assumes "find_str p s = Some i"
  shows "find_str p (s @ b) = Some i"
proof -
  have i: "i \<le> length s" "starts_with p (drop i s)" "\<forall>j<i. \<not> starts_with p (drop j s)"
    using assms by (auto simp: find_str_Some_iff)
  have "\<not> starts_with p (drop j (s @ b))" if "j < i" for j
    using that i find_str_le[OF assms] by (simp add: starts_with_append_short)
  then show ?thesis using i by (simp add: find_str_Some_iff starts_with_append_mono)
qed

text \<open>The longest proper prefix of the needle with which the text ends.\<close>

lemma find_rev_upto_Some:
  "List.find P (rev [1..<Suc m]) = Some k \<longleftrightarrow> 1 \<le> k \<and> k \<le> m \<and> P k \<and> (\<forall>j. k < j \<and> j \<le> m \<longrightarrow> \<not> P j)"
  by (induction m) (auto simp: le_Suc_eq)

lemma find_rev_upto_None:
  "List.find P (rev [1..<Suc m]) = None \<longleftrightarrow> (\<forall>j. 1 \<le> j \<and> j \<le> m \<longrightarrow> \<not> P j)"
  by (auto simp: find_None_iff)

lemma longest_suffix_prefix_props:
  "longest_suffix_prefix_len s p \<le> length s"
  "longest_suffix_prefix_len s p \<le> length p - 1"
  "ends_with (take (longest_suffix_prefix_len s p) p) s"
  and longest_suffix_prefix_max:
  "k \<le> length p - 1 \<Longrightarrow> k \<le> length s \<Longrightarrow> ends_with (take k p) s \<Longrightarrow> k \<le> longest_suffix_prefix_len s p"
proof -
  define m where "m = min (length s) (length p - 1)"
  define r where "r = List.find (\<lambda>k. ends_with (take k p) s) (rev [1..<Suc m])"
  have l: "longest_suffix_prefix_len s p = (case r of Some k \<Rightarrow> k | None \<Rightarrow> 0)"
    unfolding longest_suffix_prefix_len_def Let_def r_def m_def by simp
  have some: "1 \<le> k \<and> k \<le> m \<and> ends_with (take k p) s \<and> (\<forall>j. k < j \<and> j \<le> m \<longrightarrow> \<not> ends_with (take j p) s)"
    if "r = Some k" for k
    using that unfolding r_def find_rev_upto_Some .
  have none: "\<forall>j. 1 \<le> j \<and> j \<le> m \<longrightarrow> \<not> ends_with (take j p) s" if "r = None"
    using that unfolding r_def find_rev_upto_None .
  have e: "ends_with (take 0 p) s" by (simp add: ends_with_iff)
  show "longest_suffix_prefix_len s p \<le> length s" "longest_suffix_prefix_len s p \<le> length p - 1"
    "ends_with (take (longest_suffix_prefix_len s p) p) s"
    using some e unfolding l by (auto split: option.split simp: m_def)
  show "k \<le> longest_suffix_prefix_len s p"
    if "k \<le> length p - 1" "k \<le> length s" "ends_with (take k p) s"
  proof (cases r)
    case None
    then have "\<not> 1 \<le> k" using none that by (auto simp: m_def)
    then show ?thesis by simp
  next
    case (Some j)
    then have "\<not> j < k" using some[OF Some] that by (auto simp: m_def)
    then show ?thesis using Some l by simp
  qed
qed

text \<open>
  Text that neither contains the needle nor can begin it may be dropped before more text arrives:
  both searches only move by its length.
\<close>

lemma match_across:
  assumes "starts_with p (drop i (s @ b))" "i < length s" "\<not> starts_with p (drop i s)"
  shows "length s - i \<le> longest_suffix_prefix_len s p"
proof (rule longest_suffix_prefix_max)
  have long: "length s - i < length p"
    using assms starts_with_append_short[of p "drop i s" b] by force
  then show "length s - i \<le> length p - 1" "length s - i \<le> length s" by auto
  obtain r where r: "drop i s @ b = p @ r" using assms by (auto simp: starts_with_iff)
  have "take (length s - i) (drop i s @ b) = take (length s - i) (p @ r)" using r by simp
  then have "drop i s = take (length s - i) p" using long by simp
  then show "ends_with (take (length s - i) p) s"
    by (metis append_take_drop_id ends_with_iff)
qed

lemma find_str_append_None:
  assumes none: "find_str p s = None" and d: "d + longest_suffix_prefix_len s p \<le> length s"
  shows "find_str p (s @ b) = map_option ((+) d) (find_str p (drop d s @ b))"
proof -
  have early: "\<not> starts_with p (drop i (s @ b))" if "i < d" for i
  proof
    assume "starts_with p (drop i (s @ b))"
    moreover have "\<not> starts_with p (drop i s)" using none that d by (simp add: find_str_None_iff)
    ultimately have "length s - i \<le> longest_suffix_prefix_len s p"
      using that d by (intro match_across[where b = b]) auto
    then show False using that d by linarith
  qed
  have shift: "drop d s @ b = drop d (s @ b)" using d by simp
  show ?thesis
  proof (cases "find_str p (drop d s @ b)")
    case None
    have "\<not> starts_with p (drop i (s @ b))" if "i \<le> length (s @ b)" for i
    proof (cases "i < d")
      case False
      then have "drop i (s @ b) = drop (i - d) (drop d (s @ b))" by (simp only: drop_drop) simp
      moreover have "i - d \<le> length (drop d (s @ b))" using that by simp
      ultimately show ?thesis using None unfolding shift find_str_None_iff by metis
    qed (use early in simp)
    then have "find_str p (s @ b) = None" unfolding find_str_None_iff by blast
    then show ?thesis using None by simp
  next
    case (Some j)
    then have j: "j \<le> length (drop d (s @ b))" "starts_with p (drop j (drop d (s @ b)))"
      "\<forall>k<j. \<not> starts_with p (drop k (drop d (s @ b)))"
      unfolding shift find_str_Some_iff by blast+
    have "\<not> starts_with p (drop i (s @ b))" if "i < d + j" for i
    proof (cases "i < d")
      case False
      then have "drop i (s @ b) = drop (i - d) (drop d (s @ b))" by (simp only: drop_drop) simp
      then show ?thesis using j(3) that False by (metis add.commute less_diff_conv2 linorder_not_less)
    qed (use early in simp)
    then have "find_str p (s @ b) = Some (d + j)"
      using j(1,2) d unfolding find_str_Some_iff by (simp add: add.commute)
    then show ?thesis using Some by simp
  qed
qed

lemma ends_with_append_long:
  assumes "length b \<le> k" "k \<le> length p" "ends_with (take k p) (s @ b)"
  shows "ends_with (take (k - length b) p) s"
proof -
  obtain r where r: "s @ b = r @ take k p" using assms(3) by (auto simp: ends_with_iff)
  have "take (length s) (s @ b) = take (length s) (r @ take k p)" using r by simp
  moreover have "length s + length b = length r + k" using arg_cong[OF r, of length] assms by simp
  moreover have "length s - length r = k - length b" "length r \<le> length s"
    using \<open>length s + length b = length r + k\<close> assms(1) by auto
  ultimately have "s = r @ take (k - length b) p"
    by (simp add: min_def)
  then show ?thesis by (auto simp: ends_with_iff)
qed

lemma longest_suffix_prefix_append:
  assumes d: "d + longest_suffix_prefix_len s p \<le> length s"
  shows "longest_suffix_prefix_len (s @ b) p = longest_suffix_prefix_len (drop d s @ b) p"
proof (rule antisym)
  define k where "k = longest_suffix_prefix_len (s @ b) p"
  have k: "k \<le> length s + length b" "k \<le> length p - 1" "ends_with (take k p) (s @ b)"
    using longest_suffix_prefix_props[of "s @ b" p] by (auto simp: k_def)
  have short: "k \<le> length (drop d s @ b)"
  proof (cases "length b \<le> k")
    case True
    have "ends_with (take (k - length b) p) s" using ends_with_append_long[OF True _ k(3)] k(2) by simp
    then have "k - length b \<le> longest_suffix_prefix_len s p"
      using k by (intro longest_suffix_prefix_max) auto
    then show ?thesis using d by simp
  qed simp
  obtain r where r: "s @ b = r @ take k p" using k(3) by (auto simp: ends_with_iff)
  have len: "length s + length b = length r + k" using arg_cong[OF r, of length] k(2) by simp
  have "drop d (s @ b) = drop d (r @ take k p)" using r by simp
  then have "drop d s @ b = drop d r @ take k p" using d short len by simp
  then have "ends_with (take k p) (drop d s @ b)" by (auto simp: ends_with_iff)
  then show "longest_suffix_prefix_len (s @ b) p \<le> longest_suffix_prefix_len (drop d s @ b) p"
    using short k(2) by (fold k_def) (rule longest_suffix_prefix_max)
next
  define k where "k = longest_suffix_prefix_len (drop d s @ b) p"
  have k: "k \<le> length (drop d s @ b)" "k \<le> length p - 1" "ends_with (take k p) (drop d s @ b)"
    using longest_suffix_prefix_props[of "drop d s @ b" p] by (auto simp: k_def)
  have "ends_with (take k p) (s @ b)"
    using k(3) by (metis append.assoc append_take_drop_id ends_with_iff)
  then show "longest_suffix_prefix_len (drop d s @ b) p \<le> longest_suffix_prefix_len (s @ b) p"
    using k(1,2) by (fold k_def) (intro longest_suffix_prefix_max, auto)
qed

section \<open>The parser\<close>

record 't extracted_inline_tag =
  extracted_tag :: 't
  extracted_content :: str

record 't inline_tag_spec =
  inline_tag :: 't
  open_delimiter :: str
  close_delimiter :: str

record 't active_tag =
  active_tag_tag :: 't
  active_close :: str
  active_content :: str

record 't inline_hidden_tag_parser =
  inline_specs :: "'t inline_tag_spec list"
  inline_pending :: str
  inline_active :: "'t active_tag option"

text \<open>\<open>InlineHiddenTagParser::new\<close>; \<open>None\<close> is a failed assertion.\<close>

definition inline_new :: "'t inline_tag_spec list \<Rightarrow> 't inline_hidden_tag_parser option" where
  "inline_new specs =
     (if specs = [] then None
      else if \<not> list_all (\<lambda>spec. open_delimiter spec \<noteq> [] \<and> close_delimiter spec \<noteq> []) specs then None
      else Some \<lparr>inline_specs = specs, inline_pending = [], inline_active = None\<rparr>)"

text \<open>\<open>Iterator::min_by\<close>: the first of the least elements.\<close>

definition min_by :: "('a \<Rightarrow> 'a \<Rightarrow> bool) \<Rightarrow> 'a list \<Rightarrow> 'a option" where
  "min_by before xs =
     (case xs of [] \<Rightarrow> None | y # ys \<Rightarrow> Some (foldl (\<lambda>m z. if before z m then z else m) y ys))"

text \<open>The earliest opening, then the longest delimiter, then the first specification.\<close>

definition open_before :: "nat \<times> nat \<times> nat \<Rightarrow> nat \<times> nat \<times> nat \<Rightarrow> bool" where
  "open_before a b =
     (case (a, b) of ((pos_a, len_a, idx_a), (pos_b, len_b, idx_b)) \<Rightarrow>
        pos_a < pos_b \<or> (pos_a = pos_b \<and> (len_b < len_a \<or> (len_a = len_b \<and> idx_a < idx_b))))"

definition open_candidates :: "'t inline_tag_spec list \<Rightarrow> str \<Rightarrow> (nat \<times> nat \<times> nat) list" where
  "open_candidates specs pending =
     concat (map (\<lambda>(idx, spec).
        case find_str (open_delimiter spec) pending of
          None \<Rightarrow> []
        | Some pos \<Rightarrow> [(pos, str_len (open_delimiter spec), idx)]) (enumerate 0 specs))"

definition find_next_open :: "'t inline_tag_spec list \<Rightarrow> str \<Rightarrow> (nat \<times> nat) option" where
  "find_next_open specs pending =
     map_option (\<lambda>(pos, len, idx). (pos, idx)) (min_by open_before (open_candidates specs pending))"

definition max_open_prefix_suffix_len :: "'t inline_tag_spec list \<Rightarrow> str \<Rightarrow> nat" where
  "max_open_prefix_suffix_len specs pending =
     foldr max (map (\<lambda>spec. longest_suffix_prefix_len pending (open_delimiter spec)) specs) 0"

definition push_visible_prefix :: "'e stream_text_chunk \<Rightarrow> str \<Rightarrow> 'e stream_text_chunk" where
  "push_visible_prefix out t =
     (if t = [] then out else out\<lparr>visible_text := visible_text out @ t\<rparr>)"

definition drain_visible_to_suffix_match ::
  "'t inline_hidden_tag_parser \<Rightarrow> 'e stream_text_chunk \<Rightarrow> nat \<Rightarrow>
   't inline_hidden_tag_parser \<times> 'e stream_text_chunk" where
  "drain_visible_to_suffix_match p out keep =
     (let n = length (inline_pending p) - keep
      in if n = 0 then (p, out)
         else (p\<lparr>inline_pending := drop n (inline_pending p)\<rparr>,
               push_visible_prefix out (take n (inline_pending p))))"

text \<open>The loop of \<open>push_str\<close>; \<open>continue\<close> is the recursive call and \<open>break\<close> the result.\<close>

partial_function (option) inline_push_loop ::
  "'t inline_hidden_tag_parser \<Rightarrow> 't extracted_inline_tag stream_text_chunk \<Rightarrow>
   ('t inline_hidden_tag_parser \<times> 't extracted_inline_tag stream_text_chunk) option" where
  "inline_push_loop p out =
     (case inline_active p of
        Some active \<Rightarrow>
          (case find_str (active_close active) (inline_pending p) of
             Some close_idx \<Rightarrow>
               inline_push_loop
                 (p\<lparr>inline_active := None,
                    inline_pending := drop (close_idx + length (active_close active)) (inline_pending p)\<rparr>)
                 (out\<lparr>extracted := extracted out @
                    [\<lparr>extracted_tag = active_tag_tag active,
                      extracted_content = active_content active @ take close_idx (inline_pending p)\<rparr>]\<rparr>)
           | None \<Rightarrow>
               (let keep = longest_suffix_prefix_len (inline_pending p) (active_close active);
                    n = length (inline_pending p) - keep
                in Some (if 0 < n
                         then p\<lparr>inline_active := Some (active\<lparr>active_content :=
                                   active_content active @ take n (inline_pending p)\<rparr>),
                                inline_pending := drop n (inline_pending p)\<rparr>
                         else p, out)))
      | None \<Rightarrow>
          (case find_next_open (inline_specs p) (inline_pending p) of
             Some (open_idx, spec_idx) \<Rightarrow>
               (let spec = inline_specs p ! spec_idx
                in inline_push_loop
                     (p\<lparr>inline_active := Some \<lparr>active_tag_tag = inline_tag spec,
                          active_close = close_delimiter spec, active_content = []\<rparr>,
                        inline_pending :=
                          drop (open_idx + length (open_delimiter spec)) (inline_pending p)\<rparr>)
                     (push_visible_prefix out (take open_idx (inline_pending p))))
           | None \<Rightarrow>
               Some (drain_visible_to_suffix_match p out
                       (max_open_prefix_suffix_len (inline_specs p) (inline_pending p)))))"

declare inline_push_loop.simps [code]

definition inline_push_str ::
  "'t inline_hidden_tag_parser \<Rightarrow> str \<Rightarrow>
   ('t inline_hidden_tag_parser \<times> 't extracted_inline_tag stream_text_chunk) option" where
  "inline_push_str p chunk =
     inline_push_loop (p\<lparr>inline_pending := inline_pending p @ chunk\<rparr>) empty_text_chunk"

definition inline_finish ::
  "'t inline_hidden_tag_parser \<Rightarrow>
   't inline_hidden_tag_parser \<times> 't extracted_inline_tag stream_text_chunk" where
  "inline_finish p =
     (case inline_active p of
        Some active \<Rightarrow>
          (p\<lparr>inline_active := None, inline_pending := []\<rparr>,
           empty_text_chunk\<lparr>extracted := [\<lparr>extracted_tag = active_tag_tag active,
             extracted_content = active_content active @ inline_pending p\<rparr>]\<rparr>)
      | None \<Rightarrow>
          (if inline_pending p = [] then (p, empty_text_chunk)
           else (p\<lparr>inline_pending := []\<rparr>, empty_text_chunk\<lparr>visible_text := inline_pending p\<rparr>)))"

section \<open>Choosing the next opening\<close>

lemma foldl_min_mem:
  "foldl (\<lambda>m z. if before z m then z else m) y ys \<in> set (y # ys)"
  by (induction ys arbitrary: y) force+

lemma open_before_total: "open_before a b \<or> open_before b a \<or> a = b"
  by (cases a; cases b) (auto simp: open_before_def)

lemma open_before_trans: "open_before a b \<Longrightarrow> open_before b c \<Longrightarrow> open_before a c"
  by (cases a; cases b; cases c) (auto simp: open_before_def)

lemma open_before_irrefl: "\<not> open_before a a"
  by (cases a) (simp add: open_before_def)

lemma foldl_open_before_least:
  "z \<in> set (y # ys) \<Longrightarrow> \<not> open_before z (foldl (\<lambda>m z. if open_before z m then z else m) y ys)"
proof (induction ys arbitrary: y z)
  case (Cons v ys)
  define w where "w = (if open_before v y then v else y)"
  define f where "f = foldl (\<lambda>m z. if open_before z m then z else m) w ys"
  have least: "\<not> open_before w f" "z \<in> set ys \<Longrightarrow> \<not> open_before z f"
    using Cons.IH[of w w] Cons.IH[of z w] by (auto simp: f_def)
  have "z = w \<or> open_before w z \<or> z \<in> set ys"
    using Cons.prems open_before_total[of v y] by (auto simp: w_def)
  then have "\<not> open_before z f" using least open_before_trans[of w z f] by blast
  then show ?case by (simp add: f_def w_def)
qed (simp add: open_before_irrefl)

lemma min_by_open_before:
  "min_by open_before xs = Some m \<longleftrightarrow> m \<in> set xs \<and> (\<forall>z\<in>set xs. z = m \<or> open_before m z)"
proof (cases xs)
  case (Cons y ys)
  define f where "f = foldl (\<lambda>m z. if open_before z m then z else m) y ys"
  have f: "f \<in> set xs" "\<forall>z\<in>set xs. \<not> open_before z f"
    using foldl_min_mem[of open_before y ys] foldl_open_before_least[of _ y ys] Cons by (auto simp: f_def)
  have "min_by open_before xs = Some f" by (simp add: min_by_def Cons f_def)
  then show ?thesis
    using f open_before_total open_before_irrefl open_before_trans by (metis option.inject)
qed (simp add: min_by_def)

definition open_rank :: "'t inline_tag_spec list \<Rightarrow> nat \<Rightarrow> nat \<Rightarrow> nat \<times> nat \<times> nat" where
  "open_rank specs pos idx = (pos, str_len (open_delimiter (specs ! idx)), idx)"

lemma open_candidates_iff:
  "z \<in> set (open_candidates specs s) \<longleftrightarrow>
   (\<exists>idx pos. idx < length specs \<and> find_str (open_delimiter (specs ! idx)) s = Some pos \<and>
      z = open_rank specs pos idx)"
proof -
  have "z \<in> set (open_candidates specs s) \<longleftrightarrow> (\<exists>idx spec. (idx, spec) \<in> set (enumerate 0 specs) \<and>
      (\<exists>pos. find_str (open_delimiter spec) s = Some pos \<and> z = (pos, str_len (open_delimiter spec), idx)))"
    by (force simp: open_candidates_def split: option.splits)
  then show ?thesis by (auto simp: in_set_enumerate_eq open_rank_def)
qed

lemma open_candidates_ball:
  "(\<forall>z\<in>set (open_candidates specs s). P z) \<longleftrightarrow>
   (\<forall>idx<length specs. \<forall>pos. find_str (open_delimiter (specs ! idx)) s = Some pos \<longrightarrow>
      P (open_rank specs pos idx))"
  unfolding Ball_def open_candidates_iff by blast

lemma open_rank_inject [simp]: "open_rank specs p i = open_rank specs q j \<longleftrightarrow> p = q \<and> i = j"
  by (auto simp: open_rank_def)

lemma find_next_open_Some:
  "find_next_open specs s = Some (pos, idx) \<longleftrightarrow>
   idx < length specs \<and> find_str (open_delimiter (specs ! idx)) s = Some pos \<and>
   (\<forall>j<length specs. \<forall>q. find_str (open_delimiter (specs ! j)) s = Some q \<longrightarrow>
      j = idx \<or> open_before (open_rank specs pos idx) (open_rank specs q j))"
  (is "_ \<longleftrightarrow> ?best")
proof -
  have "find_next_open specs s = Some (pos, idx) \<longleftrightarrow>
      (\<exists>len. min_by open_before (open_candidates specs s) = Some (pos, len, idx))"
    by (auto simp: find_next_open_def)
  also have "\<dots> \<longleftrightarrow> min_by open_before (open_candidates specs s) = Some (open_rank specs pos idx)"
  proof
    assume "\<exists>len. min_by open_before (open_candidates specs s) = Some (pos, len, idx)"
    then obtain len where len: "min_by open_before (open_candidates specs s) = Some (pos, len, idx)" by blast
    then have "(pos, len, idx) \<in> set (open_candidates specs s)" unfolding min_by_open_before by blast
    then have "(pos, len, idx) = open_rank specs pos idx"
      unfolding open_candidates_iff by (auto simp: open_rank_def)
    then show "min_by open_before (open_candidates specs s) = Some (open_rank specs pos idx)" using len by simp
  qed (auto simp: open_rank_def)
  also have "\<dots> \<longleftrightarrow> (\<exists>i p. i < length specs \<and> find_str (open_delimiter (specs ! i)) s = Some p \<and>
        pos = p \<and> idx = i) \<and>
      (\<forall>j<length specs. \<forall>q. find_str (open_delimiter (specs ! j)) s = Some q \<longrightarrow>
        q = pos \<and> j = idx \<or> open_before (open_rank specs pos idx) (open_rank specs q j))"
    by (simp only: min_by_open_before open_candidates_ball open_candidates_iff open_rank_inject)
  also have "\<dots> \<longleftrightarrow> ?best" by auto
  finally show ?thesis .
qed

lemma find_next_open_None:
  "find_next_open specs s = None \<longleftrightarrow> (\<forall>spec\<in>set specs. find_str (open_delimiter spec) s = None)"
proof -
  have "find_next_open specs s = None \<longleftrightarrow> open_candidates specs s = []"
    by (auto simp: find_next_open_def min_by_def split: list.splits)
  also have "\<dots> \<longleftrightarrow> (\<forall>z\<in>set (open_candidates specs s). False)" by (cases "open_candidates specs s") auto
  also have "\<dots> \<longleftrightarrow> (\<forall>idx<length specs. find_str (open_delimiter (specs ! idx)) s = None)"
    unfolding open_candidates_ball by auto
  finally show ?thesis by (simp add: all_set_conv_all_nth)
qed

lemma max_open_prefix_suffix_le:
  "spec \<in> set specs \<Longrightarrow>
   longest_suffix_prefix_len s (open_delimiter spec) \<le> max_open_prefix_suffix_len specs s"
  by (induction specs) (auto simp: max_open_prefix_suffix_len_def)

lemma max_open_prefix_suffix_bound: "max_open_prefix_suffix_len specs s \<le> length s"
  by (induction specs) (auto simp: max_open_prefix_suffix_len_def longest_suffix_prefix_props)

section \<open>Cutting the stream elsewhere\<close>

lemma contains_str_find: "contains_str p s \<longleftrightarrow> find_str p s \<noteq> None"
  by (induction s) auto

text \<open>No opening delimiter occurs inside a different one.\<close>

definition opens_separate :: "'t inline_tag_spec list \<Rightarrow> bool" where
  "opens_separate specs \<longleftrightarrow>
     list_all (\<lambda>a. list_all (\<lambda>b. contains_str (open_delimiter a) (open_delimiter b) \<longrightarrow>
       open_delimiter a = open_delimiter b) specs) specs"

lemma opens_separateD:
  "opens_separate specs \<Longrightarrow> i < length specs \<Longrightarrow> j < length specs \<Longrightarrow>
   starts_with (open_delimiter (specs ! i)) (drop k (open_delimiter (specs ! j))) \<Longrightarrow>
   k \<le> length (open_delimiter (specs ! j)) \<Longrightarrow>
   open_delimiter (specs ! i) = open_delimiter (specs ! j)"
  unfolding opens_separate_def list_all_iff contains_str_find
  by (metis find_str_None_iff nth_mem)

lemma overlap_inside:
  assumes "starts_with o1 (drop p s)" "starts_with o2 (drop q (s @ b))"
    and "q \<le> p" "p + length o1 \<le> length s" "length s < q + length o2"
  shows "starts_with o1 (drop (p - q) o2)"
proof -
  obtain r where r: "drop q (s @ b) = o2 @ r" using assms(2) by (auto simp: starts_with_iff)
  have "drop p (s @ b) = drop (p - q) (drop q (s @ b))" using assms(3) by (simp only: drop_drop) simp
  moreover have "drop p (s @ b) = drop p s @ b" "drop (p - q) (o2 @ r) = drop (p - q) o2 @ r"
    using assms(3-5) by simp_all
  ultimately have "drop p s @ b = drop (p - q) o2 @ r" by (simp only: r)
  then have "starts_with o1 (drop (p - q) o2 @ r)" using starts_with_append_mono[OF assms(1), of b] assms(4) by simp
  then show ?thesis using assms by (subst (asm) starts_with_append_short) auto
qed

lemma find_next_open_append_Some:
  assumes sep: "opens_separate specs" and found: "find_next_open specs s = Some (pos, idx)"
  shows "find_next_open specs (s @ b) = Some (pos, idx)"
  unfolding find_next_open_Some
proof (intro conjI allI impI)
  let ?o = "\<lambda>i. open_delimiter (specs ! i)"
  have idx: "idx < length specs" and at: "find_str (?o idx) s = Some pos"
    and best: "\<And>j q. j < length specs \<Longrightarrow> find_str (?o j) s = Some q \<Longrightarrow>
      j = idx \<or> open_before (open_rank specs pos idx) (open_rank specs q j)"
    using found by (auto simp: find_next_open_Some)
  show "idx < length specs" "find_str (?o idx) (s @ b) = Some pos"
    using idx at find_str_append_Some by auto
  fix j q assume j: "j < length specs" and q: "find_str (?o j) (s @ b) = Some q"
  show "j = idx \<or> open_before (open_rank specs pos idx) (open_rank specs q j)"
  proof (cases "find_str (?o j) s")
    case (Some q')
    then show ?thesis using best[OF j Some] q find_str_append_Some[OF Some, of b] by auto
  next
    case None
    have start: "starts_with (?o j) (drop q (s @ b))" using q by (simp add: find_str_Some_iff)
    have late: "length s < q + length (?o j)"
    proof (rule ccontr)
      assume "\<not> length s < q + length (?o j)"
      then have "starts_with (?o j) (drop q s)" using start by (simp add: starts_with_append_short)
      then show False using None \<open>\<not> length s < q + length (?o j)\<close> by (auto simp: find_str_None_iff)
    qed
    have "pos < q"
    proof (rule ccontr)
      assume "\<not> pos < q"
      then have "starts_with (?o idx) (drop (pos - q) (?o j))"
        using overlap_inside[of "?o idx" pos s "?o j" q b] start late at find_str_le[OF at]
        by (simp add: find_str_Some_iff)
      moreover have "pos - q \<le> length (?o j)" using late find_str_le[OF at] by simp
      ultimately have "?o idx = ?o j" using opens_separateD[OF sep idx j] by blast
      then show False using None at by simp
    qed
    then show ?thesis by (simp add: open_rank_def open_before_def)
  qed
qed

lemma open_rank_shift [simp]:
  "open_before (open_rank specs (d + p) i) (open_rank specs (d + q) j) \<longleftrightarrow>
   open_before (open_rank specs p i) (open_rank specs q j)"
  by (simp add: open_rank_def open_before_def)

lemma find_next_open_append_None:
  assumes none: "find_next_open specs s = None"
    and d: "d + max_open_prefix_suffix_len specs s \<le> length s"
  shows "find_next_open specs (s @ b) = map_option (\<lambda>(pos, idx). (d + pos, idx)) (find_next_open specs (drop d s @ b))"
    and "max_open_prefix_suffix_len specs (s @ b) = max_open_prefix_suffix_len specs (drop d s @ b)"
proof -
  let ?o = "\<lambda>i. open_delimiter (specs ! i)"
  have room: "d + longest_suffix_prefix_len s (open_delimiter spec) \<le> length s" if "spec \<in> set specs" for spec
    using max_open_prefix_suffix_le[OF that, of s] d by linarith
  have shift: "find_str (?o i) (s @ b) = map_option ((+) d) (find_str (?o i) (drop d s @ b))" if "i < length specs" for i
    using that none room find_str_append_None[of "?o i" s d b] by (simp add: find_next_open_None)
  show "find_next_open specs (s @ b) = map_option (\<lambda>(pos, idx). (d + pos, idx)) (find_next_open specs (drop d s @ b))"
  proof (cases "find_next_open specs (drop d s @ b)")
    case None
    then have "find_next_open specs (s @ b) = None"
      using shift by (auto simp: find_next_open_None all_set_conv_all_nth)
    then show ?thesis using None by simp
  next
    case (Some r)
    obtain pos idx where r: "r = (pos, idx)" by fastforce
    have best: "idx < length specs" "find_str (?o idx) (drop d s @ b) = Some pos"
      "\<And>j q. j < length specs \<Longrightarrow> find_str (?o j) (drop d s @ b) = Some q \<Longrightarrow>
        j = idx \<or> open_before (open_rank specs pos idx) (open_rank specs q j)"
      using Some r by (auto simp: find_next_open_Some)
    have "find_next_open specs (s @ b) = Some (d + pos, idx)"
      unfolding find_next_open_Some
    proof (intro conjI allI impI)
      fix j q assume j: "j < length specs" and "find_str (?o j) (s @ b) = Some q"
      then obtain q' where "q = d + q'" "find_str (?o j) (drop d s @ b) = Some q'" using shift[OF j] by auto
      then show "j = idx \<or> open_before (open_rank specs (d + pos) idx) (open_rank specs q j)"
        using best(3)[OF j] by simp
    qed (use best shift in auto)
    then show ?thesis using Some r by simp
  qed
  show "max_open_prefix_suffix_len specs (s @ b) = max_open_prefix_suffix_len specs (drop d s @ b)"
    unfolding max_open_prefix_suffix_len_def
    by (rule arg_cong[where f = "\<lambda>xs. foldr max xs 0"], rule map_cong)
      (auto intro: longest_suffix_prefix_append room)
qed

text \<open>One round of the loop: whether it continues, the parser after it and what it adds to the result.\<close>

definition inline_round ::
  "'t inline_hidden_tag_parser \<Rightarrow>
   bool \<times> 't inline_hidden_tag_parser \<times> 't extracted_inline_tag stream_text_chunk" where
  "inline_round p =
     (case inline_active p of
        Some active \<Rightarrow>
          (case find_str (active_close active) (inline_pending p) of
             Some i \<Rightarrow>
               (True, p\<lparr>inline_active := None,
                  inline_pending := drop (i + length (active_close active)) (inline_pending p)\<rparr>,
                empty_text_chunk\<lparr>extracted := [\<lparr>extracted_tag = active_tag_tag active,
                  extracted_content = active_content active @ take i (inline_pending p)\<rparr>]\<rparr>)
           | None \<Rightarrow>
               (let n = length (inline_pending p) -
                      longest_suffix_prefix_len (inline_pending p) (active_close active)
                in (False, p\<lparr>inline_active := Some (active\<lparr>active_content :=
                       active_content active @ take n (inline_pending p)\<rparr>),
                     inline_pending := drop n (inline_pending p)\<rparr>, empty_text_chunk)))
      | None \<Rightarrow>
          (case find_next_open (inline_specs p) (inline_pending p) of
             Some (i, k) \<Rightarrow>
               (True, p\<lparr>inline_active := Some \<lparr>active_tag_tag = inline_tag (inline_specs p ! k),
                    active_close = close_delimiter (inline_specs p ! k), active_content = []\<rparr>,
                  inline_pending :=
                    drop (i + length (open_delimiter (inline_specs p ! k))) (inline_pending p)\<rparr>,
                empty_text_chunk\<lparr>visible_text := take i (inline_pending p)\<rparr>)
           | None \<Rightarrow>
               (let n = length (inline_pending p) -
                      max_open_prefix_suffix_len (inline_specs p) (inline_pending p)
                in (False, p\<lparr>inline_pending := drop n (inline_pending p)\<rparr>,
                    empty_text_chunk\<lparr>visible_text := take n (inline_pending p)\<rparr>))))"

lemma inline_push_loop_round:
  "inline_push_loop p out =
     (case inline_round p of
        (True, q, d) \<Rightarrow> inline_push_loop q (chunk_append out d)
      | (False, q, d) \<Rightarrow> Some (q, chunk_append out d))"
proof -
  have keep: "p\<lparr>inline_active := Some a, inline_pending := inline_pending p\<rparr> = p" if "inline_active p = Some a" for a
    using that by (cases p) simp
  show ?thesis
    by (subst inline_push_loop.simps)
      (auto simp: inline_round_def chunk_append_def empty_text_chunk_def push_visible_prefix_def
        drain_visible_to_suffix_match_def Let_def keep
        intro!: arg_cong2[where f = inline_push_loop] split: option.splits prod.splits)
qed

lemma inline_push_loop_continue:
  "inline_round p = (True, q, d) \<Longrightarrow> inline_push_loop p out = inline_push_loop q (chunk_append out d)"
  and inline_push_loop_stop:
  "inline_round p = (False, q, d) \<Longrightarrow> inline_push_loop p out = Some (q, chunk_append out d)"
  by (subst inline_push_loop_round, simp)+

definition inline_extend :: "'t inline_hidden_tag_parser \<Rightarrow> str \<Rightarrow> 't inline_hidden_tag_parser" where
  "inline_extend p b = p\<lparr>inline_pending := inline_pending p @ b\<rparr>"

text \<open>What \<open>new\<close> asserts and every push keeps.\<close>

definition delimiters_ok :: "'t inline_hidden_tag_parser \<Rightarrow> bool" where
  "delimiters_ok p \<longleftrightarrow>
     list_all (\<lambda>spec. open_delimiter spec \<noteq> [] \<and> close_delimiter spec \<noteq> []) (inline_specs p) \<and>
     (case inline_active p of None \<Rightarrow> True | Some active \<Rightarrow> active_close active \<noteq> [])"

lemma delimiters_ok_extend [simp]: "delimiters_ok (inline_extend p b) = delimiters_ok p"
  by (simp add: delimiters_ok_def inline_extend_def)

lemma inline_extend_fields [simp]:
  "inline_specs (inline_extend p b) = inline_specs p"
  "inline_active (inline_extend p b) = inline_active p"
  "inline_pending (inline_extend p b) = inline_pending p @ b"
  by (simp_all add: inline_extend_def)

lemma inline_round_keeps:
  assumes "inline_round p = (go, q, d)" "delimiters_ok p"
  shows "delimiters_ok q" "inline_specs q = inline_specs p" "go \<Longrightarrow> length (inline_pending q) < length (inline_pending p)"
proof -
  have opens: "k < length (inline_specs p) \<Longrightarrow> open_delimiter (inline_specs p ! k) \<noteq> [] \<and>
      close_delimiter (inline_specs p ! k) \<noteq> []" for k
    using assms(2) by (auto simp: delimiters_ok_def list_all_length)
  show "delimiters_ok q" "inline_specs q = inline_specs p"
    using assms opens by (auto simp: inline_round_def delimiters_ok_def Let_def find_next_open_Some split: option.splits)
  show "length (inline_pending q) < length (inline_pending p)" if go
  proof (cases "inline_active p")
    case None
    then obtain i k where k: "find_next_open (inline_specs p) (inline_pending p) = Some (i, k)"
      using assms(1) \<open>go\<close> by (auto simp: inline_round_def Let_def split: option.splits)
    then have "0 < length (open_delimiter (inline_specs p ! k))"
      "i + length (open_delimiter (inline_specs p ! k)) \<le> length (inline_pending p)"
      using opens[of k] by (auto simp: find_next_open_Some dest: find_str_le)
    then have "length (inline_pending p) - (i + length (open_delimiter (inline_specs p ! k))) < length (inline_pending p)"
      by linarith
    then show ?thesis using None k assms(1) by (auto simp: inline_round_def)
  next
    case (Some a)
    then obtain i where i: "find_str (active_close a) (inline_pending p) = Some i"
      using assms(1) \<open>go\<close> by (auto simp: inline_round_def Let_def split: option.splits)
    have "0 < length (active_close a)" using Some assms(2) by (simp add: delimiters_ok_def)
    then have "length (inline_pending p) - (i + length (active_close a)) < length (inline_pending p)"
      using find_str_le[OF i] by linarith
    then show ?thesis using Some i assms(1) by (auto simp: inline_round_def)
  qed
qed

lemma take_drop_shift:
  assumes "n \<le> length s"
  shows "take (n + k) (s @ b) = take n s @ take k (drop n s @ b)"
    "drop (n + k) (s @ b) = drop k (drop n s @ b)"
proof -
  have "drop n (s @ b) = drop n s @ b" "take n (s @ b) = take n s" using assms by simp_all
  then show "take (n + k) (s @ b) = take n s @ take k (drop n s @ b)"
    "drop (n + k) (s @ b) = drop k (drop n s @ b)"
    by (metis take_add, metis add.commute drop_drop)
qed

lemma inline_round_extend_continue:
  assumes "opens_separate (inline_specs p)" "inline_round p = (True, q, d)"
  shows "inline_round (inline_extend p b) = (True, inline_extend q b, d)"
proof (cases "inline_active p")
  case None
  then obtain i k where k: "find_next_open (inline_specs p) (inline_pending p) = Some (i, k)"
    using assms(2) by (auto simp: inline_round_def Let_def split: option.splits)
  then have "i + length (open_delimiter (inline_specs p ! k)) \<le> length (inline_pending p)"
    by (auto simp: find_next_open_Some dest: find_str_le)
  then show ?thesis
    using None k assms(2) find_next_open_append_Some[OF assms(1) k, of b]
    by (auto simp: inline_round_def inline_extend_def)
next
  case (Some a)
  then obtain i where i: "find_str (active_close a) (inline_pending p) = Some i"
    using assms(2) by (auto simp: inline_round_def Let_def split: option.splits)
  then show ?thesis
    using Some assms(2) find_str_append_Some[OF i, of b] find_str_le[OF i]
    by (auto simp: inline_round_def inline_extend_def)
qed

text \<open>A round that stops keeps what may still matter: a longer text goes on from there.\<close>

lemma inline_round_extend_stop_open:
  assumes "inline_round p = (False, q, d)" and None: "inline_active p = None"
  shows "\<exists>go r e f. inline_round (inline_extend p b) = (go, r, e) \<and>
    inline_round (inline_extend q b) = (go, r, f) \<and> e = chunk_append d f"
proof -
  let ?s = "inline_pending p" and ?specs = "inline_specs p"
  define n where "n = length ?s - max_open_prefix_suffix_len ?specs ?s"
  have none: "find_next_open ?specs ?s = None"
    using None assms by (auto simp: inline_round_def split: option.splits)
  have n: "n + max_open_prefix_suffix_len ?specs ?s \<le> length ?s"
    using max_open_prefix_suffix_bound[of ?specs ?s] by (simp add: n_def)
  have q: "q = p\<lparr>inline_pending := drop n ?s\<rparr>" "d = empty_text_chunk\<lparr>visible_text := take n ?s\<rparr>"
    using None none assms by (auto simp: inline_round_def n_def Let_def)
  define S t where "S = ?s @ b" and "t = drop n ?s @ b"
  have S: "length S = n + length t" "take (n + k) S = take n ?s @ take k t" "drop (n + k) S = drop k t" for k
    using n take_drop_shift[of n ?s k b] by (simp_all add: S_def t_def)
  have ext: "inline_extend p b = p\<lparr>inline_pending := S\<rparr>" "inline_extend q b = p\<lparr>inline_pending := t\<rparr>"
    by (simp_all add: inline_extend_def q S_def t_def)
  have len: "n + length t - max_open_prefix_suffix_len ?specs t = n + (length t - max_open_prefix_suffix_len ?specs t)"
    using max_open_prefix_suffix_bound[of ?specs t] by simp
  show ?thesis
    using None find_next_open_append_None[OF none n, of b, folded S_def t_def]
    by (cases "find_next_open ?specs t")
      (auto simp: inline_round_def ext q(2) Let_def S len chunk_append_def empty_text_chunk_def add.assoc)
qed

lemma inline_round_extend_stop_close:
  assumes "inline_round p = (False, q, d)" and Some: "inline_active p = Some a"
  shows "\<exists>go r e f. inline_round (inline_extend p b) = (go, r, e) \<and>
    inline_round (inline_extend q b) = (go, r, f) \<and> e = chunk_append d f"
proof -
  let ?s = "inline_pending p" and ?c = "active_close a"
  define n where "n = length ?s - longest_suffix_prefix_len ?s ?c"
  have none: "find_str ?c ?s = None"
    using Some assms by (auto simp: inline_round_def split: option.splits)
  have n: "n + longest_suffix_prefix_len ?s ?c \<le> length ?s"
    using longest_suffix_prefix_props(1)[of ?s ?c] by (simp add: n_def)
  have q: "q = p\<lparr>inline_active := Some (a\<lparr>active_content := active_content a @ take n ?s\<rparr>),
      inline_pending := drop n ?s\<rparr>" "d = empty_text_chunk"
    using Some none assms by (auto simp: inline_round_def n_def Let_def)
  define S t where "S = ?s @ b" and "t = drop n ?s @ b"
  have S: "length S = n + length t" "take (n + k) S = take n ?s @ take k t" "drop (n + k) S = drop k t" for k
    using n take_drop_shift[of n ?s k b] by (simp_all add: S_def t_def)
  have ext: "inline_extend p b = p\<lparr>inline_pending := S\<rparr>"
    "inline_extend q b = p\<lparr>inline_active := Some (a\<lparr>active_content := active_content a @ take n ?s\<rparr>),
      inline_pending := t\<rparr>"
    by (simp_all add: inline_extend_def q S_def t_def)
  define m where "m = length t - longest_suffix_prefix_len t ?c"
  have m: "length t - longest_suffix_prefix_len t ?c = m" "length S - longest_suffix_prefix_len S ?c = n + m"
    using longest_suffix_prefix_props(1)[of t ?c] longest_suffix_prefix_append[OF n, of b]
    by (simp_all add: m_def S(1) flip: S_def t_def)
  have found: "find_str ?c S = map_option ((+) n) (find_str ?c t)"
    using find_str_append_None[OF none n, of b] by (simp only: S_def t_def)
  show ?thesis
  proof (cases "find_str ?c t")
    case None
    then show ?thesis using Some found by (auto simp: inline_round_def ext q(2) m S(2,3))
  next
    case (Some j)
    then show ?thesis using \<open>inline_active p = Some a\<close> found
      by (auto simp: inline_round_def ext q(2) S(2,3) add.assoc)
  qed
qed

lemma inline_round_extend_stop:
  assumes "inline_round p = (False, q, d)"
  shows "\<exists>go r e f. inline_round (inline_extend p b) = (go, r, e) \<and>
    inline_round (inline_extend q b) = (go, r, f) \<and> e = chunk_append d f"
  using inline_round_extend_stop_open[OF assms] inline_round_extend_stop_close[OF assms]
  by (cases "inline_active p") blast+

text \<open>Induction along the rounds of the loop.\<close>

lemma inline_rounds_induct [consumes 1, case_names continue stop]:
  assumes ok: "delimiters_ok p"
    and continue: "\<And>p q d. delimiters_ok p \<Longrightarrow> inline_round p = (True, q, d) \<Longrightarrow> delimiters_ok q \<Longrightarrow>
      inline_specs q = inline_specs p \<Longrightarrow> P q \<Longrightarrow> P p"
    and stop: "\<And>p q d. delimiters_ok p \<Longrightarrow> inline_round p = (False, q, d) \<Longrightarrow> delimiters_ok q \<Longrightarrow>
      inline_specs q = inline_specs p \<Longrightarrow> P p"
  shows "P p"
  using ok
proof (induction "length (inline_pending p)" arbitrary: p rule: less_induct)
  case less
  obtain go q d where r: "inline_round p = (go, q, d)" by (cases "inline_round p")
  note k = inline_round_keeps[OF r less.prems]
  show ?case
  proof (cases go)
    case True
    then show ?thesis using continue[OF less.prems _ k(1,2) less.hyps[OF k(3) k(1)]] r by simp
  next
    case False
    then show ?thesis using stop[OF less.prems _ k(1,2)] r by simp
  qed
qed

lemma inline_push_loop_returns:
  assumes "delimiters_ok p"
  shows "\<exists>q o'. inline_push_loop p out = Some (q, o') \<and> delimiters_ok q \<and> inline_specs q = inline_specs p"
  using assms
proof (induction p arbitrary: out rule: inline_rounds_induct)
  case (continue p q d)
  then show ?case using inline_push_loop_continue[of p q d out] by metis
next
  case (stop p q d)
  then show ?case using inline_push_loop_stop[of p q d out] by simp
qed

lemma inline_push_loop_out:
  assumes "delimiters_ok p"
  shows "inline_push_loop p out = map_option (\<lambda>(q, d). (q, chunk_append out d)) (inline_push_loop p empty_text_chunk)"
  using assms
proof (induction p arbitrary: out rule: inline_rounds_induct)
  case (continue p q d)
  have "inline_push_loop p out = inline_push_loop q (chunk_append out d)"
    "inline_push_loop p empty_text_chunk = inline_push_loop q d"
    using inline_push_loop_continue[OF continue.hyps(2)] by simp_all
  then show ?case
    using continue.IH[of "chunk_append out d"] continue.IH[of d]
    by (simp add: option.map_comp comp_def case_prod_unfold chunk_append_assoc)
next
  case (stop p q d)
  then show ?case by (simp add: inline_push_loop_stop)
qed

lemma inline_push_loop_extend:
  assumes "delimiters_ok p" "opens_separate (inline_specs p)" "inline_push_loop p out = Some (q, o1)"
  shows "inline_push_loop (inline_extend p b) out = inline_push_loop (inline_extend q b) o1"
  using assms
proof (induction p arbitrary: out rule: inline_rounds_induct)
  case (continue p p' d)
  have "inline_push_loop p' (chunk_append out d) = Some (q, o1)"
    using continue.prems(2) inline_push_loop_continue[OF continue.hyps(2)] by simp
  then show ?case
    using continue.IH continue.hyps(4) continue.prems(1)
      inline_push_loop_continue[OF inline_round_extend_continue[OF continue.prems(1) continue.hyps(2)]] by simp
next
  case (stop p p' d)
  have q: "q = p'" "o1 = chunk_append out d"
    using stop.prems(2) inline_push_loop_stop[OF stop.hyps(2)] by simp_all
  obtain g v e f where "inline_round (inline_extend p b) = (g, v, e)"
    "inline_round (inline_extend q b) = (g, v, f)" "e = chunk_append d f"
    using inline_round_extend_stop[OF stop.hyps(2), of b] q by blast
  then show ?case
    using q by (cases g) (simp_all add: inline_push_loop_continue inline_push_loop_stop chunk_append_assoc)
qed

text \<open>A parser between two pushes: pushing nothing would change nothing.\<close>

definition inline_ready :: "'t inline_hidden_tag_parser \<Rightarrow> bool" where
  "inline_ready p \<longleftrightarrow> delimiters_ok p \<and> opens_separate (inline_specs p) \<and>
     inline_push_loop p empty_text_chunk = Some (p, empty_text_chunk)"

lemma inline_extend_simps [simp]:
  "inline_extend p [] = p" "inline_extend (inline_extend p a) b = inline_extend p (a @ b)"
  by (simp_all add: inline_extend_def)

lemma inline_push_str_extend: "inline_push_str p s = inline_push_loop (inline_extend p s) empty_text_chunk"
  by (simp add: inline_push_str_def inline_extend_def)

lemma chunk_append_eq_self: "chunk_append a b = a \<longleftrightarrow> b = empty_text_chunk"
  by (cases a; cases b) (auto simp: chunk_append_def empty_text_chunk_def)

lemma inline_push_ready:
  assumes "inline_ready p" "inline_push_str p s = Some (q, out)"
  shows "inline_ready q"
proof -
  let ?p = "inline_extend p s"
  have p: "delimiters_ok ?p" "opens_separate (inline_specs ?p)" "inline_push_loop ?p empty_text_chunk = Some (q, out)"
    using assms by (simp_all add: inline_ready_def inline_push_str_extend)
  have q: "delimiters_ok q" "inline_specs q = inline_specs p"
    using inline_push_loop_returns[OF p(1), of empty_text_chunk] p(3) by auto
  have "inline_push_loop q out = Some (q, out)"
    using inline_push_loop_extend[OF p, of "[]"] p(3) by simp
  then have "inline_push_loop q empty_text_chunk = Some (q, empty_text_chunk)"
    using inline_push_loop_out[OF q(1), of out] by (auto simp: chunk_append_eq_self)
  then show ?thesis using q p(2) by (simp add: inline_ready_def)
qed

interpretation inline: stream_text_parser inline_push_str inline_finish inline_ready "\<lambda>x. [x]"
proof unfold_locales
  fix p :: "'t inline_hidden_tag_parser" and s
  assume "inline_ready p"
  then show "inline_push_str p s \<noteq> None" "inline_push_str p [] = Some (p, empty_text_chunk)"
    using inline_push_loop_returns[of "inline_extend p s" empty_text_chunk]
    by (auto simp: inline_ready_def inline_push_str_extend)
next
  fix p q :: "'t inline_hidden_tag_parser" and s out
  assume "inline_ready p" "inline_push_str p s = Some (q, out)"
  then show "inline_ready q" by (rule inline_push_ready)
next
  fix p q r :: "'t inline_hidden_tag_parser" and a b o1 o2
  assume p: "inline_ready p" "inline_push_str p a = Some (q, o1)" "inline_push_str q b = Some (r, o2)"
  have "delimiters_ok q" using inline_push_ready[OF p(1,2)] by (simp add: inline_ready_def)
  then have "inline_push_loop (inline_extend q b) o1 = Some (r, chunk_append o1 o2)"
    using inline_push_loop_out[of "inline_extend q b" o1] p(3) by (simp add: inline_push_str_extend)
  then have "inline_push_str p (a @ b) = Some (r, chunk_append o1 o2)"
    using inline_push_loop_extend[of "inline_extend p a" empty_text_chunk q o1 b] p
    by (simp add: inline_ready_def inline_push_str_extend)
  then show "\<exists>out. inline_push_str p (a @ b) = Some (r, out) \<and>
      observed (\<lambda>x. [x]) out = observed (\<lambda>x. [x]) (chunk_append o1 o2)" by blast
qed

lemma inline_new_ready:
  "inline_new specs = Some p \<Longrightarrow> opens_separate specs \<Longrightarrow> inline_ready p"
proof -
  assume new: "inline_new specs = Some p" and sep: "opens_separate specs"
  then have p: "p = \<lparr>inline_specs = specs, inline_pending = [], inline_active = None\<rparr>"
    and ok: "list_all (\<lambda>spec. open_delimiter spec \<noteq> [] \<and> close_delimiter spec \<noteq> []) specs"
    by (auto simp: inline_new_def split: if_splits)
  then have "find_next_open specs [] = None" by (auto simp: find_next_open_None list_all_iff)
  then have "inline_round p = (False, p, empty_text_chunk)"
    by (simp add: p inline_round_def empty_text_chunk_def)
  then show ?thesis
    using ok sep by (simp add: inline_ready_def delimiters_ok_def p inline_push_loop_stop)
qed

lemma observed_singletons: "observed (\<lambda>x. [x]) c = (visible_text c, extracted c)"
  by (simp add: observed_def)

text \<open>
  C30: a parser made by \<open>new\<close> whose opening delimiters do not occur inside each other returns for
  every chunk, and the text it shows and the tags it extracts do not depend on how the stream is
  cut into chunks.
\<close>

theorem inline_tags_chunk_independent:
  assumes "inline_new specs = Some p" "opens_separate specs"
  shows "\<exists>out. run_chunks inline_push_str inline_finish p cs = Some out \<and>
    run_chunks inline_push_str inline_finish p [concat cs] = Some out"
proof -
  obtain out whole where "run_chunks inline_push_str inline_finish p cs = Some out"
    "run_chunks inline_push_str inline_finish p [concat cs] = Some whole"
    "observed (\<lambda>x. [x]) out = observed (\<lambda>x. [x]) whole"
    using inline.run_split[OF inline_new_ready[OF assms]] by blast
  then show ?thesis by (simp add: observed_singletons)
qed

definition two_tags :: "nat inline_tag_spec list" where
  "two_tags =
    [\<lparr>inline_tag = 0, open_delimiter = lit ''<a>'', close_delimiter = lit ''</a>''\<rparr>,
     \<lparr>inline_tag = 1, open_delimiter = lit ''<b>'', close_delimiter = lit ''</b>''\<rparr>]"

theorem inline_tags_chunk_independent_witness:
  "\<exists>out. run_chunks inline_push_str inline_finish
      \<lparr>inline_specs = two_tags, inline_pending = [], inline_active = None\<rparr>
      [lit ''1<a'', lit ''>x</'', lit ''a>2<b>y''] = Some out \<and>
    run_chunks inline_push_str inline_finish
      \<lparr>inline_specs = two_tags, inline_pending = [], inline_active = None\<rparr>
      [lit ''1<a>x</a>2<b>y''] = Some out"
  using inline_tags_chunk_independent[of two_tags
      "\<lparr>inline_specs = two_tags, inline_pending = [], inline_active = None\<rparr>"
      "[lit ''1<a'', lit ''>x</'', lit ''a>2<b>y'']"]
  by (simp add: inline_new_def opens_separate_def two_tags_def text_eval)

section \<open>Citations\<close>

datatype citation_tag = Citation

definition CITATION_OPEN :: str where
  "CITATION_OPEN = lit ''<oai-mem-citation>''"

definition CITATION_CLOSE :: str where
  "CITATION_CLOSE = lit ''</oai-mem-citation>''"

type_synonym citation_stream_parser = "citation_tag inline_hidden_tag_parser"

definition citation_spec :: "citation_tag inline_tag_spec" where
  "citation_spec = \<lparr>inline_tag = Citation, open_delimiter = CITATION_OPEN, close_delimiter = CITATION_CLOSE\<rparr>"

definition citation_new :: "citation_stream_parser option" where
  "citation_new = inline_new [citation_spec]"

definition citation_chunk :: "citation_tag extracted_inline_tag stream_text_chunk \<Rightarrow> str stream_text_chunk" where
  "citation_chunk inner =
     \<lparr>visible_text = visible_text inner, extracted = map extracted_content (extracted inner)\<rparr>"

definition citation_push_str ::
  "citation_stream_parser \<Rightarrow> str \<Rightarrow> (citation_stream_parser \<times> str stream_text_chunk) option" where
  "citation_push_str p chunk = map_option (\<lambda>(q, inner). (q, citation_chunk inner)) (inline_push_str p chunk)"

definition citation_finish ::
  "citation_stream_parser \<Rightarrow> citation_stream_parser \<times> str stream_text_chunk" where
  "citation_finish p = (case inline_finish p of (q, inner) \<Rightarrow> (q, citation_chunk inner))"

definition strip_citations :: "str \<Rightarrow> (str \<times> str list) option" where
  "strip_citations s =
     (case citation_new of
        None \<Rightarrow> None
      | Some parser \<Rightarrow>
          (case citation_push_str parser s of
             None \<Rightarrow> None
           | Some (parser', out) \<Rightarrow>
               (let tail = snd (citation_finish parser')
                in Some (visible_text out @ visible_text tail, extracted out @ extracted tail))))"

lemma citation_delimiters [simp]: "CITATION_OPEN \<noteq> []" "CITATION_CLOSE \<noteq> []"
  by (simp_all add: CITATION_OPEN_def CITATION_CLOSE_def)

lemma citation_chunk_append: "citation_chunk (chunk_append a b) = chunk_append (citation_chunk a) (citation_chunk b)"
  by (simp add: citation_chunk_def chunk_append_def)

definition citation_parser :: citation_stream_parser where
  "citation_parser = \<lparr>inline_specs = [citation_spec], inline_pending = [], inline_active = None\<rparr>"

lemma citation_new_eq: "citation_new = Some citation_parser"
  by (simp add: citation_new_def inline_new_def citation_spec_def citation_parser_def)

lemma citation_parser_ready: "inline_ready citation_parser"
  by (rule inline_new_ready[OF citation_new_eq[unfolded citation_new_def]]) (simp add: opens_separate_def)

interpretation citations: stream_text_parser citation_push_str citation_finish inline_ready "\<lambda>x. [x]"
proof unfold_locales
  fix p :: citation_stream_parser and s
  assume "inline_ready p"
  then show "citation_push_str p s \<noteq> None" "citation_push_str p [] = Some (p, empty_text_chunk)"
    using inline.push_returns[of p s] inline.push_nothing[of p]
    by (simp_all add: citation_push_str_def citation_chunk_def empty_text_chunk_def)
next
  fix p q :: citation_stream_parser and s out
  assume "inline_ready p" "citation_push_str p s = Some (q, out)"
  then show "inline_ready q" by (auto simp: citation_push_str_def intro: inline_push_ready)
next
  fix p q r :: citation_stream_parser and a b o1 o2
  assume "inline_ready p" "citation_push_str p a = Some (q, o1)" "citation_push_str q b = Some (r, o2)"
  then obtain i1 i2 where i: "inline_push_str p a = Some (q, i1)" "inline_push_str q b = Some (r, i2)"
    "o1 = citation_chunk i1" "o2 = citation_chunk i2"
    by (auto simp: citation_push_str_def)
  obtain out where out: "inline_push_str p (a @ b) = Some (r, out)"
    "observed (\<lambda>x. [x]) out = observed (\<lambda>x. [x]) (chunk_append i1 i2)"
    using inline.push_append[OF \<open>inline_ready p\<close> i(1,2)] by blast
  then have "out = chunk_append i1 i2" by (simp add: observed_singletons)
  then show "\<exists>out. citation_push_str p (a @ b) = Some (r, out) \<and>
      observed (\<lambda>x. [x]) out = observed (\<lambda>x. [x]) (chunk_append o1 o2)"
    using out(1) i(3,4) by (simp add: citation_push_str_def citation_chunk_append)
qed

lemma strip_citations_run:
  "strip_citations s =
     map_option (\<lambda>c. (visible_text c, extracted c)) (run_chunks citation_push_str citation_finish citation_parser [s])"
  by (auto simp: strip_citations_def citation_new_eq run_chunks_def Let_def split: option.splits)

subsection \<open>Recovering citations\<close>

text \<open>A text with citations: every pair is shown text and the citation after it; \<open>v\<close> ends the text.\<close>

fun with_citations :: "(str \<times> str) list \<Rightarrow> str \<Rightarrow> str" where
  "with_citations [] v = v"
| "with_citations ((u, c) # xs) v = u @ CITATION_OPEN @ c @ CITATION_CLOSE @ with_citations xs v"

lemma find_str_first:
  assumes "n \<noteq> []" "hd n \<notin> set (tl n)" "\<not> contains_str n v"
  shows "find_str n (v @ n @ r) = Some (length v)"
proof -
  obtain x n' where n: "n = x # n'" "x \<notin> set n'" using assms(1,2) by (cases n) auto
  have "\<not> starts_with n (drop j (v @ n @ r))" if j: "j < length v" for j
  proof
    assume s: "starts_with n (drop j (v @ n @ r))"
    then obtain t where t: "drop j v @ n @ r = n @ t" using j by (auto simp: starts_with_iff)
    have none: "\<not> starts_with n (drop j v)"
      using assms(3) j by (simp add: contains_str_find find_str_None_iff)
    have short: "length v - j < length n"
    proof (rule ccontr)
      assume "\<not> length v - j < length n"
      then show False using s none starts_with_append_short[of n "drop j v" "n @ r"] j by simp
    qed
    have "(drop j v @ n @ r) ! (length v - j) = x" by (simp add: n(1) nth_append)
    then have "n ! (length v - j) = x" using t short by (simp add: nth_append)
    then have "n' ! (length v - j - 1) = x" "length v - j - 1 < length n'"
      using j short by (auto simp: n(1) nth_Cons')
    then show False using n(2) by (metis nth_mem)
  qed
  then show ?thesis by (simp add: find_str_Some_iff)
qed

lemma find_citation_delimiter:
  "\<not> contains_str CITATION_OPEN v \<Longrightarrow> find_str CITATION_OPEN (v @ CITATION_OPEN @ r) = Some (length v)"
  "\<not> contains_str CITATION_CLOSE v \<Longrightarrow> find_str CITATION_CLOSE (v @ CITATION_CLOSE @ r) = Some (length v)"
  by (rule find_str_first; simp add: CITATION_OPEN_def CITATION_CLOSE_def lit_def)+

definition cite_outside :: "str \<Rightarrow> citation_stream_parser" where
  "cite_outside s = \<lparr>inline_specs = [citation_spec], inline_pending = s, inline_active = None\<rparr>"

definition cite_inside :: "str \<Rightarrow> citation_stream_parser" where
  "cite_inside s = \<lparr>inline_specs = [citation_spec], inline_pending = s,
     inline_active = Some \<lparr>active_tag_tag = Citation, active_close = CITATION_CLOSE, active_content = []\<rparr>\<rparr>"

lemma find_next_open_citation:
  "find_next_open [citation_spec] s = map_option (\<lambda>pos. (pos, 0)) (find_str CITATION_OPEN s)"
  by (cases "find_str CITATION_OPEN s")
    (auto simp: find_next_open_None find_next_open_Some citation_spec_def)

lemma citation_opens:
  assumes "\<not> contains_str CITATION_OPEN v"
  shows "inline_round (cite_outside (v @ CITATION_OPEN @ r)) =
    (True, cite_inside r, empty_text_chunk\<lparr>visible_text := v\<rparr>)"
  using find_citation_delimiter(1)[OF assms, of r]
  by (simp add: inline_round_def cite_outside_def cite_inside_def find_next_open_citation)
    (simp add: citation_spec_def)

lemma citation_closes:
  assumes "\<not> contains_str CITATION_CLOSE c"
  shows "inline_round (cite_inside (c @ CITATION_CLOSE @ r)) =
    (True, cite_outside r, empty_text_chunk\<lparr>extracted := [\<lparr>extracted_tag = Citation, extracted_content = c\<rparr>]\<rparr>)"
  using find_citation_delimiter(2)[OF assms, of r]
  by (simp add: inline_round_def cite_outside_def cite_inside_def)

text \<open>The result of a push followed by the final flush.\<close>

definition flushed :: "(citation_stream_parser \<times> citation_tag extracted_inline_tag stream_text_chunk) option \<Rightarrow>
    str stream_text_chunk option" where
  "flushed r = map_option (\<lambda>(q, out). citation_chunk (chunk_append out (snd (inline_finish q)))) r"

lemma flushed_visible:
  assumes "\<not> contains_str CITATION_OPEN v"
  shows "flushed (inline_push_loop (cite_outside v) out) =
    Some (chunk_append (citation_chunk out) \<lparr>visible_text = v, extracted = []\<rparr>)"
proof -
  define n where "n = length v - max_open_prefix_suffix_len [citation_spec] v"
  have "find_str CITATION_OPEN v = None" using assms by (simp add: contains_str_find)
  then have "inline_round (cite_outside v) = (False, cite_outside (drop n v), empty_text_chunk\<lparr>visible_text := take n v\<rparr>)"
    by (simp add: inline_round_def cite_outside_def find_next_open_citation n_def Let_def)
  then show ?thesis
    by (auto simp: inline_push_loop_stop flushed_def inline_finish_def cite_outside_def citation_chunk_def
        chunk_append_def empty_text_chunk_def)
qed

lemma flushed_unterminated:
  assumes "\<not> contains_str CITATION_CLOSE c"
  shows "flushed (inline_push_loop (cite_inside c) out) =
    Some (chunk_append (citation_chunk out) \<lparr>visible_text = [], extracted = [c]\<rparr>)"
proof -
  have "find_str CITATION_CLOSE c = None" using assms by (simp add: contains_str_find)
  then show ?thesis
    by (subst inline_push_loop_stop[where d = empty_text_chunk])
      (auto simp: inline_round_def cite_inside_def Let_def flushed_def inline_finish_def citation_chunk_def
        chunk_append_def empty_text_chunk_def)
qed

definition citations_apart :: "(str \<times> str) list \<Rightarrow> bool" where
  "citations_apart xs \<longleftrightarrow>
     list_all (\<lambda>(u, c). \<not> contains_str CITATION_OPEN u \<and> \<not> contains_str CITATION_CLOSE c) xs"

lemma flushed_citations:
  assumes "citations_apart xs" "\<And>out. flushed (inline_push_loop (cite_outside v) out) =
    Some (chunk_append (citation_chunk out) e)"
  shows "flushed (inline_push_loop (cite_outside (with_citations xs v)) out) =
    Some (chunk_append (citation_chunk out)
      (chunk_append \<lparr>visible_text = concat (map fst xs), extracted = map snd xs\<rparr> e))"
  using assms(1)
proof (induction xs arbitrary: out)
  case Nil
  then show ?case using assms(2) by (simp flip: empty_text_chunk_def)
next
  case (Cons x xs)
  obtain u c where x: "x = (u, c)" by fastforce
  have apart: "\<not> contains_str CITATION_OPEN u" "\<not> contains_str CITATION_CLOSE c" "citations_apart xs"
    using Cons.prems x by (auto simp: citations_apart_def)
  show ?case
    using Cons.IH[OF apart(3)] x inline_push_loop_continue[OF citation_opens[OF apart(1)]]
      inline_push_loop_continue[OF citation_closes[OF apart(2)]]
    by (simp add: chunk_append_def citation_chunk_def empty_text_chunk_def)
qed

lemma run_citations_flushed:
  "run_chunks citation_push_str citation_finish citation_parser [s] =
   flushed (inline_push_loop (cite_outside s) empty_text_chunk)"
  by (auto simp: run_chunks_def flushed_def citation_push_str_def citation_finish_def inline_push_str_def
      citation_parser_def cite_outside_def citation_chunk_append option.map_comp comp_def
      split: option.splits prod.splits)

lemma run_citations_split:
  "run_chunks citation_push_str citation_finish citation_parser cs =
   run_chunks citation_push_str citation_finish citation_parser [concat cs]"
  using citations.run_split[OF citation_parser_ready, of cs] by (auto simp: observed_singletons)

definition citation_tail :: "str \<Rightarrow> str option \<Rightarrow> str" where
  "citation_tail v unclosed = (case unclosed of None \<Rightarrow> v | Some c \<Rightarrow> v @ CITATION_OPEN @ c)"

lemma flushed_tail:
  assumes "\<not> contains_str CITATION_OPEN v" "case unclosed of None \<Rightarrow> True | Some c \<Rightarrow> \<not> contains_str CITATION_CLOSE c"
  shows "flushed (inline_push_loop (cite_outside (citation_tail v unclosed)) out) =
    Some (chunk_append (citation_chunk out) \<lparr>visible_text = v, extracted = case unclosed of None \<Rightarrow> [] | Some c \<Rightarrow> [c]\<rparr>)"
proof (cases unclosed)
  case None
  then show ?thesis using flushed_visible[OF assms(1)] by (simp add: citation_tail_def)
next
  case (Some c)
  then show ?thesis
    using assms(2) flushed_unterminated[of c] inline_push_loop_continue[OF citation_opens[OF assms(1)]]
    by (simp add: citation_tail_def chunk_append_def citation_chunk_def empty_text_chunk_def)
qed

text \<open>
  C13: cut a text with citations into chunks in any way: the parser shows the text without them and
  returns the citations in order, closing a last one that the text leaves open.
\<close>

theorem citations_recovered:
  assumes "citations_apart xs" "\<not> contains_str CITATION_OPEN v"
    and "case unclosed of None \<Rightarrow> True | Some c \<Rightarrow> \<not> contains_str CITATION_CLOSE c"
    and "concat cs = with_citations xs (citation_tail v unclosed)"
  shows "run_chunks citation_push_str citation_finish citation_parser cs =
    Some \<lparr>visible_text = concat (map fst xs) @ v,
          extracted = map snd xs @ (case unclosed of None \<Rightarrow> [] | Some c \<Rightarrow> [c])\<rparr>"
  unfolding run_citations_split[of cs] run_citations_flushed assms(4)
  using flushed_citations[OF assms(1) flushed_tail[OF assms(2,3)], of empty_text_chunk]
  by (simp add: chunk_append_def citation_chunk_def)

text \<open>One citation, cut inside both of its delimiters, and an unclosed one.\<close>

theorem citations_recovered_witness:
  "run_chunks citation_push_str citation_finish citation_parser
     [lit ''Hi <oai-mem-'', lit ''citation>A</oai-'', lit ''mem-citation> all<oai-mem-citation>B''] =
   Some \<lparr>visible_text = lit ''Hi  all'', extracted = [lit ''A'', lit ''B'']\<rparr>"
  using citations_recovered[of "[(lit ''Hi '', lit ''A'')]" "lit '' all'' " "Some (lit ''B'')"
      "[lit ''Hi <oai-mem-'', lit ''citation>A</oai-'', lit ''mem-citation> all<oai-mem-citation>B'']"]
  by (simp add: citations_apart_def citation_tail_def CITATION_OPEN_def CITATION_CLOSE_def text_eval)

text \<open>
  When one opening delimiter contains another, the cut decides which tag is opened: the whole text
  opens the longer one, the same text in two chunks the shorter one.
\<close>

definition nested_opens :: "nat inline_tag_spec list" where
  "nested_opens =
    [\<lparr>inline_tag = 0, open_delimiter = lit ''<a'', close_delimiter = lit ''</a>''\<rparr>,
     \<lparr>inline_tag = 1, open_delimiter = lit ''<ab>'', close_delimiter = lit ''</ab>''\<rparr>]"

lemma nested_opens_depend_on_cut:
  "run_chunks inline_push_str inline_finish (the (inline_new nested_opens)) [lit ''<ab>''] =
     Some \<lparr>visible_text = [], extracted = [\<lparr>extracted_tag = 1, extracted_content = []\<rparr>]\<rparr>"
  "run_chunks inline_push_str inline_finish (the (inline_new nested_opens)) [lit ''<a'', lit ''b>''] =
     Some \<lparr>visible_text = [], extracted = [\<lparr>extracted_tag = 0, extracted_content = lit ''b>''\<rparr>]\<rparr>"
  by code_simp+

end
