(* ===== verification/Tagged_Lines.thy ===== *)
theory Tagged_Lines
  imports Stream_Text
begin

text \<open>
  The parser for tag blocks whose tags stand alone on a line
  (\<open>utils/stream-parser/src/tagged_line_parser.rs\<close>) and the proposed-plan parser on top of it
  (\<open>proposed_plan.rs\<close>). A line is held back only while it can still become a tag. The lemmas
  compare this character machine with a reading line by line, \<open>tag_lines\<close>, and show that plan
  blocks are cut out of a text exactly.
\<close>

section \<open>The parser\<close>

record 't tag_spec =
  spec_open :: str
  spec_close :: str
  spec_tag :: 't

datatype 't tagged_line_segment =
    Normal str
  | TagStart 't
  | TagDelta 't str
  | TagEnd 't

record 't tagged_line_parser =
  line_specs :: "'t tag_spec list"
  active_line_tag :: "'t option"
  detect_tag :: bool
  line_buffer :: str

definition tagged_line_new :: "'t tag_spec list \<Rightarrow> 't tagged_line_parser" where
  "tagged_line_new specs =
     \<lparr>line_specs = specs, active_line_tag = None, detect_tag = True, line_buffer = []\<rparr>"

text \<open>\<open>push_segment\<close> joins a run of text to the last segment when that is of the same kind.\<close>

fun push_segment :: "'t tagged_line_segment list \<Rightarrow> 't tagged_line_segment \<Rightarrow> 't tagged_line_segment list" where
  "push_segment segments (Normal delta) =
     (if delta = [] then segments
      else case rev segments of
             Normal existing # before \<Rightarrow> rev (Normal (existing @ delta) # before)
           | _ \<Rightarrow> segments @ [Normal delta])"
| "push_segment segments (TagDelta tag delta) =
     (if delta = [] then segments
      else case rev segments of
             TagDelta existing_tag existing # before \<Rightarrow>
               if existing_tag = tag then rev (TagDelta tag (existing @ delta) # before)
               else segments @ [TagDelta tag delta]
           | _ \<Rightarrow> segments @ [TagDelta tag delta])"
| "push_segment segments (TagStart tag) = segments @ [TagStart tag]"
| "push_segment segments (TagEnd tag) = segments @ [TagEnd tag]"

definition push_text ::
  "'t tagged_line_parser \<Rightarrow> str \<Rightarrow> 't tagged_line_segment list \<Rightarrow> 't tagged_line_segment list" where
  "push_text p t segments =
     (case active_line_tag p of
        Some tag \<Rightarrow> push_segment segments (TagDelta tag t)
      | None \<Rightarrow> push_segment segments (Normal t))"

definition is_tag_prefix :: "'t tagged_line_parser \<Rightarrow> str \<Rightarrow> bool" where
  "is_tag_prefix p slug =
     list_ex (\<lambda>spec. starts_with (trim_end slug) (spec_open spec) \<or>
                     starts_with (trim_end slug) (spec_close spec)) (line_specs p)"

definition match_open :: "'t tagged_line_parser \<Rightarrow> str \<Rightarrow> 't option" where
  "match_open p slug = map_option spec_tag (List.find (\<lambda>spec. spec_open spec = slug) (line_specs p))"

definition match_close :: "'t tagged_line_parser \<Rightarrow> str \<Rightarrow> 't option" where
  "match_close p slug = map_option spec_tag (List.find (\<lambda>spec. spec_close spec = slug) (line_specs p))"

text \<open>The text between the line's margins, without its newline.\<close>

definition line_slug :: "str \<Rightarrow> str" where
  "line_slug line =
     trim_end (trim_start (case strip_suffix [newline] line of None \<Rightarrow> line | Some l \<Rightarrow> l))"

definition finish_tag_line ::
  "'t tagged_line_parser \<Rightarrow> 't tagged_line_segment list \<Rightarrow>
   't tagged_line_parser \<times> 't tagged_line_segment list" where
  "finish_tag_line p0 segments =
     (let line = line_buffer p0; p = p0\<lparr>line_buffer := []\<rparr>; slug = line_slug line
      in if match_open p slug \<noteq> None \<and> active_line_tag p = None
         then (p\<lparr>active_line_tag := match_open p slug, detect_tag := True\<rparr>,
               push_segment segments (TagStart (the (match_open p slug))))
         else if match_close p slug \<noteq> None \<and> active_line_tag p = match_close p slug
         then (p\<lparr>active_line_tag := None, detect_tag := True\<rparr>,
               push_segment segments (TagEnd (the (match_close p slug))))
         else (p\<lparr>detect_tag := True\<rparr>, push_text p line segments))"

text \<open>One character of \<open>parse\<close>; \<open>run\<close> is text that is already known to be no tag.\<close>

definition parse_char ::
  "'t tagged_line_parser \<times> 't tagged_line_segment list \<times> str \<Rightarrow> uchar \<Rightarrow>
   't tagged_line_parser \<times> 't tagged_line_segment list \<times> str" where
  "parse_char st ch =
     (case st of (p, segments, run) \<Rightarrow>
        if detect_tag p then
          let segments1 = (if run \<noteq> [] then push_text p run segments else segments);
              p1 = p\<lparr>line_buffer := line_buffer p @ [ch]\<rparr>
          in if ch = newline then (case finish_tag_line p1 segments1 of (p2, segments2) \<Rightarrow> (p2, segments2, []))
             else let slug = trim_start (line_buffer p1)
                  in if slug = [] \<or> is_tag_prefix p1 slug then (p1, segments1, [])
                     else let p2 = p1\<lparr>line_buffer := [], detect_tag := False\<rparr>
                          in (p2, push_text p2 (line_buffer p1) segments1, [])
        else
          let run1 = run @ [ch]
          in if ch = newline then (p\<lparr>detect_tag := True\<rparr>, push_text p run1 segments, [])
             else (p, segments, run1))"

definition tagged_line_parse ::
  "'t tagged_line_parser \<Rightarrow> str \<Rightarrow> 't tagged_line_parser \<times> 't tagged_line_segment list" where
  "tagged_line_parse p delta =
     (case foldl parse_char (p, [], []) delta of
        (q, segments, run) \<Rightarrow> (q, if run \<noteq> [] then push_text q run segments else segments))"

definition tagged_line_finish ::
  "'t tagged_line_parser \<Rightarrow> 't tagged_line_parser \<times> 't tagged_line_segment list" where
  "tagged_line_finish p =
     (let (q, segments) =
        (if line_buffer p \<noteq> [] then
           (let buffered = line_buffer p; p1 = p\<lparr>line_buffer := []\<rparr>; slug = line_slug buffered
            in if match_open p1 slug \<noteq> None \<and> active_line_tag p1 = None
               then (p1\<lparr>active_line_tag := match_open p1 slug\<rparr>,
                     push_segment [] (TagStart (the (match_open p1 slug))))
               else if match_close p1 slug \<noteq> None \<and> active_line_tag p1 = match_close p1 slug
               then (p1\<lparr>active_line_tag := None\<rparr>,
                     push_segment [] (TagEnd (the (match_close p1 slug))))
               else (p1, push_text p1 buffered []))
         else (p, []))
      in (q\<lparr>active_line_tag := None, detect_tag := True\<rparr>,
          case active_line_tag q of None \<Rightarrow> segments | Some tag \<Rightarrow> push_segment segments (TagEnd tag)))"

section \<open>What the segments say\<close>

text \<open>A segment as single events: however a run of text is cut, its events are the same.\<close>

datatype 't line_event = Shown uchar | Opened 't | Inside 't uchar | Closed 't

fun segment_events :: "'t tagged_line_segment \<Rightarrow> 't line_event list" where
  "segment_events (Normal t) = map Shown t"
| "segment_events (TagStart tag) = [Opened tag]"
| "segment_events (TagDelta tag t) = map (Inside tag) t"
| "segment_events (TagEnd tag) = [Closed tag]"

abbreviation events :: "'t tagged_line_segment list \<Rightarrow> 't line_event list" where
  "events segments \<equiv> concat (map segment_events segments)"

definition text_events :: "'t option \<Rightarrow> str \<Rightarrow> 't line_event list" where
  "text_events active t = (case active of None \<Rightarrow> map Shown t | Some tag \<Rightarrow> map (Inside tag) t)"

lemma text_events_append [simp]: "text_events a (s @ t) = text_events a s @ text_events a t"
  by (simp add: text_events_def split: option.split)

lemma text_events_Nil [simp]: "text_events a [] = []"
  by (simp add: text_events_def split: option.split)

lemma events_push_segment [simp]: "events (push_segment segments seg) = events segments @ segment_events seg"
proof (cases segments rule: rev_cases)
  case Nil
  then show ?thesis by (cases seg) simp_all
next
  case (snoc before last_segment)
  then show ?thesis by (cases seg; cases last_segment) auto
qed

declare push_segment.simps [simp del]

lemma events_push_text [simp]: "events (push_text p t segments) = events segments @ text_events (active_line_tag p) t"
  by (simp add: push_text_def text_events_def split: option.split)

subsection \<open>One character at a time\<close>

definition step_state :: "'t tagged_line_parser \<Rightarrow> uchar \<Rightarrow> 't tagged_line_parser" where
  "step_state p ch = fst (parse_char (p, [], []) ch)"

definition step_events :: "'t tagged_line_parser \<Rightarrow> uchar \<Rightarrow> 't line_event list" where
  "step_events p ch =
     (case parse_char (p, [], []) ch of (q, segments, run) \<Rightarrow> events segments @ text_events (active_line_tag q) run)"

fun scan :: "'t tagged_line_parser \<Rightarrow> str \<Rightarrow> 't tagged_line_parser \<times> 't line_event list" where
  "scan p [] = (p, [])"
| "scan p (c # cs) = (case scan (step_state p c) cs of (q, es) \<Rightarrow> (q, step_events p c @ es))"

lemma scan_append:
  "scan p (a @ b) = (case scan p a of (q, es) \<Rightarrow> case scan q b of (r, fs) \<Rightarrow> (r, es @ fs))"
  by (induction a arbitrary: p) (auto split: prod.splits)

lemma finish_line_segments:
  "fst (finish_tag_line p segments) = fst (finish_tag_line p [])"
  "events (snd (finish_tag_line p segments)) = events segments @ events (snd (finish_tag_line p []))"
  by (simp_all add: finish_tag_line_def Let_def)

lemma parse_char_events:
  assumes "parse_char (p, segments, run) ch = (q, segments', run')"
  shows "q = step_state p ch"
    "events segments' @ text_events (active_line_tag q) run' =
     events segments @ text_events (active_line_tag p) run @ step_events p ch"
proof -
  obtain f g where fin: "finish_tag_line (p\<lparr>line_buffer := line_buffer p @ [ch]\<rparr>) [] = (f, g)" by fastforce
  have fin2: "\<exists>g'. finish_tag_line (p\<lparr>line_buffer := line_buffer p @ [ch]\<rparr>) sg = (f, g') \<and> events g' = events sg @ events g" for sg
    using finish_line_segments[of "p\<lparr>line_buffer := line_buffer p @ [ch]\<rparr>" sg] fin
    by (cases "finish_tag_line (p\<lparr>line_buffer := line_buffer p @ [ch]\<rparr>) sg") simp
  obtain g1 where g1: "finish_tag_line (p\<lparr>line_buffer := line_buffer p @ [ch]\<rparr>) segments = (f, g1)"
    "events g1 = events segments @ events g" using fin2 by blast
  obtain g2 where g2: "finish_tag_line (p\<lparr>line_buffer := line_buffer p @ [ch]\<rparr>) (push_text p run segments) = (f, g2)"
    "events g2 = events (push_text p run segments) @ events g" using fin2 by blast
  show "q = step_state p ch"
    "events segments' @ text_events (active_line_tag q) run' =
     events segments @ text_events (active_line_tag p) run @ step_events p ch"
    using assms fin g1 g2
    by (auto simp: parse_char_def step_state_def step_events_def Let_def split: if_splits)
qed

lemma foldl_parse_char:
  "foldl parse_char (p, segments, run) cs = (q, segments', run') \<Longrightarrow>
   \<exists>es. scan p cs = (q, es) \<and>
     events segments' @ text_events (active_line_tag q) run' = events segments @ text_events (active_line_tag p) run @ es"
proof (induction cs arbitrary: p segments run)
  case (Cons c cs)
  obtain p1 s1 r1 where step: "parse_char (p, segments, run) c = (p1, s1, r1)" by (cases "parse_char (p, segments, run) c")
  have "foldl parse_char (p1, s1, r1) cs = (q, segments', run')" using Cons.prems step by simp
  from Cons.IH[OF this] parse_char_events[OF step] show ?case by (auto split: prod.splits)
qed simp

lemma tagged_line_parse_scan:
  assumes "tagged_line_parse p cs = (q, segments)"
  shows "scan p cs = (q, events segments)"
proof -
  obtain q' s' r' where f: "foldl parse_char (p, [], []) cs = (q', s', r')" by (cases "foldl parse_char (p, [], []) cs")
  show ?thesis using foldl_parse_char[OF f] f assms by (auto simp: tagged_line_parse_def split: if_splits)
qed

section \<open>Reading line by line\<close>

definition lookup_tag :: "('t tag_spec \<Rightarrow> str) \<Rightarrow> 't tag_spec list \<Rightarrow> str \<Rightarrow> 't option" where
  "lookup_tag delimiter specs slug = map_option spec_tag (List.find (\<lambda>spec. delimiter spec = slug) specs)"

text \<open>A whole line opens a block, closes the open block, or is text.\<close>

definition read_line :: "'t tag_spec list \<Rightarrow> 't option \<Rightarrow> str \<Rightarrow> 't option \<times> 't line_event list" where
  "read_line specs active line =
     (let opened = lookup_tag spec_open specs (line_slug line);
          closed = lookup_tag spec_close specs (line_slug line)
      in if opened \<noteq> None \<and> active = None then (opened, [Opened (the opened)])
         else if closed \<noteq> None \<and> active = closed then (None, [Closed (the closed)])
         else (active, text_events active line))"

fun read_lines :: "'t tag_spec list \<Rightarrow> 't option \<Rightarrow> str list \<Rightarrow> 't option \<times> 't line_event list" where
  "read_lines specs active [] = (active, [])"
| "read_lines specs active (l # ls) =
     (case read_line specs active l of (a, es) \<Rightarrow>
      case read_lines specs a ls of (b, fs) \<Rightarrow> (b, es @ fs))"

definition read_text :: "'t tag_spec list \<Rightarrow> str \<Rightarrow> 't line_event list" where
  "read_text specs t =
     (case read_lines specs None (split_inclusive newline t) of
        (a, es) \<Rightarrow> es @ (case a of None \<Rightarrow> [] | Some tag \<Rightarrow> [Closed tag]))"

definition at_line :: "'t tag_spec list \<Rightarrow> 't option \<Rightarrow> bool \<Rightarrow> str \<Rightarrow> 't tagged_line_parser" where
  "at_line specs active detect buffer =
     \<lparr>line_specs = specs, active_line_tag = active, detect_tag = detect, line_buffer = buffer\<rparr>"

text \<open>A beginning of a line that is still held back.\<close>

definition held :: "'t tag_spec list \<Rightarrow> str \<Rightarrow> bool" where
  "held specs u \<longleftrightarrow> trim_start u = [] \<or> is_tag_prefix (tagged_line_new specs) (trim_start u)"

lemma is_tag_prefix_at_line: "is_tag_prefix (at_line specs a d b) = is_tag_prefix (tagged_line_new specs)"
  by (simp add: is_tag_prefix_def at_line_def tagged_line_new_def fun_eq_iff)

lemma step_held:
  assumes "c \<noteq> newline"
  shows "step_state (at_line specs a True u) c =
      (if held specs (u @ [c]) then at_line specs a True (u @ [c]) else at_line specs a False [])"
    "step_events (at_line specs a True u) c = (if held specs (u @ [c]) then [] else text_events a (u @ [c]))"
  using assms is_tag_prefix_at_line[of specs a True "u @ [c]"]
  by (auto simp: step_state_def step_events_def parse_char_def at_line_def held_def Let_def)

lemma step_free:
  "step_state (at_line specs a False []) c = at_line specs a (c = newline) []"
  "step_events (at_line specs a False []) c = text_events a [c]"
  by (auto simp: step_state_def step_events_def parse_char_def at_line_def Let_def)

lemma scan_free:
  "newline \<notin> set w \<Longrightarrow> scan (at_line specs a False []) w = (at_line specs a False [], text_events a w)"
  by (induction w) (auto simp: step_free simp flip: text_events_append)

text \<open>A line without its newline: held back as a whole, or passed on as text.\<close>

definition all_held :: "'t tag_spec list \<Rightarrow> str \<Rightarrow> bool" where
  "all_held specs w \<longleftrightarrow> (\<forall>u. u \<noteq> [] \<and> (\<exists>v. w = u @ v) \<longrightarrow> held specs u)"

lemma all_held_snoc: "all_held specs (w @ [c]) \<longleftrightarrow> all_held specs w \<and> held specs (w @ [c])"
proof -
  have "(\<exists>v. w @ [c] = u @ v) \<longleftrightarrow> u = w @ [c] \<or> (\<exists>v. w = u @ v)" for u
    by (auto simp: append_eq_append_conv2 Cons_eq_append_conv)
  then show ?thesis by (auto simp: all_held_def)
qed

lemma scan_line:
  assumes "newline \<notin> set w"
  shows "scan (at_line specs a True []) w =
    (if all_held specs w then (at_line specs a True w, []) else (at_line specs a False [], text_events a w))"
  using assms
proof (induction w rule: rev_induct)
  case Nil
  then show ?case by (simp add: all_held_def)
next
  case (snoc c w)
  then have "c \<noteq> newline" by simp
  then show ?case
    using snoc step_held[of c specs a w] step_free[of specs a c] by (simp add: all_held_snoc scan_append)
qed

text \<open>A line that is a tag between margins is held back to its end.\<close>

lemma trim_end_prefix:
  assumes "trim_end (x @ y) = t"
  shows "\<exists>r. t = trim_end x @ r"
proof -
  obtain wx where wx: "x = trim_end x @ wx" "list_all is_whitespace wx" by (rule trim_end_decomp)
  obtain ws where ws: "x @ y = trim_end (x @ y) @ ws" "list_all is_whitespace ws" by (rule trim_end_decomp)
  have "x @ y = t @ ws" using ws(1) by (simp only: assms)
  then consider r where "t = x @ r" | r where "x = t @ r" "ws = r @ y"
    unfolding append_eq_append_conv2 by metis
  then show ?thesis
  proof cases
    case 1
    then show ?thesis using wx(1) by (metis append.assoc)
  next
    case 2
    then have "trim_end x = trim_end t" using ws(2) trim_end_append_ws[of r t] by simp
    also have "trim_end t = t" using assms by auto
    finally show ?thesis by simp
  qed
qed

lemma held_prefix:
  assumes "trim_end (trim_start w) = delimiter" "delimiter \<in> spec_open ` set specs \<union> spec_close ` set specs"
  shows "all_held specs w"
  unfolding all_held_def
proof (intro allI impI)
  fix u assume "u \<noteq> [] \<and> (\<exists>v. w = u @ v)"
  then obtain v where w: "w = u @ v" by blast
  show "held specs u"
  proof (cases "trim_start u = []")
    case False
    then have "trim_start w = trim_start u @ v"
      by (auto simp: w trim_start_def dropWhile_append)
    then obtain r where "delimiter = trim_end (trim_start u) @ r"
      using trim_end_prefix[of "trim_start u" v delimiter] assms(1) by auto
    then have "starts_with (trim_end (trim_start u)) delimiter" by simp
    then show ?thesis
      using assms(2) by (auto simp: held_def is_tag_prefix_def tagged_line_new_def list_ex_iff)
  qed (simp add: held_def)
qed

lemma lookup_tag_mem: "lookup_tag delimiter specs slug \<noteq> None \<Longrightarrow> slug \<in> delimiter ` set specs"
  by (auto simp: lookup_tag_def find_Some_iff)

lemma line_slug_simps:
  "line_slug (w @ [newline]) = trim_end (trim_start w)"
  "newline \<notin> set w \<Longrightarrow> line_slug w = trim_end (trim_start w)"
proof -
  have "strip_suffix [newline] (w @ [newline]) = Some w" by (simp add: strip_suffix_Some_iff)
  then show "line_slug (w @ [newline]) = trim_end (trim_start w)" by (simp add: line_slug_def)
  show "line_slug w = trim_end (trim_start w)" if "newline \<notin> set w"
  proof -
    have "strip_suffix [newline] w = None"
      using that by (cases "strip_suffix [newline] w") (auto simp: strip_suffix_Some_iff)
    then show ?thesis by (simp add: line_slug_def)
  qed
qed

lemma read_line_text:
  assumes "\<not> all_held specs w" "line_slug l = trim_end (trim_start w)"
  shows "read_line specs a l = (a, text_events a l)"
proof -
  have "line_slug l \<notin> spec_open ` set specs \<union> spec_close ` set specs"
    using held_prefix[OF refl, of w specs] assms by auto
  then have "lookup_tag spec_open specs (line_slug l) = None" "lookup_tag spec_close specs (line_slug l) = None"
    using lookup_tag_mem by blast+
  then show ?thesis by (simp add: read_line_def)
qed

lemma match_at_line:
  "match_open (at_line specs a d b) = lookup_tag spec_open specs"
  "match_close (at_line specs a d b) = lookup_tag spec_close specs"
  by (simp_all add: match_open_def match_close_def lookup_tag_def at_line_def fun_eq_iff)

lemma at_line_update [simp]:
  "(at_line specs a d b)\<lparr>line_buffer := b'\<rparr> = at_line specs a d b'"
  "(at_line specs a d b)\<lparr>detect_tag := d'\<rparr> = at_line specs a d' b"
  "(at_line specs a d b)\<lparr>active_line_tag := a'\<rparr> = at_line specs a' d b"
  "line_buffer (at_line specs a d b) = b" "detect_tag (at_line specs a d b) = d"
  "active_line_tag (at_line specs a d b) = a"
  by (simp_all add: at_line_def)

lemma finish_line_reads:
  "fst (finish_tag_line (at_line specs a True l) []) = at_line specs (fst (read_line specs a l)) True []"
  "events (snd (finish_tag_line (at_line specs a True l) [])) = snd (read_line specs a l)"
  by (simp_all add: finish_tag_line_def read_line_def match_at_line Let_def)

lemma scan_full_line:
  assumes "newline \<notin> set w" "read_line specs a (w @ [newline]) = (a', es)"
  shows "scan (at_line specs a True []) (w @ [newline]) = (at_line specs a' True [], es)"
proof (cases "all_held specs w")
  case True
  obtain q segments where q: "finish_tag_line (at_line specs a True (w @ [newline])) [] = (q, segments)" by fastforce
  have "step_state (at_line specs a True w) newline = q" "step_events (at_line specs a True w) newline = events segments"
    using q by (simp_all add: step_state_def step_events_def parse_char_def Let_def)
  then show ?thesis
    using True scan_line[OF assms(1), of specs a] finish_line_reads[of specs a "w @ [newline]"] q assms(2) by (simp add: scan_append)
next
  case False
  have "read_line specs a (w @ [newline]) = (a, text_events a (w @ [newline]))"
    by (rule read_line_text[OF False]) (simp add: line_slug_simps)
  then show ?thesis
    using False scan_line[OF assms(1), of specs a] step_free[of specs a newline] assms(2) by (auto simp: scan_append)
qed

lemma split_line_cases:
  assumes "t \<noteq> []"
  obtains (full) w r where "newline \<notin> set w" "t = w @ newline # r"
  | (last_line) "newline \<notin> set t"
proof (cases "newline \<in> set t")
  case True
  then show ?thesis using full split_list_first[OF True] by blast
qed (use last_line in blast)

text \<open>Whatever is still held back at the end is read as a last line.\<close>

lemma finish_reads_line:
  assumes "newline \<notin> set w" "w \<noteq> []" "scan (at_line specs a True []) w = (q, es)"
    and "read_line specs a w = (b, fs)"
  shows "es @ events (snd (tagged_line_finish q)) = fs @ (case b of None \<Rightarrow> [] | Some tag \<Rightarrow> [Closed tag])"
proof (cases "all_held specs w")
  case True
  then have q: "q = at_line specs a True w" "es = []" using scan_line[OF assms(1), of specs a] assms(3) by auto
  show ?thesis
    using assms(2,4)
    by (auto simp: q tagged_line_finish_def read_line_def match_at_line Let_def split: option.splits if_splits)
next
  case False
  have "read_line specs a w = (a, text_events a w)"
    by (rule read_line_text[OF False]) (simp add: line_slug_simps assms(1))
  then show ?thesis
    using False scan_line[OF assms(1), of specs a] assms(3,4)
    by (auto simp: tagged_line_finish_def split: option.split)
qed

lemma run_reads_lines:
  "read_lines specs a (split_inclusive newline t) = (b, fs) \<Longrightarrow> scan (at_line specs a True []) t = (q, es) \<Longrightarrow>
   es @ events (snd (tagged_line_finish q)) = fs @ (case b of None \<Rightarrow> [] | Some tag \<Rightarrow> [Closed tag])"
proof (induction "length t" arbitrary: t a fs es rule: less_induct)
  case less
  show ?case
  proof (cases "t = []")
    case True
    then show ?thesis using less.prems by (auto simp: tagged_line_finish_def split: option.split)
  next
    case False
    then show ?thesis
    proof (cases rule: split_line_cases)
      case (full w r)
      obtain c gs where line: "read_line specs a (w @ [newline]) = (c, gs)" by fastforce
      obtain hs where rest: "read_lines specs c (split_inclusive newline r) = (b, hs)" "fs = gs @ hs"
        using less.prems(1) full line by (auto simp: split_inclusive_append split: prod.splits)
      obtain ks where scan: "scan (at_line specs c True []) r = (q, ks)" "es = gs @ ks"
        using less.prems(2) full scan_full_line[OF full(1) line] scan_append[of "at_line specs a True []" "w @ [newline]" r]
        by (auto split: prod.splits)
      show ?thesis using less.hyps[OF _ rest(1) scan(1)] full rest scan by simp
    next
      case last_line
      obtain c gs where line: "read_line specs a t = (c, gs)" by fastforce
      then show ?thesis
        using finish_reads_line[OF last_line False less.prems(2) line] less.prems(1)
          split_inclusive_no_sep[OF last_line False] by simp
    qed
  qed
qed

lemma run_reads_text:
  "events (snd (tagged_line_parse (tagged_line_new specs) t) @
     snd (tagged_line_finish (fst (tagged_line_parse (tagged_line_new specs) t)))) = read_text specs t"
proof -
  obtain q segments where p: "tagged_line_parse (tagged_line_new specs) t = (q, segments)" by fastforce
  obtain b fs where r: "read_lines specs None (split_inclusive newline t) = (b, fs)" by fastforce
  have "scan (at_line specs None True []) t = (q, events segments)"
    using tagged_line_parse_scan[OF p] by (simp add: tagged_line_new_def at_line_def)
  from run_reads_lines[OF r this] show ?thesis by (simp add: p r read_text_def)
qed



section \<open>Proposed plans\<close>

definition OPEN_TAG :: str where
  "OPEN_TAG = lit ''<proposed_plan>''"

definition CLOSE_TAG :: str where
  "CLOSE_TAG = lit ''</proposed_plan>''"

datatype plan_tag = ProposedPlan

datatype proposed_plan_segment =
    PlanNormal str
  | ProposedPlanStart
  | ProposedPlanDelta str
  | ProposedPlanEnd

type_synonym proposed_plan_parser = "plan_tag tagged_line_parser"

definition plan_specs :: "plan_tag tag_spec list" where
  "plan_specs = [\<lparr>spec_open = OPEN_TAG, spec_close = CLOSE_TAG, spec_tag = ProposedPlan\<rparr>]"

definition plan_new :: proposed_plan_parser where
  "plan_new = tagged_line_new plan_specs"

fun map_segment :: "plan_tag tagged_line_segment \<Rightarrow> proposed_plan_segment" where
  "map_segment (Normal t) = PlanNormal t"
| "map_segment (TagStart ProposedPlan) = ProposedPlanStart"
| "map_segment (TagDelta ProposedPlan t) = ProposedPlanDelta t"
| "map_segment (TagEnd ProposedPlan) = ProposedPlanEnd"

definition map_segments :: "plan_tag tagged_line_segment list \<Rightarrow> proposed_plan_segment stream_text_chunk" where
  "map_segments segments =
     foldl (\<lambda>out segment.
        let mapped = map_segment segment;
            out1 = (case mapped of PlanNormal t \<Rightarrow> out\<lparr>visible_text := visible_text out @ t\<rparr> | _ \<Rightarrow> out)
        in out1\<lparr>extracted := extracted out1 @ [mapped]\<rparr>) empty_text_chunk segments"

definition plan_push_str ::
  "proposed_plan_parser \<Rightarrow> str \<Rightarrow> proposed_plan_parser \<times> proposed_plan_segment stream_text_chunk" where
  "plan_push_str p chunk = (case tagged_line_parse p chunk of (q, segments) \<Rightarrow> (q, map_segments segments))"

definition plan_finish ::
  "proposed_plan_parser \<Rightarrow> proposed_plan_parser \<times> proposed_plan_segment stream_text_chunk" where
  "plan_finish p = (case tagged_line_finish p of (q, segments) \<Rightarrow> (q, map_segments segments))"

definition strip_proposed_plan_blocks :: "str \<Rightarrow> str" where
  "strip_proposed_plan_blocks t =
     (case plan_push_str plan_new t of
        (parser, out) \<Rightarrow> visible_text out @ visible_text (snd (plan_finish parser)))"

text \<open>The last plan of the text: a new block forgets the one before.\<close>

fun collect_plan :: "bool \<times> str \<Rightarrow> proposed_plan_segment \<Rightarrow> bool \<times> str" where
  "collect_plan (saw_plan_block, plan_text) ProposedPlanStart = (True, [])"
| "collect_plan (saw_plan_block, plan_text) (ProposedPlanDelta delta) = (saw_plan_block, plan_text @ delta)"
| "collect_plan st ProposedPlanEnd = st"
| "collect_plan st (PlanNormal t) = st"

definition extract_proposed_plan_text :: "str \<Rightarrow> str option" where
  "extract_proposed_plan_text t =
     (case plan_push_str plan_new t of
        (parser, out) \<Rightarrow>
          (case foldl collect_plan (False, []) (extracted out @ extracted (snd (plan_finish parser))) of
             (saw_plan_block, plan_text) \<Rightarrow> if saw_plan_block then Some plan_text else None))"

subsection \<open>Plans in any chunking\<close>

fun plan_events :: "proposed_plan_segment \<Rightarrow> plan_tag line_event list" where
  "plan_events (PlanNormal t) = map Shown t"
| "plan_events ProposedPlanStart = [Opened ProposedPlan]"
| "plan_events (ProposedPlanDelta t) = map (Inside ProposedPlan) t"
| "plan_events ProposedPlanEnd = [Closed ProposedPlan]"

definition shown :: "'t line_event list \<Rightarrow> str" where
  "shown es = concat (map (\<lambda>e. case e of Shown c \<Rightarrow> [c] | _ \<Rightarrow> []) es)"

lemma shown_append [simp]: "shown (a @ b) = shown a @ shown b"
  by (simp add: shown_def)

lemma shown_simps [simp]:
  "shown [] = []" "shown (Opened t # es) = shown es" "shown (Closed t # es) = shown es"
  "shown (map Shown s) = s" "shown (map (Inside t) s) = []"
  by (simp_all add: shown_def comp_def)

lemma map_segments_eq:
  "map_segments segments = \<lparr>visible_text = shown (events segments), extracted = map map_segment segments\<rparr>"
proof (induction segments rule: rev_induct)
  case (snoc x xs)
  then show ?case
    by (cases x rule: map_segment.cases) (simp_all add: map_segments_def Let_def)
qed (simp add: map_segments_def empty_text_chunk_def)

lemma plan_events_map: "plan_events (map_segment seg) = segment_events seg"
  by (cases seg rule: map_segment.cases) simp_all

lemma observed_map_segments:
  "observed plan_events (map_segments segments) = (shown (events segments), events segments)"
  by (simp add: observed_def map_segments_eq plan_events_map comp_def)

interpretation plans: stream_text_parser "\<lambda>p s. Some (plan_push_str p s)" plan_finish "\<lambda>_. True" plan_events
proof unfold_locales
  fix p :: proposed_plan_parser
  show "Some (plan_push_str p []) = Some (p, empty_text_chunk)"
    by (simp add: plan_push_str_def tagged_line_parse_def map_segments_def)
next
  fix p q r :: proposed_plan_parser and a b o1 o2
  assume 1: "Some (plan_push_str p a) = Some (q, o1)" and 2: "Some (plan_push_str q b) = Some (r, o2)"
  obtain s1 s2 where a: "tagged_line_parse p a = (q, s1)" "o1 = map_segments s1"
    and b: "tagged_line_parse q b = (r, s2)" "o2 = map_segments s2"
    using 1 2 by (auto simp: plan_push_str_def split: prod.splits)
  obtain r' s where ab: "tagged_line_parse p (a @ b) = (r', s)" by fastforce
  have "r' = r" "events s = events s1 @ events s2"
    using scan_append[of p a b] tagged_line_parse_scan[OF a(1)] tagged_line_parse_scan[OF b(1)]
      tagged_line_parse_scan[OF ab] by auto
  moreover have "observed plan_events (chunk_append o1 o2) = (shown (events s1 @ events s2), events s1 @ events s2)"
    using observed_map_segments[of s1] observed_map_segments[of s2] a(2) b(2) by (simp add: observed_def)
  ultimately show "\<exists>out. Some (plan_push_str p (a @ b)) = Some (r, out) \<and>
      observed plan_events out = observed plan_events (chunk_append o1 o2)"
    using ab by (simp add: plan_push_str_def observed_map_segments)
qed simp_all

subsection \<open>Cutting a plan out of a text\<close>

definition whole_lines :: "str \<Rightarrow> bool" where
  "whole_lines t \<longleftrightarrow> t = [] \<or> last t = newline"

definition untagged :: "str \<Rightarrow> str \<Rightarrow> bool" where
  "untagged delimiter t \<longleftrightarrow> list_all (\<lambda>l. line_slug l \<noteq> delimiter) (split_inclusive newline t)"

definition tag_line :: "str \<Rightarrow> str \<Rightarrow> bool" where
  "tag_line delimiter l \<longleftrightarrow> split_inclusive newline l = [l] \<and> last l = newline \<and> line_slug l = delimiter"

lemma concat_split_inclusive: "concat (split_inclusive d s) = s"
  by (induction s) (auto split: list.splits)

lemma read_lines_append:
  "read_lines specs a (ls @ ms) =
     (case read_lines specs a ls of (b, es) \<Rightarrow> case read_lines specs b ms of (c, fs) \<Rightarrow> (c, es @ fs))"
  by (induction ls arbitrary: a) (auto split: prod.splits)

lemma lookup_plan_tag:
  "lookup_tag spec_open plan_specs slug = (if slug = OPEN_TAG then Some ProposedPlan else None)"
  "lookup_tag spec_close plan_specs slug = (if slug = CLOSE_TAG then Some ProposedPlan else None)"
  by (simp_all add: lookup_tag_def plan_specs_def)

lemma read_lines_outside:
  "list_all (\<lambda>l. line_slug l \<noteq> OPEN_TAG) ls \<Longrightarrow> read_lines plan_specs None ls = (None, map Shown (concat ls))"
  by (induction ls) (auto simp: read_line_def lookup_plan_tag text_events_def)

lemma read_lines_inside:
  "list_all (\<lambda>l. line_slug l \<noteq> CLOSE_TAG) ls \<Longrightarrow>
   read_lines plan_specs (Some ProposedPlan) ls = (Some ProposedPlan, map (Inside ProposedPlan) (concat ls))"
  by (induction ls) (auto simp: read_line_def lookup_plan_tag text_events_def)

lemma read_plan_block:
  assumes "whole_lines before" "untagged OPEN_TAG before" "tag_line OPEN_TAG op"
    and "whole_lines plan" "untagged CLOSE_TAG plan" "tag_line CLOSE_TAG cl" "untagged OPEN_TAG after"
  shows "read_text plan_specs (before @ op @ plan @ cl @ after) =
    map Shown before @ [Opened ProposedPlan] @ map (Inside ProposedPlan) plan @ [Closed ProposedPlan] @ map Shown after"
proof -
  have split: "split_inclusive newline (before @ op @ plan @ cl @ after) =
      split_inclusive newline before @ [op] @ split_inclusive newline plan @ [cl] @ split_inclusive newline after"
    using assms by (simp add: split_inclusive_append_closed whole_lines_def tag_line_def)
  have tags: "read_line plan_specs None op = (Some ProposedPlan, [Opened ProposedPlan])"
    "read_line plan_specs (Some ProposedPlan) cl = (None, [Closed ProposedPlan])"
    using assms by (simp_all add: read_line_def lookup_plan_tag tag_line_def)
  show ?thesis
    using assms unfolding read_text_def split untagged_def
    by (simp add: read_lines_append read_lines_outside read_lines_inside tags concat_split_inclusive)
qed

text \<open>The two whole-text functions read the events of the run.\<close>

fun collect_event :: "bool \<times> str \<Rightarrow> plan_tag line_event \<Rightarrow> bool \<times> str" where
  "collect_event (saw, t) (Opened _) = (True, [])"
| "collect_event (saw, t) (Inside _ c) = (saw, t @ [c])"
| "collect_event st (Closed _) = st"
| "collect_event st (Shown _) = st"

lemma collect_text:
  "foldl collect_event (saw, t) (map (Inside g) u) = (saw, t @ u)"
  "foldl collect_event st (map Shown u) = st"
  by (induction u arbitrary: t) simp_all

lemma collect_plan_events: "foldl collect_plan st segs = foldl collect_event st (concat (map plan_events segs))"
proof (induction segs arbitrary: st)
  case (Cons seg segs)
  obtain saw t where st: "st = (saw, t)" by fastforce
  have "collect_plan st seg = foldl collect_event st (plan_events seg)"
    by (cases seg) (simp_all add: st collect_text)
  then show ?case using Cons.IH by simp
qed simp

lemma plan_functions_read_text:
  "strip_proposed_plan_blocks t = shown (read_text plan_specs t)"
  "extract_proposed_plan_text t =
     (case foldl collect_event (False, []) (read_text plan_specs t) of (saw, u) \<Rightarrow> if saw then Some u else None)"
proof -
  obtain q segs where p: "tagged_line_parse plan_new t = (q, segs)" by fastforce
  obtain r tail where f: "tagged_line_finish q = (r, tail)" by fastforce
  have "read_text plan_specs t = events segs @ events tail"
    using run_reads_text[of plan_specs t] p f by (simp add: plan_new_def)
  then show "strip_proposed_plan_blocks t = shown (read_text plan_specs t)"
    "extract_proposed_plan_text t =
      (case foldl collect_event (False, []) (read_text plan_specs t) of (saw, u) \<Rightarrow> if saw then Some u else None)"
    using p f by (simp_all add: strip_proposed_plan_blocks_def extract_proposed_plan_text_def plan_push_str_def
        plan_finish_def map_segments_eq collect_plan_events comp_def plan_events_map)
qed

text \<open>
  a text with one plan block, its two tags alone on their lines within any margins: the text
  around the block is shown unchanged, and the plan is exactly the text between the tags, also
  when it mentions the opening tag.
\<close>

theorem plan_block_cut_out:
  assumes "whole_lines before" "untagged OPEN_TAG before" "tag_line OPEN_TAG op"
    and "whole_lines plan" "untagged CLOSE_TAG plan" "tag_line CLOSE_TAG cl" "untagged OPEN_TAG after"
  shows "strip_proposed_plan_blocks (before @ op @ plan @ cl @ after) = before @ after \<and>
    extract_proposed_plan_text (before @ op @ plan @ cl @ after) = Some plan"
  unfolding plan_functions_read_text read_plan_block[OF assms]
  by (simp add: collect_text)

theorem plan_block_cut_out_witness:
  "strip_proposed_plan_blocks
     ((lit ''Intro'' @ [newline]) @ (lit ''  <proposed_plan>'' @ [newline]) @ (lit ''- <proposed_plan> x'' @ [newline]) @
      (lit ''</proposed_plan> '' @ [newline]) @ lit ''Outro'') = lit ''Intro'' @ [newline] @ lit ''Outro'' \<and>
   extract_proposed_plan_text
     ((lit ''Intro'' @ [newline]) @ (lit ''  <proposed_plan>'' @ [newline]) @ (lit ''- <proposed_plan> x'' @ [newline]) @
      (lit ''</proposed_plan> '' @ [newline]) @ lit ''Outro'') = Some (lit ''- <proposed_plan> x'' @ [newline])"
  using plan_block_cut_out[of "lit ''Intro'' @ [newline]" "lit ''  <proposed_plan>'' @ [newline]"
      "lit ''- <proposed_plan> x'' @ [newline]" "lit ''</proposed_plan> '' @ [newline]" "lit ''Outro''"]
  by (simp add: whole_lines_def untagged_def tag_line_def line_slug_def OPEN_TAG_def CLOSE_TAG_def text_eval)

end
