(* ===== verification/Assistant_Text.thy ===== *)
theory Assistant_Text
  imports Inline_Hidden_Tag Tagged_Lines
begin

text \<open>
  The parser of streamed assistant text (\<open>utils/stream-parser/src/assistant_text.rs\<close>): citations
  are removed first, and in plan mode the text that remains runs through the plan parser. The
  lemmas compose the two parsers and show that a stream, cut in any way, yields what the
  whole-text functions of \<open>core/src/stream_events_utils.rs\<close> compute from the finished message.
\<close>

section \<open>The parser\<close>

record assistant_text_chunk =
  shown_text :: str
  citations :: "str list"
  plan_segments :: "proposed_plan_segment list"

record assistant_text_stream_parser =
  plan_mode :: bool
  citation_stream :: citation_stream_parser
  plan_stream :: proposed_plan_parser

definition empty_assistant_chunk :: assistant_text_chunk where
  "empty_assistant_chunk = \<lparr>shown_text = [], citations = [], plan_segments = []\<rparr>"

definition assistant_chunk_is_empty :: "assistant_text_chunk \<Rightarrow> bool" where
  "assistant_chunk_is_empty c \<longleftrightarrow> shown_text c = [] \<and> citations c = [] \<and> plan_segments c = []"

text \<open>\<open>new\<close>; \<open>None\<close> is a failed assertion of the citation parser.\<close>

definition assistant_new :: "bool \<Rightarrow> assistant_text_stream_parser option" where
  "assistant_new mode =
     map_option (\<lambda>c. \<lparr>plan_mode = mode, citation_stream = c, plan_stream = plan_new\<rparr>) citation_new"

definition parse_visible_text ::
  "assistant_text_stream_parser \<Rightarrow> str \<Rightarrow> assistant_text_stream_parser \<times> assistant_text_chunk" where
  "parse_visible_text p visible =
     (if \<not> plan_mode p then (p, empty_assistant_chunk\<lparr>shown_text := visible\<rparr>)
      else case plan_push_str (plan_stream p) visible of
             (q, plan_chunk) \<Rightarrow>
               (p\<lparr>plan_stream := q\<rparr>,
                empty_assistant_chunk\<lparr>shown_text := visible_text plan_chunk, plan_segments := extracted plan_chunk\<rparr>))"

definition assistant_push_str ::
  "assistant_text_stream_parser \<Rightarrow> str \<Rightarrow> (assistant_text_stream_parser \<times> assistant_text_chunk) option" where
  "assistant_push_str p chunk =
     (case citation_push_str (citation_stream p) chunk of
        None \<Rightarrow> None
      | Some (c, citation_out) \<Rightarrow>
          (case parse_visible_text (p\<lparr>citation_stream := c\<rparr>) (visible_text citation_out) of
             (q, out) \<Rightarrow> Some (q, out\<lparr>citations := extracted citation_out\<rparr>)))"

definition assistant_finish ::
  "assistant_text_stream_parser \<Rightarrow> assistant_text_stream_parser \<times> assistant_text_chunk" where
  "assistant_finish p =
     (case citation_finish (citation_stream p) of
        (c, citation_out) \<Rightarrow>
          (case parse_visible_text (p\<lparr>citation_stream := c\<rparr>) (visible_text citation_out) of
             (q, out) \<Rightarrow>
               (if plan_mode q
                then (case plan_finish (plan_stream q) of
                        (r, tail) \<Rightarrow>
                          (q\<lparr>plan_stream := r\<rparr>,
                           (if chunk_is_empty tail then out
                            else out\<lparr>shown_text := shown_text out @ visible_text tail,
                                     plan_segments := plan_segments out @ extracted tail\<rparr>)
                             \<lparr>citations := extracted citation_out\<rparr>))
                else (q, out\<lparr>citations := extracted citation_out\<rparr>))))"

section \<open>The whole message\<close>

text \<open>\<open>strip_hidden_assistant_markup\<close> of \<open>core/src/stream_events_utils.rs\<close>.\<close>

definition strip_hidden_assistant_markup :: "str \<Rightarrow> bool \<Rightarrow> str option" where
  "strip_hidden_assistant_markup t mode =
     map_option (\<lambda>(without_citations, _).
       if mode then strip_proposed_plan_blocks without_citations else without_citations) (strip_citations t)"

section \<open>Composition of the two parsers\<close>

definition assistant_append :: "assistant_text_chunk \<Rightarrow> assistant_text_chunk \<Rightarrow> assistant_text_chunk" where
  "assistant_append a b =
     \<lparr>shown_text = shown_text a @ shown_text b, citations = citations a @ citations b,
      plan_segments = plan_segments a @ plan_segments b\<rparr>"

fun assistant_push_chunks ::
  "assistant_text_stream_parser \<Rightarrow> str list \<Rightarrow> (assistant_text_stream_parser \<times> assistant_text_chunk) option" where
  "assistant_push_chunks p [] = Some (p, empty_assistant_chunk)"
| "assistant_push_chunks p (c # cs) =
     (case assistant_push_str p c of
        None \<Rightarrow> None
      | Some (q, out) \<Rightarrow>
          (case assistant_push_chunks q cs of
             None \<Rightarrow> None
           | Some (r, rest) \<Rightarrow> Some (r, assistant_append out rest)))"

definition assistant_run :: "bool \<Rightarrow> str list \<Rightarrow> assistant_text_chunk option" where
  "assistant_run mode cs =
     (case assistant_new mode of
        None \<Rightarrow> None
      | Some p \<Rightarrow>
          map_option (\<lambda>(q, out). assistant_append out (snd (assistant_finish q))) (assistant_push_chunks p cs))"

text \<open>The plan parser's view of a chunk of visible text.\<close>

lemma plan_push_scan:
  assumes "plan_push_str p t = (q, out)"
  shows "\<exists>es. scan p t = (q, es) \<and> visible_text out = shown es \<and> concat (map plan_events (extracted out)) = es"
proof -
  obtain segs where "tagged_line_parse p t = (q, segs)" "out = map_segments segs"
    using assms by (auto simp: plan_push_str_def split: prod.splits)
  then show ?thesis
    using tagged_line_parse_scan[of p t q segs]
    by (simp add: map_segments_eq comp_def plan_events_map)
qed

definition assistant_view :: "assistant_text_chunk \<Rightarrow> str \<times> str list \<times> plan_tag line_event list" where
  "assistant_view c = (shown_text c, citations c, concat (map plan_events (plan_segments c)))"

lemma assistant_view_append:
  "assistant_view (assistant_append a b) =
     (fst (assistant_view a) @ fst (assistant_view b),
      fst (snd (assistant_view a)) @ fst (snd (assistant_view b)),
      snd (snd (assistant_view a)) @ snd (snd (assistant_view b)))"
  by (simp add: assistant_view_def assistant_append_def)

definition visible_view :: "bool \<Rightarrow> proposed_plan_parser \<Rightarrow> str \<Rightarrow> proposed_plan_parser \<times> str \<times> plan_tag line_event list" where
  "visible_view mode p v = (if mode then (case scan p v of (q, es) \<Rightarrow> (q, shown es, es)) else (p, v, []))"

lemma visible_view_append:
  "visible_view mode p (a @ b) =
     (case visible_view mode p a of (q, v, es) \<Rightarrow>
      case visible_view mode q b of (r, w, fs) \<Rightarrow> (r, v @ w, es @ fs))"
  by (auto simp: visible_view_def scan_append split: prod.splits)

lemma parse_visible_text_view:
  assumes "parse_visible_text p v = (q, out)" "visible_view (plan_mode p) (plan_stream p) v = (r, w, es)"
  shows "q = p\<lparr>plan_stream := r\<rparr>" "assistant_view out = (w, [], es)"
proof -
  obtain r' o' where pl: "plan_push_str (plan_stream p) v = (r', o')" by fastforce
  show "q = p\<lparr>plan_stream := r\<rparr>" "assistant_view out = (w, [], es)"
    using assms plan_push_scan[OF pl] pl
    by (auto simp: parse_visible_text_def visible_view_def assistant_view_def empty_assistant_chunk_def split: if_splits)
qed

lemma assistant_push_view:
  assumes "citation_push_str (citation_stream p) t = Some (c, o1)"
    and "visible_view (plan_mode p) (plan_stream p) (visible_text o1) = (r, w, es)"
  shows "\<exists>out. assistant_push_str p t = Some (p\<lparr>citation_stream := c, plan_stream := r\<rparr>, out) \<and>
    assistant_view out = (w, extracted o1, es)"
proof -
  obtain q out where q: "parse_visible_text (p\<lparr>citation_stream := c\<rparr>) (visible_text o1) = (q, out)" by fastforce
  then have "q = p\<lparr>citation_stream := c, plan_stream := r\<rparr>" "assistant_view out = (w, [], es)"
    using parse_visible_text_view[OF q] assms(2) by simp_all
  then show ?thesis using assms(1) q by (simp add: assistant_push_str_def assistant_view_def)
qed

lemma assistant_chunks_view:
  assumes "push_chunks citation_push_str (citation_stream p) cs = Some (c, o1)"
    and "visible_view (plan_mode p) (plan_stream p) (visible_text o1) = (r, w, es)"
  shows "\<exists>out. assistant_push_chunks p cs = Some (p\<lparr>citation_stream := c, plan_stream := r\<rparr>, out) \<and>
    assistant_view out = (w, extracted o1, es)"
  using assms
proof (induction cs arbitrary: p o1 w es)
  case Nil
  then show ?case
    by (auto simp: visible_view_def assistant_view_def empty_assistant_chunk_def split: if_splits)
next
  case (Cons t cs)
  obtain c' oa ob where push: "citation_push_str (citation_stream p) t = Some (c', oa)"
    "push_chunks citation_push_str c' cs = Some (c, ob)" "o1 = chunk_append oa ob"
    using Cons.prems(1) by (auto split: option.splits)
  obtain r' w1 es1 where v1: "visible_view (plan_mode p) (plan_stream p) (visible_text oa) = (r', w1, es1)"
    by (metis prod_cases3)
  obtain w2 es2 where v2: "visible_view (plan_mode p) r' (visible_text ob) = (r, w2, es2)"
    "w = w1 @ w2" "es = es1 @ es2"
    using Cons.prems(2) push(3) v1 by (auto simp: visible_view_append split: prod.splits)
  obtain out1 where out1: "assistant_push_str p t = Some (p\<lparr>citation_stream := c', plan_stream := r'\<rparr>, out1)"
    "assistant_view out1 = (w1, extracted oa, es1)"
    using assistant_push_view[OF push(1) v1] by blast
  obtain out2 where "assistant_push_chunks (p\<lparr>citation_stream := c', plan_stream := r'\<rparr>) cs =
      Some (p\<lparr>citation_stream := c, plan_stream := r\<rparr>, out2)" "assistant_view out2 = (w2, extracted ob, es2)"
    using Cons.IH[of "p\<lparr>citation_stream := c', plan_stream := r'\<rparr>" ob w2 es2] push(2) v2(1) by auto
  then show ?case using out1 push(3) v2 by (simp add: assistant_view_append)
qed

lemma assistant_finish_view:
  assumes "citation_finish (citation_stream p) = (c, o1)"
    and "visible_view (plan_mode p) (plan_stream p) (visible_text o1) = (r, w, es)"
    and "closing = (if plan_mode p then events (snd (tagged_line_finish r)) else [])"
  shows "assistant_view (snd (assistant_finish p)) = (w @ shown closing, extracted o1, es @ closing)"
proof -
  obtain q out where q: "parse_visible_text (p\<lparr>citation_stream := c\<rparr>) (visible_text o1) = (q, out)" by fastforce
  then have out: "q = p\<lparr>citation_stream := c, plan_stream := r\<rparr>" "assistant_view out = (w, [], es)"
    using parse_visible_text_view[OF q] assms(2) by simp_all
  obtain r' segs where fin: "tagged_line_finish r = (r', segs)" by fastforce
  then have tail: "plan_finish r = (r', map_segments segs)" by (simp add: plan_finish_def)
  have "concat (map (plan_events \<circ> map_segment) segs) = events segs"
    by (simp add: comp_def plan_events_map)
  then show ?thesis
    using assms(1,3) q out fin tail
    by (auto simp: assistant_finish_def assistant_view_def chunk_is_empty_def map_segments_eq)
qed

lemma assistant_run_view:
  "\<exists>out v cites. assistant_run mode cs = Some out \<and> strip_citations (concat cs) = Some (v, cites) \<and>
     assistant_view out =
       (if mode then strip_proposed_plan_blocks v else v, cites, if mode then read_text plan_specs v else [])"
proof -
  let ?p = "\<lparr>plan_mode = mode, citation_stream = citation_parser, plan_stream = plan_new\<rparr>"
  obtain c o1 where push: "push_chunks citation_push_str citation_parser cs = Some (c, o1)"
    using citations.chunks_agree[OF citation_parser_ready, of cs] by blast
  obtain c' o2 where fin: "citation_finish c = (c', o2)" by fastforce
  obtain r w es where v1: "visible_view mode plan_new (visible_text o1) = (r, w, es)" by (metis prod_cases3)
  obtain r' w' es' where v2: "visible_view mode r (visible_text o2) = (r', w', es')" by (metis prod_cases3)
  define v where "v = visible_text o1 @ visible_text o2"
  have "run_chunks citation_push_str citation_finish citation_parser cs = Some (chunk_append o1 o2)"
    using push fin by (simp add: run_chunks_def)
  then have strip: "strip_citations (concat cs) = Some (v, extracted o1 @ extracted o2)"
    unfolding strip_citations_run run_citations_split[of cs, symmetric] by (simp add: v_def)
  have v: "visible_view mode plan_new v = (r', w @ w', es @ es')"
    using v1 v2 by (simp add: v_def visible_view_append)
  obtain out where out: "assistant_push_chunks ?p cs = Some (?p\<lparr>citation_stream := c, plan_stream := r\<rparr>, out)"
    "assistant_view out = (w, extracted o1, es)"
    using assistant_chunks_view[of ?p cs c o1 r w es] push v1 by auto
  define closing where "closing = (if mode then events (snd (tagged_line_finish r')) else [])"
  have tail: "assistant_view (snd (assistant_finish (?p\<lparr>citation_stream := c, plan_stream := r\<rparr>))) =
      (w' @ shown closing, extracted o2, es' @ closing)"
    by (rule assistant_finish_view) (simp_all add: fin v2 closing_def)
  have run: "assistant_run mode cs =
      Some (assistant_append out (snd (assistant_finish (?p\<lparr>citation_stream := c, plan_stream := r\<rparr>))))"
    using out(1) by (simp add: assistant_run_def assistant_new_def citation_new_eq)
  have read: "read_text plan_specs v = es @ es' @ closing" if mode
  proof -
    obtain segs where "tagged_line_parse plan_new v = (r', segs)" "events segs = es @ es'"
      using v \<open>mode\<close> tagged_line_parse_scan[of plan_new v]
      by (cases "tagged_line_parse plan_new v") (auto simp: visible_view_def split: prod.splits)
    then show ?thesis using run_reads_text[of plan_specs v] that by (simp add: plan_new_def closing_def)
  qed
  have "w @ w' = shown (es @ es')" if mode
    using v that by (auto simp: visible_view_def split: prod.splits)
  then show ?thesis
    using run strip out(2) tail read v
    by (auto simp: assistant_view_append plan_functions_read_text visible_view_def closing_def)
qed

text \<open>
  C14: a message streamed in any chunks shows the text that stripping the finished message gives
  and reports its citations; in plan mode the segments describe the text, without its
  citations, read line by line.
\<close>

theorem assistant_stream_matches_message:
  "\<exists>out v cites.
     assistant_run mode cs = Some out \<and>
     strip_citations (concat cs) = Some (v, cites) \<and>
     citations out = cites \<and>
     strip_hidden_assistant_markup (concat cs) mode = Some (shown_text out) \<and>
     concat (map plan_events (plan_segments out)) = (if mode then read_text plan_specs v else [])"
proof -
  obtain out v cites where "assistant_run mode cs = Some out" "strip_citations (concat cs) = Some (v, cites)"
    "assistant_view out =
       (if mode then strip_proposed_plan_blocks v else v, cites, if mode then read_text plan_specs v else [])"
    using assistant_run_view by blast
  then show ?thesis
    by (intro exI[of _ out] exI[of _ v] exI[of _ cites])
      (simp add: assistant_view_def strip_hidden_assistant_markup_def)
qed

end
