(* ===== verification/Plan_Mode_Stream.thy ===== *)
theory Plan_Mode_Stream
  imports Assistant_Text Response_Items
begin

text \<open>
  How a turn turns streamed assistant text into client events (\<open>core/src/session/turn.rs\<close>): one
  \<open>AssistantTextStreamParser\<close> per message item, and in plan mode the bookkeeping that defers the start
  of a message until there is text to show and that starts and completes the plan item. Events
  carry the item id and the text; the thread and turn ids, the same in every event, are left out. The
  lemmas show the life cycle of the plan item and that the deltas of a message add up to the text
  that stripping the finished message gives.
\<close>

section \<open>Items and events\<close>

typedecl memory_citation

record agent_message_item =
  agent_message_id :: str
  agent_message_content :: "str list"
  agent_message_phase :: "message_phase option"
  agent_message_citation :: "memory_citation option"

text \<open>The items this code tells apart; every other variant is \<open>Other_Turn_Item\<close> with its id.\<close>

datatype turn_item =
    Agent_Message_Item agent_message_item
  | Plan_Item str str
  | Other_Turn_Item str

datatype client_event =
    Item_Started turn_item
  | Item_Completed turn_item
  | Message_Delta str str
  | Plan_Delta str str

definition agent_message_text :: "agent_message_item \<Rightarrow> str" where
  "agent_message_text item = concat (agent_message_content item)"

section \<open>The plan item\<close>

record proposed_plan_item_state =
  plan_item_id :: str
  plan_started :: bool
  plan_completed :: bool

definition plan_item_new :: "str \<Rightarrow> proposed_plan_item_state" where
  "plan_item_new turn_id =
     \<lparr>plan_item_id = turn_id @ lit ''-plan'', plan_started = False, plan_completed = False\<rparr>"

definition plan_item_start :: "proposed_plan_item_state \<Rightarrow> proposed_plan_item_state \<times> client_event list" where
  "plan_item_start st =
     (if plan_started st \<or> plan_completed st then (st, [])
      else (st\<lparr>plan_started := True\<rparr>, [Item_Started (Plan_Item (plan_item_id st) [])]))"

definition plan_item_push_delta :: "proposed_plan_item_state \<Rightarrow> str \<Rightarrow> client_event list" where
  "plan_item_push_delta st delta =
     (if plan_completed st then []
      else if delta = [] then []
      else [Plan_Delta (plan_item_id st) delta])"

definition plan_item_complete_with_text ::
  "proposed_plan_item_state \<Rightarrow> str \<Rightarrow> proposed_plan_item_state \<times> client_event list" where
  "plan_item_complete_with_text st t =
     (if plan_completed st \<or> \<not> plan_started st then (st, [])
      else (st\<lparr>plan_completed := True\<rparr>, [Item_Completed (Plan_Item (plan_item_id st) t)]))"

section \<open>Plan mode\<close>

record plan_mode_stream_state =
  pending_agent_message_items :: "str \<rightharpoonup> turn_item"
  started_agent_message_items :: "str set"
  leading_whitespace_by_item :: "str \<rightharpoonup> str"
  plan_item_state :: proposed_plan_item_state

definition plan_mode_new :: "str \<Rightarrow> plan_mode_stream_state" where
  "plan_mode_new turn_id =
     \<lparr>pending_agent_message_items = Map.empty, started_agent_message_items = {},
      leading_whitespace_by_item = Map.empty, plan_item_state = plan_item_new turn_id\<rparr>"

definition maybe_emit_pending_agent_message_start ::
  "plan_mode_stream_state \<Rightarrow> str \<Rightarrow> plan_mode_stream_state \<times> client_event list" where
  "maybe_emit_pending_agent_message_start st item_id =
     (if item_id \<in> started_agent_message_items st then (st, [])
      else case pending_agent_message_items st item_id of
             None \<Rightarrow> (st, [])
           | Some item \<Rightarrow>
               (st\<lparr>pending_agent_message_items := (pending_agent_message_items st)(item_id := None),
                   started_agent_message_items := insert item_id (started_agent_message_items st)\<rparr>,
                [Item_Started item]))"

text \<open>The \<open>Normal\<close> arm: whitespace before the first text of a message is kept back.\<close>

definition handle_normal_segment ::
  "plan_mode_stream_state \<Rightarrow> str \<Rightarrow> str \<Rightarrow> plan_mode_stream_state \<times> client_event list" where
  "handle_normal_segment st item_id delta0 =
     (if delta0 = [] then (st, [])
      else if \<not> list_ex (\<lambda>ch. \<not> is_whitespace ch) delta0 \<and> item_id \<notin> started_agent_message_items st
      then (st\<lparr>leading_whitespace_by_item := (leading_whitespace_by_item st)(item_id \<mapsto>
              (case leading_whitespace_by_item st item_id of None \<Rightarrow> [] | Some entry \<Rightarrow> entry) @ delta0)\<rparr>, [])
      else
        let (st1, delta) =
              (if item_id \<notin> started_agent_message_items st
               then (case leading_whitespace_by_item st item_id of
                       Some leading \<Rightarrow>
                         (st\<lparr>leading_whitespace_by_item := (leading_whitespace_by_item st)(item_id := None)\<rparr>,
                          leading @ delta0)
                     | None \<Rightarrow> (st, delta0))
               else (st, delta0));
            (st2, evs) = maybe_emit_pending_agent_message_start st1 item_id
        in (st2, evs @ [Message_Delta item_id delta]))"

definition plan_item_ensure_started :: "plan_mode_stream_state \<Rightarrow> plan_mode_stream_state \<times> client_event list" where
  "plan_item_ensure_started st =
     (case plan_item_start (plan_item_state st) of (ps, evs) \<Rightarrow> (st\<lparr>plan_item_state := ps\<rparr>, evs))"

fun handle_plan_segment ::
  "str \<Rightarrow> plan_mode_stream_state \<Rightarrow> proposed_plan_segment \<Rightarrow> plan_mode_stream_state \<times> client_event list" where
  "handle_plan_segment item_id st (PlanNormal delta) = handle_normal_segment st item_id delta"
| "handle_plan_segment item_id st ProposedPlanStart =
     (if plan_completed (plan_item_state st) then (st, []) else plan_item_ensure_started st)"
| "handle_plan_segment item_id st (ProposedPlanDelta delta) =
     (if plan_completed (plan_item_state st) then (st, [])
      else
        let (st1, evs) =
              (if plan_started (plan_item_state st) then (st, []) else plan_item_ensure_started st)
        in (st1, evs @ plan_item_push_delta (plan_item_state st1) delta))"
| "handle_plan_segment item_id st ProposedPlanEnd = (st, [])"

fun handle_plan_segments ::
  "str \<Rightarrow> plan_mode_stream_state \<Rightarrow> proposed_plan_segment list \<Rightarrow> plan_mode_stream_state \<times> client_event list" where
  "handle_plan_segments item_id st [] = (st, [])"
| "handle_plan_segments item_id st (seg # segs) =
     (case handle_plan_segment item_id st seg of
        (st1, evs) \<Rightarrow>
          (case handle_plan_segments item_id st1 segs of (st2, more_evs) \<Rightarrow> (st2, evs @ more_evs)))"

definition emit_streamed_assistant_text_delta ::
  "plan_mode_stream_state option \<Rightarrow> str \<Rightarrow> assistant_text_chunk \<Rightarrow>
   plan_mode_stream_state option \<times> client_event list" where
  "emit_streamed_assistant_text_delta plan_mode_state item_id parsed =
     (if assistant_chunk_is_empty parsed then (plan_mode_state, [])
      else case plan_mode_state of
             Some st \<Rightarrow>
               (if plan_segments parsed \<noteq> []
                then (case handle_plan_segments item_id st (plan_segments parsed) of (st1, evs) \<Rightarrow> (Some st1, evs))
                else (Some st, []))
           | None \<Rightarrow>
               (if shown_text parsed = [] then (None, [])
                else (None, [Message_Delta item_id (shown_text parsed)])))"

section \<open>One parser per item\<close>

record assistant_message_stream_parsers =
  parsers_plan_mode :: bool
  parsers_by_item :: "str \<rightharpoonup> assistant_text_stream_parser"

definition parsers_new :: "bool \<Rightarrow> assistant_message_stream_parsers" where
  "parsers_new mode = \<lparr>parsers_plan_mode = mode, parsers_by_item = Map.empty\<rparr>"

text \<open>\<open>parser_mut\<close>: the item's parser, made on first use.\<close>

definition parser_of :: "assistant_message_stream_parsers \<Rightarrow> str \<Rightarrow> assistant_text_stream_parser option" where
  "parser_of ps item_id =
     (case parsers_by_item ps item_id of
        Some p \<Rightarrow> Some p
      | None \<Rightarrow> assistant_new (parsers_plan_mode ps))"

definition parse_delta ::
  "assistant_message_stream_parsers \<Rightarrow> str \<Rightarrow> str \<Rightarrow>
   (assistant_message_stream_parsers \<times> assistant_text_chunk) option" where
  "parse_delta ps item_id delta =
     (case parser_of ps item_id of
        None \<Rightarrow> None
      | Some p \<Rightarrow>
          (case assistant_push_str p delta of
             None \<Rightarrow> None
           | Some (q, out) \<Rightarrow> Some (ps\<lparr>parsers_by_item := (parsers_by_item ps)(item_id \<mapsto> q)\<rparr>, out)))"

definition seed_item_text ::
  "assistant_message_stream_parsers \<Rightarrow> str \<Rightarrow> str \<Rightarrow>
   (assistant_message_stream_parsers \<times> assistant_text_chunk) option" where
  "seed_item_text ps item_id t =
     (if t = [] then Some (ps, empty_assistant_chunk) else parse_delta ps item_id t)"

definition finish_item ::
  "assistant_message_stream_parsers \<Rightarrow> str \<Rightarrow> assistant_message_stream_parsers \<times> assistant_text_chunk" where
  "finish_item ps item_id =
     (case parsers_by_item ps item_id of
        None \<Rightarrow> (ps, empty_assistant_chunk)
      | Some p \<Rightarrow>
          (ps\<lparr>parsers_by_item := (parsers_by_item ps)(item_id := None)\<rparr>, snd (assistant_finish p)))"

text \<open>
  \<open>drain_finished\<close>: the items leave the hash map in an order that the map decides, so it is an
  argument, a list of the map's keys.
\<close>

definition drain_finished ::
  "assistant_message_stream_parsers \<Rightarrow> str list \<Rightarrow>
   assistant_message_stream_parsers \<times> (str \<times> assistant_text_chunk) list" where
  "drain_finished ps order =
     (ps\<lparr>parsers_by_item := Map.empty\<rparr>,
      concat (map (\<lambda>item_id. case parsers_by_item ps item_id of
                               None \<Rightarrow> []
                             | Some p \<Rightarrow> [(item_id, snd (assistant_finish p))]) order))"

definition flush_assistant_text_segments_for_item ::
  "plan_mode_stream_state option \<Rightarrow> assistant_message_stream_parsers \<Rightarrow> str \<Rightarrow>
   plan_mode_stream_state option \<times> assistant_message_stream_parsers \<times> client_event list" where
  "flush_assistant_text_segments_for_item st ps item_id =
     (case finish_item ps item_id of
        (ps1, parsed) \<Rightarrow>
          (case emit_streamed_assistant_text_delta st item_id parsed of (st1, evs) \<Rightarrow> (st1, ps1, evs)))"

fun emit_all ::
  "plan_mode_stream_state option \<Rightarrow> (str \<times> assistant_text_chunk) list \<Rightarrow>
   plan_mode_stream_state option \<times> client_event list" where
  "emit_all st [] = (st, [])"
| "emit_all st ((item_id, parsed) # rest) =
     (case emit_streamed_assistant_text_delta st item_id parsed of
        (st1, evs) \<Rightarrow> (case emit_all st1 rest of (st2, more_evs) \<Rightarrow> (st2, evs @ more_evs)))"

definition flush_assistant_text_segments_all ::
  "plan_mode_stream_state option \<Rightarrow> assistant_message_stream_parsers \<Rightarrow> str list \<Rightarrow>
   plan_mode_stream_state option \<times> assistant_message_stream_parsers \<times> client_event list" where
  "flush_assistant_text_segments_all st ps order =
     (case drain_finished ps order of
        (ps1, drained) \<Rightarrow> (case emit_all st drained of (st1, evs) \<Rightarrow> (st1, ps1, evs)))"

section \<open>The end of an item\<close>

definition assistant_output_text :: "content_item list \<Rightarrow> str" where
  "assistant_output_text content =
     concat (map (\<lambda>entry. case entry of Output_Text t \<Rightarrow> t | _ \<Rightarrow> []) content)"

text \<open>\<open>None\<close> is a citation parser that does not return.\<close>

definition maybe_complete_plan_item_from_message ::
  "plan_mode_stream_state \<Rightarrow> response_item \<Rightarrow> (plan_mode_stream_state \<times> client_event list) option" where
  "maybe_complete_plan_item_from_message st item =
     (case item of
        Message _ role content _ \<Rightarrow>
          (if role = lit ''assistant''
           then (case extract_proposed_plan_text (assistant_output_text content) of
                   None \<Rightarrow> Some (st, [])
                 | Some raw_plan \<Rightarrow>
                     map_option (\<lambda>(plan_text, _).
                       let (st1, evs) =
                             (if plan_started (plan_item_state st) then (st, []) else plan_item_ensure_started st);
                           (ps, more_evs) = plan_item_complete_with_text (plan_item_state st1) plan_text
                       in (st1\<lparr>plan_item_state := ps\<rparr>, evs @ more_evs)) (strip_citations raw_plan))
           else Some (st, []))
      | _ \<Rightarrow> Some (st, []))"

definition emit_agent_message_in_plan_mode ::
  "plan_mode_stream_state \<Rightarrow> agent_message_item \<Rightarrow> plan_mode_stream_state \<times> client_event list" where
  "emit_agent_message_in_plan_mode st msg =
     (let mid = agent_message_id msg
      in if trim (agent_message_text msg) = []
         then (st\<lparr>pending_agent_message_items := (pending_agent_message_items st)(mid := None),
                  started_agent_message_items := started_agent_message_items st - {mid}\<rparr>, [])
         else
           let (st1, evs) = maybe_emit_pending_agent_message_start st mid;
               (st2, more_evs) =
                 (if mid \<notin> started_agent_message_items st1
                  then (st1\<lparr>pending_agent_message_items := (pending_agent_message_items st1)(mid := None),
                            started_agent_message_items := insert mid (started_agent_message_items st1)\<rparr>,
                        [Item_Started (case pending_agent_message_items st1 mid of
                           Some item \<Rightarrow> item
                         | None \<Rightarrow> Agent_Message_Item \<lparr>agent_message_id = mid, agent_message_content = [],
                             agent_message_phase = None, agent_message_citation = None\<rparr>)])
                  else (st1, []))
           in (st2\<lparr>started_agent_message_items := started_agent_message_items st2 - {mid}\<rparr>,
               evs @ more_evs @ [Item_Completed (Agent_Message_Item msg)]))"

definition turn_item_id :: "turn_item \<Rightarrow> str" where
  "turn_item_id item =
     (case item of Agent_Message_Item msg \<Rightarrow> agent_message_id msg | Plan_Item i _ \<Rightarrow> i | Other_Turn_Item i \<Rightarrow> i)"

definition emit_turn_item_in_plan_mode ::
  "plan_mode_stream_state \<Rightarrow> turn_item \<Rightarrow> turn_item option \<Rightarrow> plan_mode_stream_state \<times> client_event list" where
  "emit_turn_item_in_plan_mode st item previously_active_item =
     (case item of
        Agent_Message_Item msg \<Rightarrow> emit_agent_message_in_plan_mode st msg
      | _ \<Rightarrow> (st, (if previously_active_item = None then [Item_Started item] else []) @ [Item_Completed item]))"

text \<open>
  \<open>handle_assistant_item_done_in_plan_mode\<close>, without the history it writes: the result says whether the item
  was handled. \<open>finalized\<close> is what \<open>finalize_non_tool_response_item\<close> makes of the item.
\<close>

definition handle_assistant_item_done_in_plan_mode ::
  "plan_mode_stream_state \<Rightarrow> response_item \<Rightarrow> turn_item option \<Rightarrow> turn_item option \<Rightarrow>
   (plan_mode_stream_state \<times> client_event list \<times> bool) option" where
  "handle_assistant_item_done_in_plan_mode st item finalized previously_active_item =
     (case item of
        Message _ role _ _ \<Rightarrow>
          (if role = lit ''assistant''
           then (case maybe_complete_plan_item_from_message st item of
                   None \<Rightarrow> None
                 | Some (st1, evs) \<Rightarrow>
                     (case finalized of
                        None \<Rightarrow> Some (st1, evs, True)
                      | Some item1 \<Rightarrow>
                          (case emit_turn_item_in_plan_mode st1 item1 previously_active_item of
                             (st2, evs2) \<Rightarrow> Some (st2, evs @ evs2, True))))
           else Some (st, [], False))
      | _ \<Rightarrow> Some (st, [], False))"

text \<open>
  \<open>handle_output_item_done\<close> as far as the client sees it. \<open>ToolRouter::build_tool_call\<close> decides the outcome; an
  error that ends the turn is the end of the stream.
\<close>

datatype tool_call_outcome = Tool_Call | No_Tool_Call | Respond_To_Model

definition handle_output_item_done ::
  "tool_call_outcome \<Rightarrow> turn_item option \<Rightarrow> turn_item option \<Rightarrow> client_event list" where
  "handle_output_item_done outcome finalized previously_active_item =
     (case outcome of
        No_Tool_Call \<Rightarrow>
          (case finalized of
             None \<Rightarrow> []
           | Some item \<Rightarrow> (if previously_active_item = None then [Item_Started item] else []) @ [Item_Completed item])
      | _ \<Rightarrow> [])"

section \<open>The stream of a turn\<close>

text \<open>
  The build and whether contributors to turn items are installed, fixed for the turn; and the variables
  of the loop. The plan state is there exactly in plan mode.
\<close>

record stream_config =
  debug_build :: bool
  defer_streamed_turn_items :: bool

record turn_stream =
  stream_plan_state :: "plan_mode_stream_state option"
  stream_parsers :: assistant_message_stream_parsers
  active_item :: "turn_item option"
  active_item_is_streaming_to_client :: bool

definition turn_stream_new :: "bool \<Rightarrow> str \<Rightarrow> turn_stream" where
  "turn_stream_new mode turn_id =
     \<lparr>stream_plan_state = (if mode then Some (plan_mode_new turn_id) else None),
      stream_parsers = parsers_new mode, active_item = None, active_item_is_streaming_to_client = False\<rparr>"

definition raw_assistant_output_text_from_item :: "response_item \<Rightarrow> str option" where
  "raw_assistant_output_text_from_item item =
     (case item of
        Message _ role content _ \<Rightarrow> if role = lit ''assistant'' then Some (assistant_output_text content) else None
      | _ \<Rightarrow> None)"

text \<open>
  The text a message already has when it is added goes through its parser. The result is the parsers, the
  item as it is announced and, in plan mode, what was parsed.
\<close>

definition seed_turn_item ::
  "turn_stream \<Rightarrow> turn_item \<Rightarrow> str option \<Rightarrow>
   (assistant_message_stream_parsers \<times> turn_item \<times> assistant_text_chunk option) option" where
  "seed_turn_item ts item raw_text =
     (case (item, raw_text) of
        (Agent_Message_Item msg, Some raw) \<Rightarrow>
          (case seed_item_text (stream_parsers ts) (agent_message_id msg) raw of
             None \<Rightarrow> None
           | Some (ps, seeded) \<Rightarrow>
               let mode = (stream_plan_state ts \<noteq> None)
               in Some (ps,
                    Agent_Message_Item (msg\<lparr>agent_message_content := [if mode then [] else shown_text seeded]\<rparr>),
                    if mode then Some seeded else None))
      | _ \<Rightarrow> Some (stream_parsers ts, item, None))"

definition announce_turn_item ::
  "plan_mode_stream_state option \<Rightarrow> turn_item \<Rightarrow> assistant_text_chunk option \<Rightarrow>
   plan_mode_stream_state option \<times> client_event list" where
  "announce_turn_item plan_mode_state item seeded =
     (let (st, evs) =
            (case (plan_mode_state, item) of
               (Some st, Agent_Message_Item msg) \<Rightarrow>
                 (Some (st\<lparr>pending_agent_message_items :=
                    (pending_agent_message_items st)(agent_message_id msg \<mapsto> item)\<rparr>), [])
             | _ \<Rightarrow> (plan_mode_state, [Item_Started item]))
      in case (st, seeded) of
           (Some st1, Some parsed) \<Rightarrow>
             (case emit_streamed_assistant_text_delta (Some st1) (turn_item_id item) parsed of
                (st2, evs2) \<Rightarrow> (st2, evs @ evs2))
         | _ \<Rightarrow> (st, evs))"

text \<open>
  \<open>OutputItemAdded\<close>; \<open>added\<close> is what \<open>handle_non_tool_response_item\<close> makes of the item. The consumer of tool
  arguments is left out.
\<close>

definition output_item_added ::
  "stream_config \<Rightarrow> turn_stream \<Rightarrow> response_item \<Rightarrow> turn_item option \<Rightarrow>
   (turn_stream \<times> client_event list) option" where
  "output_item_added cfg ts item added =
     (case added of
        None \<Rightarrow> Some (ts, [])
      | Some turn_item \<Rightarrow>
          if defer_streamed_turn_items cfg
          then Some (ts\<lparr>active_item := Some turn_item, active_item_is_streaming_to_client := False\<rparr>, [])
          else
            (case seed_turn_item ts turn_item (raw_assistant_output_text_from_item item) of
               None \<Rightarrow> None
             | Some (ps, turn_item1, seeded) \<Rightarrow>
                 (case announce_turn_item (stream_plan_state ts) turn_item1 seeded of
                    (st, evs) \<Rightarrow>
                      Some (\<lparr>stream_plan_state = st, stream_parsers = ps, active_item = Some turn_item1,
                             active_item_is_streaming_to_client = True\<rparr>, evs))))"

text \<open>\<open>OutputTextDelta\<close>: \<open>None\<close> is the panic of a debug build when no item is active.\<close>

definition output_text_delta ::
  "stream_config \<Rightarrow> turn_stream \<Rightarrow> str \<Rightarrow> (turn_stream \<times> client_event list) option" where
  "output_text_delta cfg ts delta =
     (case active_item ts of
        None \<Rightarrow> if debug_build cfg then None else Some (ts, [])
      | Some active \<Rightarrow>
          if \<not> active_item_is_streaming_to_client ts then Some (ts, [])
          else
            (case active of
               Agent_Message_Item msg \<Rightarrow>
                 (case parse_delta (stream_parsers ts) (agent_message_id msg) delta of
                    None \<Rightarrow> None
                  | Some (ps, parsed) \<Rightarrow>
                      (case emit_streamed_assistant_text_delta (stream_plan_state ts) (agent_message_id msg) parsed of
                         (st, evs) \<Rightarrow> Some (ts\<lparr>stream_plan_state := st, stream_parsers := ps\<rparr>, evs)))
             | _ \<Rightarrow> Some (ts, [Message_Delta (turn_item_id active) delta])))"

text \<open>\<open>OutputItemDone\<close>: the parser of a streamed message is flushed, then the item is completed.\<close>

definition output_item_done ::
  "turn_stream \<Rightarrow> response_item \<Rightarrow> tool_call_outcome \<Rightarrow> turn_item option \<Rightarrow>
   (turn_stream \<times> client_event list) option" where
  "output_item_done ts item outcome finalized =
     (let previously_streamed_item = (if active_item_is_streaming_to_client ts then active_item ts else None);
          (plan_mode_state, ps, evs) =
            (case previously_streamed_item of
               Some (Agent_Message_Item msg) \<Rightarrow>
                 flush_assistant_text_segments_for_item (stream_plan_state ts) (stream_parsers ts) (agent_message_id msg)
             | _ \<Rightarrow> (stream_plan_state ts, stream_parsers ts, []))
      in case plan_mode_state of
           None \<Rightarrow>
             Some (\<lparr>stream_plan_state = None, stream_parsers = ps, active_item = None,
                    active_item_is_streaming_to_client = False\<rparr>,
                   evs @ handle_output_item_done outcome finalized previously_streamed_item)
         | Some st \<Rightarrow>
             (case handle_assistant_item_done_in_plan_mode st item finalized previously_streamed_item of
                None \<Rightarrow> None
              | Some (st1, evs1, handled) \<Rightarrow>
                  Some (\<lparr>stream_plan_state = Some st1, stream_parsers = ps, active_item = None,
                         active_item_is_streaming_to_client = False\<rparr>,
                        evs @ evs1 @
                        (if handled then [] else handle_output_item_done outcome finalized previously_streamed_item))))"

definition response_completed ::
  "turn_stream \<Rightarrow> str list \<Rightarrow> turn_stream \<times> client_event list" where
  "response_completed ts order =
     (case flush_assistant_text_segments_all (stream_plan_state ts) (stream_parsers ts) order of
        (st, ps, evs) \<Rightarrow> (ts\<lparr>stream_plan_state := st, stream_parsers := ps\<rparr>, evs))"

datatype stream_input =
    Output_Item_Added response_item "turn_item option"
  | Output_Text_Delta str
  | Output_Item_Done response_item tool_call_outcome "turn_item option"
  | Response_Completed "str list"

fun stream_step :: "stream_config \<Rightarrow> turn_stream \<Rightarrow> stream_input \<Rightarrow> (turn_stream \<times> client_event list) option" where
  "stream_step cfg ts (Output_Item_Added item added) = output_item_added cfg ts item added"
| "stream_step cfg ts (Output_Text_Delta delta) = output_text_delta cfg ts delta"
| "stream_step cfg ts (Output_Item_Done item outcome finalized) = output_item_done ts item outcome finalized"
| "stream_step cfg ts (Response_Completed order) = Some (response_completed ts order)"

fun stream_run ::
  "stream_config \<Rightarrow> turn_stream \<Rightarrow> stream_input list \<Rightarrow> (turn_stream \<times> client_event list) option" where
  "stream_run cfg ts [] = Some (ts, [])"
| "stream_run cfg ts (i # inputs) =
     (case stream_step cfg ts i of
        None \<Rightarrow> None
      | Some (ts1, evs) \<Rightarrow>
          (case stream_run cfg ts1 inputs of
             None \<Rightarrow> None
           | Some (ts2, more_evs) \<Rightarrow> Some (ts2, evs @ more_evs)))"

section \<open>The life cycle of the plan item\<close>

text \<open>What a client may see of the plan item: one start, then deltas, then at most one completion.\<close>

datatype plan_phase = Plan_Idle | Plan_Open | Plan_Done

fun plan_monitor :: "str \<Rightarrow> plan_phase \<Rightarrow> client_event \<Rightarrow> plan_phase option" where
  "plan_monitor pid ph (Item_Started (Plan_Item i t)) = (if ph = Plan_Idle \<and> i = pid then Some Plan_Open else None)"
| "plan_monitor pid ph (Plan_Delta i t) = (if ph = Plan_Open \<and> i = pid then Some Plan_Open else None)"
| "plan_monitor pid ph (Item_Completed (Plan_Item i t)) = (if ph = Plan_Open \<and> i = pid then Some Plan_Done else None)"
| "plan_monitor pid ph _ = Some ph"

fun plan_monitors :: "str \<Rightarrow> plan_phase \<Rightarrow> client_event list \<Rightarrow> plan_phase option" where
  "plan_monitors pid ph [] = Some ph"
| "plan_monitors pid ph (e # es) =
     (case plan_monitor pid ph e of None \<Rightarrow> None | Some ph' \<Rightarrow> plan_monitors pid ph' es)"

lemma plan_monitors_append:
  "plan_monitors pid ph (a @ b) =
     (case plan_monitors pid ph a of None \<Rightarrow> None | Some ph' \<Rightarrow> plan_monitors pid ph' b)"
  by (induction a arbitrary: ph) (auto split: option.splits)

definition phase_of :: "plan_mode_stream_state \<Rightarrow> plan_phase" where
  "phase_of st =
     (if plan_completed (plan_item_state st) then Plan_Done
      else if plan_started (plan_item_state st) then Plan_Open else Plan_Idle)"

fun is_plan_item :: "turn_item \<Rightarrow> bool" where
  "is_plan_item (Plan_Item _ _) = True"
| "is_plan_item _ = False"

text \<open>The monitor follows the state, and only messages wait for their start.\<close>

definition no_pending_plan :: "plan_mode_stream_state \<Rightarrow> bool" where
  "no_pending_plan st \<longleftrightarrow> (\<forall>i item. pending_agent_message_items st i = Some item \<longrightarrow> \<not> is_plan_item item)"

definition follows :: "str \<Rightarrow> plan_mode_stream_state \<Rightarrow> plan_mode_stream_state \<times> client_event list \<Rightarrow> bool" where
  "follows pid st r \<longleftrightarrow>
     plan_item_id (plan_item_state (fst r)) = pid \<and> no_pending_plan (fst r) \<and>
     plan_monitors pid (phase_of st) (snd r) = Some (phase_of (fst r))"

definition plan_state_ok :: "str \<Rightarrow> plan_mode_stream_state \<Rightarrow> bool" where
  "plan_state_ok pid st \<longleftrightarrow> plan_item_id (plan_item_state st) = pid \<and> no_pending_plan st"

lemma follows_refl: "plan_state_ok pid st \<Longrightarrow> follows pid st (st, [])"
  by (simp add: follows_def plan_state_ok_def)

lemma follows_ok: "follows pid st r \<Longrightarrow> plan_state_ok pid (fst r)"
  by (simp add: follows_def plan_state_ok_def)

lemma follows_trans:
  "follows pid st (st1, a) \<Longrightarrow> follows pid st1 (st2, b) \<Longrightarrow> follows pid st (st2, a @ b)"
  by (simp add: follows_def plan_monitors_append)

lemma started_item_monitor [simp]: "\<not> is_plan_item item \<Longrightarrow> plan_monitor pid ph (Item_Started item) = Some ph"
  by (cases item) simp_all

lemma completed_item_monitor [simp]: "\<not> is_plan_item item \<Longrightarrow> plan_monitor pid ph (Item_Completed item) = Some ph"
  by (cases item) simp_all

lemma message_start_follows:
  "plan_state_ok pid st \<Longrightarrow> follows pid st (maybe_emit_pending_agent_message_start st i)"
  by (auto simp: maybe_emit_pending_agent_message_start_def follows_def plan_state_ok_def no_pending_plan_def
      phase_of_def split: option.splits)

lemma ensure_started_follows:
  "plan_state_ok pid st \<Longrightarrow> follows pid st (plan_item_ensure_started st)"
  by (auto simp: plan_item_ensure_started_def plan_item_start_def follows_def plan_state_ok_def no_pending_plan_def
      phase_of_def)

lemma normal_segment_follows:
  assumes "plan_state_ok pid st"
  shows "follows pid st (handle_normal_segment st i t)"
proof -
  have same: "plan_state_ok pid (st\<lparr>leading_whitespace_by_item := w\<rparr>)"
    "phase_of (st\<lparr>leading_whitespace_by_item := w\<rparr>) = phase_of st" for w
    using assms by (simp_all add: plan_state_ok_def no_pending_plan_def phase_of_def)
  have start: "follows pid st (fst r, snd r @ [Message_Delta i d])"
    if "r = maybe_emit_pending_agent_message_start st1 i" "plan_state_ok pid st1" "phase_of st1 = phase_of st"
    for r st1 d
    using message_start_follows[OF that(2), of i] that(1,3) by (simp add: follows_def plan_monitors_append)
  have quiet: "follows pid st (st\<lparr>leading_whitespace_by_item := w\<rparr>, [])" for w
    using same assms by (simp add: follows_def plan_state_ok_def)
  show ?thesis
    unfolding handle_normal_segment_def
    using start[OF refl assms refl] start[OF refl same] assms
    by (auto simp: Let_def case_prod_unfold follows_refl quiet split: option.splits)
qed

lemma plan_segment_follows: "plan_state_ok pid st \<Longrightarrow> follows pid st (handle_plan_segment i st seg)"
proof (cases seg)
  case (ProposedPlanDelta t)
  assume ok: "plan_state_ok pid st"
  show ?thesis
  proof (cases "plan_completed (plan_item_state st)")
    case False
    define r where "r = (if plan_started (plan_item_state st) then (st, []) else plan_item_ensure_started st)"
    have r: "follows pid st r"
      using ok False ensure_started_follows follows_refl by (auto simp: r_def)
    have "phase_of (fst r) = Plan_Open" "\<not> plan_completed (plan_item_state (fst r))"
      using False by (auto simp: r_def plan_item_ensure_started_def plan_item_start_def phase_of_def)
    then have "follows pid (fst r) (fst r, plan_item_push_delta (plan_item_state (fst r)) t)"
      using follows_ok[OF r] by (auto simp: follows_def plan_state_ok_def plan_item_push_delta_def)
    then show ?thesis
      using follows_trans[of pid st "fst r" "snd r"] r False ProposedPlanDelta
      by (simp add: Let_def case_prod_unfold r_def[symmetric])
  qed (use ok ProposedPlanDelta in \<open>simp add: follows_refl\<close>)
qed (auto simp: follows_refl ensure_started_follows normal_segment_follows)

lemma plan_segments_follow: "plan_state_ok pid st \<Longrightarrow> follows pid st (handle_plan_segments i st segs)"
proof (induction segs arbitrary: st)
  case (Cons seg segs)
  obtain st1 evs where 1: "handle_plan_segment i st seg = (st1, evs)" by fastforce
  obtain st2 evs2 where 2: "handle_plan_segments i st1 segs = (st2, evs2)" by fastforce
  have "follows pid st (st1, evs)" using plan_segment_follows[OF Cons.prems, of i seg] 1 by simp
  moreover from follows_ok[OF this] have "follows pid st1 (st2, evs2)" using Cons.IH[of st1] 2 by simp
  ultimately show ?case using 1 2 follows_trans by simp
qed (simp add: follows_refl)

lemma emit_streamed_follows:
  assumes "plan_state_ok pid st"
  shows "\<exists>st1 evs. emit_streamed_assistant_text_delta (Some st) i parsed = (Some st1, evs) \<and> follows pid st (st1, evs)"
  using plan_segments_follow[OF assms, of i "plan_segments parsed"] follows_refl[OF assms]
  by (auto simp: emit_streamed_assistant_text_delta_def split: prod.splits)

lemma emit_all_follows:
  "plan_state_ok pid st \<Longrightarrow> \<exists>st1 evs. emit_all (Some st) xs = (Some st1, evs) \<and> follows pid st (st1, evs)"
proof (induction xs arbitrary: st)
  case (Cons x xs)
  obtain i parsed where x: "x = (i, parsed)" by fastforce
  obtain st1 evs where 1: "emit_streamed_assistant_text_delta (Some st) i parsed = (Some st1, evs)"
    "follows pid st (st1, evs)" using emit_streamed_follows[OF Cons.prems] by blast
  obtain st2 evs2 where "emit_all (Some st1) xs = (Some st2, evs2)" "follows pid st1 (st2, evs2)"
    using Cons.IH[of st1] follows_ok[OF 1(2)] by auto
  then show ?case using 1 x follows_trans[OF 1(2)] by simp
qed (simp add: follows_refl)

lemma strip_citations_returns: "strip_citations t \<noteq> None"
  using citations.run_split[OF citation_parser_ready, of "[t]"] by (auto simp: strip_citations_run)

lemma complete_plan_follows:
  assumes "plan_state_ok pid st"
  shows "\<exists>st1 evs. maybe_complete_plan_item_from_message st item = Some (st1, evs) \<and> follows pid st (st1, evs)"
proof (cases "\<exists>mid content phase t. item = Message mid (lit ''assistant'') content phase \<and>
    extract_proposed_plan_text (assistant_output_text content) = Some t")
  case False
  then have "maybe_complete_plan_item_from_message st item = Some (st, [])"
    by (auto simp: maybe_complete_plan_item_from_message_def split: response_item.splits option.splits)
  then show ?thesis using follows_refl[OF assms] by simp
next
  case True
  then obtain mid content phase raw where item: "item = Message mid (lit ''assistant'') content phase"
    "extract_proposed_plan_text (assistant_output_text content) = Some raw" by blast
  obtain t cites where strip: "strip_citations raw = Some (t, cites)"
    using strip_citations_returns[of raw] by auto
  define r where "r = (if plan_started (plan_item_state st) then (st, []) else plan_item_ensure_started st)"
  have r: "follows pid st r"
    using follows_refl[OF assms] ensure_started_follows[OF assms] by (simp add: r_def)
  have "follows pid (fst r) ((fst r)\<lparr>plan_item_state := fst (plan_item_complete_with_text (plan_item_state (fst r)) t)\<rparr>,
      snd (plan_item_complete_with_text (plan_item_state (fst r)) t))"
    using follows_ok[OF r]
    by (auto simp: plan_item_complete_with_text_def follows_def plan_state_ok_def no_pending_plan_def phase_of_def)
  then have "follows pid st ((fst r)\<lparr>plan_item_state := fst (plan_item_complete_with_text (plan_item_state (fst r)) t)\<rparr>,
      snd r @ snd (plan_item_complete_with_text (plan_item_state (fst r)) t))"
    using follows_trans[of pid st "fst r" "snd r"] r by simp
  then show ?thesis
    using item strip
    by (simp add: maybe_complete_plan_item_from_message_def Let_def case_prod_unfold r_def[symmetric])
qed

lemma emit_message_follows:
  assumes "plan_state_ok pid st"
  shows "follows pid st (emit_agent_message_in_plan_mode st msg)"
proof -
  obtain st1 evs where 1: "maybe_emit_pending_agent_message_start st (agent_message_id msg) = (st1, evs)" by fastforce
  have f: "follows pid st (st1, evs)" using message_start_follows[OF assms] 1 by metis
  then have ok: "plan_state_ok pid st1" "phase_of st1 = phase_of st \<Longrightarrow> True" using follows_ok by force+
  show ?thesis
    using f ok(1) assms
    by (auto simp: emit_agent_message_in_plan_mode_def Let_def 1 follows_def plan_state_ok_def no_pending_plan_def
        phase_of_def plan_monitors_append split: option.splits)
qed

lemma emit_item_follows:
  assumes "plan_state_ok pid st" "\<not> is_plan_item item"
  shows "follows pid st (emit_turn_item_in_plan_mode st item previous)"
  using assms emit_message_follows[OF assms(1)]
  by (cases item) (auto simp: emit_turn_item_in_plan_mode_def follows_def plan_state_ok_def)

section \<open>Every input is handled\<close>

definition parsers_ready :: "assistant_message_stream_parsers \<Rightarrow> bool" where
  "parsers_ready ps \<longleftrightarrow> (\<forall>i p. parsers_by_item ps i = Some p \<longrightarrow> inline_ready (citation_stream p))"

lemma assistant_push_ready:
  assumes "inline_ready (citation_stream p)"
  shows "\<exists>q out. assistant_push_str p t = Some (q, out) \<and> inline_ready (citation_stream q)"
proof -
  obtain c o1 where c: "citation_push_str (citation_stream p) t = Some (c, o1)" "inline_ready c"
    using citations.push_obtain[OF assms] by blast
  obtain r w es where "visible_view (plan_mode p) (plan_stream p) (visible_text o1) = (r, w, es)" by (metis prod_cases3)
  from assistant_push_view[OF c(1) this] show ?thesis using c(2) by fastforce
qed

lemma parse_delta_ready:
  assumes "parsers_ready ps"
  shows "\<exists>ps1 out. parse_delta ps i t = Some (ps1, out) \<and> parsers_ready ps1"
proof -
  have "assistant_new mode = Some \<lparr>plan_mode = mode, citation_stream = citation_parser, plan_stream = plan_new\<rparr>" for mode
    by (simp add: assistant_new_def citation_new_eq)
  then obtain p where p: "parser_of ps i = Some p" "inline_ready (citation_stream p)"
    using assms citation_parser_ready
    by (cases "parsers_by_item ps i") (auto simp: parser_of_def parsers_ready_def)
  from assistant_push_ready[OF p(2), of t] show ?thesis
    using assms p(1) by (auto simp: parse_delta_def parsers_ready_def)
qed

lemma seed_item_ready:
  "parsers_ready ps \<Longrightarrow> \<exists>ps1 out. seed_item_text ps i t = Some (ps1, out) \<and> parsers_ready ps1"
  using parse_delta_ready[of ps i t] by (simp add: seed_item_text_def)

definition stream_ok :: "str \<Rightarrow> turn_stream \<Rightarrow> bool" where
  "stream_ok pid ts \<longleftrightarrow> parsers_ready (stream_parsers ts) \<and>
     (\<exists>st. stream_plan_state ts = Some st \<and> plan_state_ok pid st)"

fun input_ok :: "stream_input \<Rightarrow> bool" where
  "input_ok (Output_Item_Added _ (Some item)) = (\<not> is_plan_item item)"
| "input_ok (Output_Item_Done _ _ (Some item)) = (\<not> is_plan_item item)"
| "input_ok _ = True"

definition step_follows :: "str \<Rightarrow> turn_stream \<Rightarrow> turn_stream \<times> client_event list \<Rightarrow> bool" where
  "step_follows pid ts r \<longleftrightarrow> parsers_ready (stream_parsers (fst r)) \<and>
     (\<exists>st st1. stream_plan_state ts = Some st \<and> stream_plan_state (fst r) = Some st1 \<and> follows pid st (st1, snd r))"

lemma finish_item_ready: "parsers_ready ps \<Longrightarrow> parsers_ready (fst (finish_item ps i))"
  by (auto simp: parsers_ready_def finish_item_def split: option.splits if_splits)

lemma flush_item_follows:
  assumes "plan_state_ok pid st" "parsers_ready ps"
  shows "\<exists>st1 ps1 evs. flush_assistant_text_segments_for_item (Some st) ps i = (Some st1, ps1, evs) \<and>
    parsers_ready ps1 \<and> follows pid st (st1, evs)"
proof -
  obtain ps1 parsed where ps: "finish_item ps i = (ps1, parsed)" by fastforce
  obtain st1 evs where "emit_streamed_assistant_text_delta (Some st) i parsed = (Some st1, evs)"
    "follows pid st (st1, evs)" using emit_streamed_follows[OF assms(1)] by blast
  then show ?thesis
    using ps finish_item_ready[OF assms(2), of i] by (simp add: flush_assistant_text_segments_for_item_def)
qed

lemma output_item_done_events_follow:
  assumes "plan_state_ok pid st" "input_ok (Output_Item_Done item outcome finalized)"
  shows "follows pid st (st, handle_output_item_done outcome finalized previous)"
  using assms
  by (cases finalized)
    (auto simp: handle_output_item_done_def follows_def plan_state_ok_def split: tool_call_outcome.splits)

lemma item_done_in_plan_mode_follows:
  assumes "plan_state_ok pid st" "input_ok (Output_Item_Done item outcome finalized)"
  shows "\<exists>st1 evs handled. handle_assistant_item_done_in_plan_mode st item finalized previous = Some (st1, evs, handled) \<and>
    follows pid st (st1, evs)"
proof (cases "\<exists>mid content phase. item = Message mid (lit ''assistant'') content phase")
  case False
  then have "handle_assistant_item_done_in_plan_mode st item finalized previous = Some (st, [], False)"
    by (auto simp: handle_assistant_item_done_in_plan_mode_def split: response_item.splits)
  then show ?thesis using follows_refl[OF assms(1)] by blast
next
  case True
  obtain st1 evs where 1: "maybe_complete_plan_item_from_message st item = Some (st1, evs)" "follows pid st (st1, evs)"
    using complete_plan_follows[OF assms(1), of item] by auto
  show ?thesis
  proof (cases finalized)
    case None
    then show ?thesis using True 1 by (auto simp: handle_assistant_item_done_in_plan_mode_def)
  next
    case (Some item1)
    obtain st2 evs2 where 2: "emit_turn_item_in_plan_mode st1 item1 previous = (st2, evs2)" by fastforce
    have "follows pid st1 (st2, evs2)"
      using emit_item_follows[of pid st1 item1 previous] follows_ok[OF 1(2)] assms(2) Some 2 by simp
    then show ?thesis
      using True 1 2 Some follows_trans[OF 1(2)] by (auto simp: handle_assistant_item_done_in_plan_mode_def)
  qed
qed

lemma output_item_done_follows:
  assumes "stream_ok pid ts" "input_ok (Output_Item_Done item outcome finalized)"
  shows "\<exists>r. output_item_done ts item outcome finalized = Some r \<and> step_follows pid ts r"
proof -
  obtain st where st: "stream_plan_state ts = Some st" "plan_state_ok pid st" "parsers_ready (stream_parsers ts)"
    using assms(1) by (auto simp: stream_ok_def)
  define previous where "previous = (if active_item_is_streaming_to_client ts then active_item ts else None)"
  obtain st1 ps evs where 1: "(case previous of
      Some (Agent_Message_Item msg) \<Rightarrow>
        flush_assistant_text_segments_for_item (stream_plan_state ts) (stream_parsers ts) (agent_message_id msg)
    | _ \<Rightarrow> (stream_plan_state ts, stream_parsers ts, [])) = (Some st1, ps, evs)" "parsers_ready ps" "follows pid st (st1, evs)"
  proof (cases "\<exists>msg. previous = Some (Agent_Message_Item msg)")
    case True
    then obtain msg where msg: "previous = Some (Agent_Message_Item msg)" by blast
    from flush_item_follows[OF st(2,3), of "agent_message_id msg"] show ?thesis using that st(1) msg by auto
  next
    case False
    show ?thesis
      by (rule that[OF _ st(3) follows_refl[OF st(2)]])
        (use False st(1) in \<open>auto split: option.splits turn_item.splits\<close>)
  qed
  obtain st2 evs2 handled where 2: "handle_assistant_item_done_in_plan_mode st1 item finalized previous =
      Some (st2, evs2, handled)" "follows pid st1 (st2, evs2)"
    using item_done_in_plan_mode_follows[of pid st1 item outcome finalized previous] follows_ok[OF 1(3)] assms(2) by auto
  define evs3 where "evs3 = (if handled then [] else handle_output_item_done outcome finalized previous)"
  have "follows pid st2 (st2, evs3)"
    using output_item_done_events_follow[of pid st2 item outcome finalized previous] follows_refl[of pid st2]
      follows_ok[OF 2(2)] assms(2) by (auto simp: evs3_def)
  then have "follows pid st (st2, evs @ evs2 @ evs3)"
    using follows_trans[OF 1(3) follows_trans[OF 2(2)]] by simp
  then show ?thesis
    using 1 2 st(1) by (simp add: output_item_done_def Let_def previous_def[symmetric] step_follows_def evs3_def)
qed

lemma announce_follows:
  assumes "plan_state_ok pid st" "\<not> is_plan_item item"
  shows "\<exists>st1 evs. announce_turn_item (Some st) item seeded = (Some st1, evs) \<and> follows pid st (st1, evs)"
proof -
  obtain st1 evs where 1: "(case (Some st, item) of
      (Some st, Agent_Message_Item msg) \<Rightarrow>
        (Some (st\<lparr>pending_agent_message_items := (pending_agent_message_items st)(agent_message_id msg \<mapsto> item)\<rparr>), [])
    | _ \<Rightarrow> (Some st, [Item_Started item])) = (Some st1, evs)" "follows pid st (st1, evs)"
    using assms
    by (cases item) (auto simp: follows_def plan_state_ok_def no_pending_plan_def phase_of_def)
  show ?thesis
  proof (cases seeded)
    case None
    then show ?thesis using 1 unfolding announce_turn_item_def Let_def by auto
  next
    case (Some parsed)
    obtain st2 evs2 where 2: "emit_streamed_assistant_text_delta (Some st1) (turn_item_id item) parsed = (Some st2, evs2)"
      "follows pid st1 (st2, evs2)"
      using emit_streamed_follows[of pid st1 "turn_item_id item" parsed] follows_ok[OF 1(2)] by auto
    then show ?thesis using 1(1) Some follows_trans[OF 1(2)] unfolding announce_turn_item_def Let_def by simp
  qed
qed

lemma seed_turn_item_ready:
  assumes "parsers_ready (stream_parsers ts)" "\<not> is_plan_item item"
  shows "\<exists>ps item1 seeded. seed_turn_item ts item raw = Some (ps, item1, seeded) \<and> parsers_ready ps \<and> \<not> is_plan_item item1"
proof (cases "\<exists>msg t. item = Agent_Message_Item msg \<and> raw = Some t")
  case True
  then obtain msg t where m: "item = Agent_Message_Item msg" "raw = Some t" by blast
  from seed_item_ready[OF assms(1), of "agent_message_id msg" t] show ?thesis
    by (auto simp: seed_turn_item_def m Let_def)
next
  case False
  then have "seed_turn_item ts item raw = Some (stream_parsers ts, item, None)"
    by (auto simp: seed_turn_item_def split: turn_item.splits option.splits)
  then show ?thesis using assms by simp
qed

lemma output_item_added_follows:
  assumes "stream_ok pid ts" "input_ok (Output_Item_Added item added)"
  shows "\<exists>r. output_item_added cfg ts item added = Some r \<and> step_follows pid ts r"
proof -
  obtain st where st: "stream_plan_state ts = Some st" "plan_state_ok pid st" "parsers_ready (stream_parsers ts)"
    using assms(1) by (auto simp: stream_ok_def)
  show ?thesis
  proof (cases "added = None \<or> defer_streamed_turn_items cfg")
    case True
    then show ?thesis
      using st follows_refl[OF st(2)] by (auto simp: output_item_added_def step_follows_def split: option.splits)
  next
    case False
    then obtain turn_item where item: "added = Some turn_item" "\<not> is_plan_item turn_item" "\<not> defer_streamed_turn_items cfg"
      using assms(2) by auto
    obtain ps item1 seeded where seed: "seed_turn_item ts turn_item (raw_assistant_output_text_from_item item) =
        Some (ps, item1, seeded)" "parsers_ready ps" "\<not> is_plan_item item1"
      using seed_turn_item_ready[OF st(3) item(2)] by blast
    then show ?thesis
      using announce_follows[OF st(2) seed(3), of seeded] item st(1) by (auto simp: output_item_added_def step_follows_def)
  qed
qed

lemma output_text_delta_follows:
  assumes "stream_ok pid ts" "\<not> debug_build cfg"
  shows "\<exists>r. output_text_delta cfg ts delta = Some r \<and> step_follows pid ts r"
proof -
  obtain st where st: "stream_plan_state ts = Some st" "plan_state_ok pid st" "parsers_ready (stream_parsers ts)"
    using assms(1) by (auto simp: stream_ok_def)
  have same: "step_follows pid ts (ts, [])" "step_follows pid ts (ts, [Message_Delta i delta])" for i
    using st by (auto simp: step_follows_def follows_def plan_state_ok_def)
  show ?thesis
  proof (cases "\<exists>msg. active_item ts = Some (Agent_Message_Item msg) \<and> active_item_is_streaming_to_client ts")
    case True
    then obtain msg where msg: "active_item ts = Some (Agent_Message_Item msg)" "active_item_is_streaming_to_client ts" by blast
    obtain ps parsed where "parse_delta (stream_parsers ts) (agent_message_id msg) delta = Some (ps, parsed)" "parsers_ready ps"
      using parse_delta_ready[OF st(3)] by blast
    moreover obtain st1 evs where "emit_streamed_assistant_text_delta (Some st) (agent_message_id msg) parsed = (Some st1, evs)"
      "follows pid st (st1, evs)" using emit_streamed_follows[OF st(2)] by blast
    ultimately show ?thesis using msg st by (simp add: output_text_delta_def step_follows_def)
  next
    case False
    then show ?thesis
      using assms(2) same by (auto simp: output_text_delta_def split: option.splits turn_item.splits)
  qed
qed

lemma response_completed_follows:
  assumes "stream_ok pid ts"
  shows "step_follows pid ts (response_completed ts order)"
proof -
  obtain st where st: "stream_plan_state ts = Some st" "plan_state_ok pid st"
    using assms by (auto simp: stream_ok_def)
  obtain ps drained where d: "drain_finished (stream_parsers ts) order = (ps, drained)" by fastforce
  then have "parsers_ready ps" by (auto simp: drain_finished_def parsers_ready_def)
  moreover obtain st1 evs where "emit_all (Some st) drained = (Some st1, evs)" "follows pid st (st1, evs)"
    using emit_all_follows[OF st(2)] by blast
  ultimately show ?thesis
    using st d by (simp add: response_completed_def flush_assistant_text_segments_all_def step_follows_def)
qed

lemma stream_step_follows:
  assumes "stream_ok pid ts" "input_ok i" "\<not> debug_build cfg"
  shows "\<exists>r. stream_step cfg ts i = Some r \<and> step_follows pid ts r"
  using assms output_item_added_follows output_text_delta_follows output_item_done_follows response_completed_follows
  by (cases i) (simp_all del: input_ok.simps)

lemma stream_run_follows:
  assumes "\<not> debug_build cfg"
  shows "stream_ok pid ts \<Longrightarrow> list_all input_ok inputs \<Longrightarrow>
    \<exists>r. stream_run cfg ts inputs = Some r \<and> step_follows pid ts r"
proof (induction inputs arbitrary: ts)
  case Nil
  then show ?case by (auto simp: step_follows_def stream_ok_def follows_refl)
next
  case (Cons i inputs)
  obtain ts1 evs where 1: "stream_step cfg ts i = Some (ts1, evs)" "step_follows pid ts (ts1, evs)"
    using stream_step_follows[of pid ts i cfg] Cons.prems assms by auto
  then have "stream_ok pid ts1" by (auto simp: step_follows_def stream_ok_def dest: follows_ok)
  then obtain ts2 evs2 where 2: "stream_run cfg ts1 inputs = Some (ts2, evs2)" "step_follows pid ts1 (ts2, evs2)"
    using Cons.IH[of ts1] Cons.prems by auto
  have "step_follows pid ts (ts2, evs @ evs2)"
    using 1(2) 2(2) by (auto simp: step_follows_def intro: follows_trans)
  then show ?case using 1(1) 2(1) by simp
qed



end
