(* ===== verification/Plan_Mode_Messages.thy ===== *)
theory Plan_Mode_Messages
  imports Plan_Mode_Stream
begin

text \<open>
  One message from its first to its last event: the parsers of the stream-parser crate, the
  per-item bookkeeping of the turn and the events sent to the client, put together. The lemmas show
  that what the client assembles from the deltas is the text that the finished message is stripped
  to, and where the completed plan item can differ from the streamed one.
\<close>

section \<open>The events of one item\<close>

fun about_message :: "str \<Rightarrow> client_event \<Rightarrow> bool" where
  "about_message i (Message_Delta j _) = (j = i)"
| "about_message i (Item_Started (Agent_Message_Item msg)) = (agent_message_id msg = i)"
| "about_message i _ = False"

definition message_events :: "str \<Rightarrow> client_event list \<Rightarrow> client_event list" where
  "message_events i evs = filter (about_message i) evs"

fun about_plan :: "client_event \<Rightarrow> bool" where
  "about_plan (Plan_Delta _ _) = True"
| "about_plan (Item_Started (Plan_Item _ _)) = True"
| "about_plan (Item_Completed (Plan_Item _ _)) = True"
| "about_plan _ = False"

definition plan_only :: "client_event list \<Rightarrow> client_event list" where
  "plan_only evs = filter about_plan evs"

lemma message_events_append [simp]: "message_events i (a @ b) = message_events i a @ message_events i b"
  by (simp add: message_events_def)

lemma plan_only_append [simp]: "plan_only (a @ b) = plan_only a @ plan_only b"
  by (simp add: plan_only_def)

definition blank :: "str \<Rightarrow> bool" where
  "blank t \<longleftrightarrow> \<not> list_ex (\<lambda>ch. \<not> is_whitespace ch) t"

lemma blank_append [simp]: "blank (a @ b) \<longleftrightarrow> blank a \<and> blank b"
  by (simp add: blank_def)

lemma blank_Nil [simp]: "blank []"
  by (simp add: blank_def)

fun normal_text :: "proposed_plan_segment \<Rightarrow> str" where
  "normal_text (PlanNormal t) = t"
| "normal_text _ = []"

fun plan_delta_text :: "proposed_plan_segment \<Rightarrow> str" where
  "plan_delta_text (ProposedPlanDelta t) = t"
| "plan_delta_text _ = []"

fun opens_plan :: "proposed_plan_segment \<Rightarrow> bool" where
  "opens_plan ProposedPlanStart = True"
| "opens_plan (ProposedPlanDelta _) = True"
| "opens_plan _ = False"

abbreviation normals :: "proposed_plan_segment list \<Rightarrow> str" where
  "normals segs \<equiv> concat (map normal_text segs)"

abbreviation plan_deltas :: "proposed_plan_segment list \<Rightarrow> str" where
  "plan_deltas segs \<equiv> concat (map plan_delta_text segs)"

text \<open>What has happened to message \<open>i\<close> after the segments \<open>segs\<close>: nothing while there is only whitespace.\<close>

definition message_view ::
  "str \<Rightarrow> turn_item \<Rightarrow> proposed_plan_segment list \<Rightarrow> plan_mode_stream_state \<Rightarrow> client_event list \<Rightarrow> bool" where
  "message_view i item segs st evs \<longleftrightarrow>
     (if blank (normals segs)
      then pending_agent_message_items st i = Some item \<and> i \<notin> started_agent_message_items st \<and>
           leading_whitespace_by_item st i = (if normals segs = [] then None else Some (normals segs)) \<and>
           message_events i evs = []
      else i \<in> started_agent_message_items st \<and>
           (\<exists>deltas. message_events i evs = Item_Started item # map (Message_Delta i) deltas \<and>
              concat deltas = normals segs))"

text \<open>What has happened to the plan item.\<close>

definition plan_view ::
  "str \<Rightarrow> proposed_plan_segment list \<Rightarrow> plan_mode_stream_state \<Rightarrow> client_event list \<Rightarrow> bool" where
  "plan_view pid segs st evs \<longleftrightarrow>
     plan_item_id (plan_item_state st) = pid \<and> \<not> plan_completed (plan_item_state st) \<and>
     plan_started (plan_item_state st) = list_ex opens_plan segs \<and>
     (\<exists>deltas. plan_only evs =
        (if list_ex opens_plan segs then Item_Started (Plan_Item pid []) # map (Plan_Delta pid) deltas else []) \<and>
        concat deltas = plan_deltas segs)"

lemma normal_segment_views:
  assumes "message_view i item segs st evs" "handle_normal_segment st i t = (st1, es)"
    and "item = Agent_Message_Item msg" "agent_message_id msg = i"
  shows "message_view i item (segs @ [PlanNormal t]) st1 (evs @ es)"
proof (cases "blank (normals segs)")
  case True
  then have st: "pending_agent_message_items st i = Some item" "i \<notin> started_agent_message_items st"
    "leading_whitespace_by_item st i = (if normals segs = [] then None else Some (normals segs))"
    "message_events i evs = []"
    using assms(1) by (auto simp: message_view_def)
  show ?thesis
  proof (cases "blank t")
    case True
    then show ?thesis
      using \<open>blank (normals segs)\<close> st assms(2)
      by (auto simp: message_view_def handle_normal_segment_def message_events_def simp flip: blank_def split: if_splits)
  next
    case False
    then have "t \<noteq> []" by auto
    then show ?thesis
      using False st assms(2-4)
      by (auto simp: message_view_def handle_normal_segment_def maybe_emit_pending_agent_message_start_def
          message_events_def Let_def intro!: exI[of _ "[normals segs @ t]"] simp flip: blank_def split: if_splits)
  qed
next
  case False
  then obtain deltas where "i \<in> started_agent_message_items st"
    "message_events i evs = Item_Started item # map (Message_Delta i) deltas" "concat deltas = normals segs"
    using assms(1) by (auto simp: message_view_def)
  then show ?thesis
    using False assms(2)
    by (cases "t = []")
      (auto simp: message_view_def handle_normal_segment_def maybe_emit_pending_agent_message_start_def
        message_events_def Let_def intro: exI[of _ deltas] exI[of _ "deltas @ [t]"])
qed

lemma ensure_started_frame:
  assumes "plan_item_ensure_started st = (st1, es)"
  shows "pending_agent_message_items st1 = pending_agent_message_items st"
    "started_agent_message_items st1 = started_agent_message_items st"
    "leading_whitespace_by_item st1 = leading_whitespace_by_item st"
    "message_events i es = []"
  using assms
  by (auto simp: plan_item_ensure_started_def plan_item_start_def message_events_def split: if_splits)

lemma segment_message_view:
  assumes "message_view i item segs st evs" "handle_plan_segment i st seg = (st1, es)"
    and "item = Agent_Message_Item msg" "agent_message_id msg = i"
  shows "message_view i item (segs @ [seg]) st1 (evs @ es)"
proof -
  have same: "message_view i item (segs @ [seg]) st1 (evs @ es)"
    if "normal_text seg = []" "pending_agent_message_items st1 = pending_agent_message_items st"
      "started_agent_message_items st1 = started_agent_message_items st"
      "leading_whitespace_by_item st1 = leading_whitespace_by_item st" "message_events i es = []"
    using assms(1) that by (simp add: message_view_def)
  show ?thesis
  proof (cases seg)
    case (PlanNormal t)
    then show ?thesis using normal_segment_views[OF assms(1) _ assms(3,4)] assms(2) by simp
  next
    case (ProposedPlanDelta t)
    obtain st2 es2 where e: "plan_item_ensure_started st = (st2, es2)" by fastforce
    have "message_events i (plan_item_push_delta ps t) = []" for ps
      by (simp add: plan_item_push_delta_def message_events_def)
    then show ?thesis
      using same ProposedPlanDelta assms(2) ensure_started_frame[OF e] e
      by (auto simp: message_events_def split: if_splits)
  next
    case ProposedPlanStart
    obtain st2 es2 where e: "plan_item_ensure_started st = (st2, es2)" by fastforce
    then show ?thesis
      using same ProposedPlanStart assms(2) ensure_started_frame[OF e] by (auto simp: message_events_def split: if_splits)
  next
    case ProposedPlanEnd
    then show ?thesis using same assms(2) by (simp add: message_events_def)
  qed
qed

lemma normal_segment_frame:
  assumes "handle_normal_segment st i t = (st1, es)" "no_pending_plan st"
  shows "plan_item_state st1 = plan_item_state st" "plan_only es = []" "no_pending_plan st1"
proof -
  have started: "about_plan (Item_Started item) \<longleftrightarrow> is_plan_item item" for item by (cases item) simp_all
  show "plan_item_state st1 = plan_item_state st" "plan_only es = []" "no_pending_plan st1"
    using assms
    by (auto simp: handle_normal_segment_def maybe_emit_pending_agent_message_start_def plan_only_def
        no_pending_plan_def started Let_def split: if_splits option.splits prod.splits)
qed

lemma segment_plan_view:
  assumes "plan_view pid segs st evs" "no_pending_plan st" "handle_plan_segment i st seg = (st1, es)"
  shows "plan_view pid (segs @ [seg]) st1 (evs @ es)" "no_pending_plan st1"
proof -
  obtain deltas where st: "plan_item_id (plan_item_state st) = pid" "\<not> plan_completed (plan_item_state st)"
    "plan_started (plan_item_state st) = list_ex opens_plan segs"
    "plan_only evs = (if list_ex opens_plan segs then Item_Started (Plan_Item pid []) # map (Plan_Delta pid) deltas else [])"
    "concat deltas = plan_deltas segs"
    using assms(1) by (auto simp: plan_view_def)
  have none: "plan_deltas segs = []" if "\<not> list_ex opens_plan segs"
    using that by (induction segs) (auto elim: opens_plan.elims)
  have "plan_view pid (segs @ [seg]) st1 (evs @ es) \<and> no_pending_plan st1"
  proof (cases seg)
    case (PlanNormal t)
    then show ?thesis
      using assms(1,3) normal_segment_frame[of st i t st1 es] assms(2) by (simp add: plan_view_def)
  next
    case ProposedPlanStart
    then show ?thesis
      using st none assms(2,3)
      by (auto simp: plan_view_def plan_item_ensure_started_def plan_item_start_def plan_only_def no_pending_plan_def
          split: if_splits)
  next
    case (ProposedPlanDelta t)
    show ?thesis
    proof (cases "list_ex opens_plan segs")
      case True
      then show ?thesis
        using st assms(2,3) ProposedPlanDelta
        by (cases "t = []") (auto simp: plan_view_def plan_item_push_delta_def plan_only_def
            intro: exI[of _ deltas] exI[of _ "deltas @ [t]"])
    next
      case False
      then show ?thesis
        using st none[OF False] assms(2,3) ProposedPlanDelta
        by (cases "t = []") (auto simp: plan_view_def plan_item_push_delta_def plan_only_def plan_item_ensure_started_def
            plan_item_start_def no_pending_plan_def intro: exI[of _ "[]"] exI[of _ "[t]"])
    qed
  next
    case ProposedPlanEnd
    then show ?thesis using assms by (simp add: plan_view_def)
  qed
  then show "plan_view pid (segs @ [seg]) st1 (evs @ es)" "no_pending_plan st1" by blast+
qed

lemma segments_views:
  assumes "handle_plan_segments i st more_segs = (st1, es)"
    and "message_view i item segs st evs" "item = Agent_Message_Item msg" "agent_message_id msg = i"
    and "plan_view pid segs st evs" "no_pending_plan st"
  shows "message_view i item (segs @ more_segs) st1 (evs @ es) \<and> plan_view pid (segs @ more_segs) st1 (evs @ es) \<and>
    no_pending_plan st1"
  using assms
proof (induction more_segs arbitrary: st segs evs es)
  case (Cons seg more_segs)
  obtain st2 e1 e2 where 1: "handle_plan_segment i st seg = (st2, e1)" "handle_plan_segments i st2 more_segs = (st1, e2)"
    "es = e1 @ e2"
    using Cons.prems(1) by (auto split: prod.splits)
  show ?case
    using Cons.IH[OF 1(2) segment_message_view[OF Cons.prems(2) 1(1) Cons.prems(3,4)] Cons.prems(3,4)
        segment_plan_view[OF Cons.prems(5,6) 1(1)]] 1(3) by simp
qed simp

section \<open>The chunks of one message\<close>

lemma handle_plan_segments_append:
  "handle_plan_segments i st (a @ b) =
     (case handle_plan_segments i st a of (st1, e1) \<Rightarrow>
      case handle_plan_segments i st1 b of (st2, e2) \<Rightarrow> (st2, e1 @ e2))"
  by (induction a arbitrary: st) (auto split: prod.splits)

lemma emit_streamed_in_plan_mode:
  "emit_streamed_assistant_text_delta (Some st) i parsed =
     (case handle_plan_segments i st (plan_segments parsed) of (st1, evs) \<Rightarrow> (Some st1, evs))"
  by (auto simp: emit_streamed_assistant_text_delta_def assistant_chunk_is_empty_def)

lemma parser_of_parse_delta:
  assumes "parser_of ps i = Some p" "assistant_push_str p t = Some (q, out)"
  shows "\<exists>ps1. parse_delta ps i t = Some (ps1, out) \<and> parser_of ps1 i = Some q"
  using assms by (simp add: parse_delta_def parser_of_def)

text \<open>The loop while a message is streamed to the client.\<close>

abbreviation streaming ::
  "agent_message_item \<Rightarrow> plan_mode_stream_state \<Rightarrow> assistant_message_stream_parsers \<Rightarrow> turn_stream" where
  "streaming msg st ps \<equiv> \<lparr>stream_plan_state = Some st, stream_parsers = ps,
     active_item = Some (Agent_Message_Item msg), active_item_is_streaming_to_client = True\<rparr>"

lemma text_deltas_run:
  assumes "i = agent_message_id msg" "parser_of ps0 i = Some p" "assistant_push_chunks p ds = Some (q, out)"
    and "handle_plan_segments i st (plan_segments out) = (st1, evs)"
  shows "\<exists>ps. stream_run cfg (streaming msg st ps0) (map Output_Text_Delta ds) = Some (streaming msg st1 ps, evs) \<and>
    parser_of ps i = Some q"
  using assms(2-)
proof (induction ds arbitrary: ps0 p out st evs)
  case Nil
  then show ?case by (auto simp: empty_assistant_chunk_def)
next
  case (Cons d ds)
  obtain p' o1 o2 where push: "assistant_push_str p d = Some (p', o1)" "assistant_push_chunks p' ds = Some (q, o2)"
    "out = assistant_append o1 o2"
    using Cons.prems(2) by (auto split: option.splits)
  obtain st' e1 e2 where h: "handle_plan_segments i st (plan_segments o1) = (st', e1)"
    "handle_plan_segments i st' (plan_segments o2) = (st1, e2)" "evs = e1 @ e2"
    using Cons.prems(3) push(3) by (auto simp: assistant_append_def handle_plan_segments_append split: prod.splits)
  obtain ps1 where ps1: "parse_delta ps0 i d = Some (ps1, o1)" "parser_of ps1 i = Some p'"
    using parser_of_parse_delta[OF Cons.prems(1) push(1)] by blast
  have step: "stream_step cfg (streaming msg st ps0) (Output_Text_Delta d) = Some (streaming msg st' ps1, e1)"
    using ps1(1) h(1) assms(1) by (simp add: output_text_delta_def emit_streamed_in_plan_mode)
  show ?case
    using Cons.IH[of ps1 p' o2 st' e2] ps1(2) push(2) h step by auto
qed

lemma finish_fresh_parser:
  "assistant_new mode = Some p \<Longrightarrow> snd (assistant_finish p) = empty_assistant_chunk"
  by (auto simp: assistant_new_def citation_new_eq citation_parser_def assistant_finish_def citation_finish_def
      inline_finish_def citation_chunk_def empty_text_chunk_def parse_visible_text_def plan_push_str_def
      tagged_line_parse_def map_segments_def plan_finish_def tagged_line_finish_def plan_new_def tagged_line_new_def
      empty_assistant_chunk_def chunk_is_empty_def)

lemma finish_item_of:
  assumes "parser_of ps i = Some p"
  shows "snd (finish_item ps i) = snd (assistant_finish p)"
  using assms finish_fresh_parser[of "parsers_plan_mode ps" p]
  by (auto simp: finish_item_def parser_of_def split: option.splits)

lemma shown_plan_events: "shown (concat (map plan_events segs)) = normals segs"
proof (induction segs)
  case (Cons seg segs)
  then show ?case by (cases seg) simp_all
qed simp

definition inside_text :: "'t line_event list \<Rightarrow> str" where
  "inside_text es = concat (map (\<lambda>e. case e of Inside _ c \<Rightarrow> [c] | _ \<Rightarrow> []) es)"

lemma inside_plan_events: "inside_text (concat (map plan_events segs)) = plan_deltas segs"
proof (induction segs)
  case (Cons seg segs)
  have "inside_text (plan_events seg) = plan_delta_text seg"
    by (cases seg) (simp_all add: inside_text_def comp_def)
  then show ?case using Cons.IH by (simp add: inside_text_def)
qed (simp add: inside_text_def)

text \<open>The chunks that reach the parser: an empty first text does not.\<close>

definition message_chunks :: "str \<Rightarrow> str list \<Rightarrow> str list" where
  "message_chunks raw ds = (if raw = [] then ds else raw # ds)"

definition plan_mode_pending :: "str \<Rightarrow> agent_message_item \<Rightarrow> plan_mode_stream_state" where
  "plan_mode_pending turn_id msg = (plan_mode_new turn_id)\<lparr>pending_agent_message_items :=
     [agent_message_id msg \<mapsto> Agent_Message_Item (msg\<lparr>agent_message_content := [[]]\<rparr>)]\<rparr>"

text \<open>A message is announced and its text so far, the output text of \<open>content\<close>, goes through its parser.\<close>

abbreviation added :: "str option \<Rightarrow> content_item list \<Rightarrow> message_phase option \<Rightarrow> agent_message_item \<Rightarrow> stream_input" where
  "added mid content phase msg \<equiv>
     Output_Item_Added (Message mid (lit ''assistant'') content phase) (Some (Agent_Message_Item msg))"

abbreviation announced :: "agent_message_item \<Rightarrow> agent_message_item" where
  "announced msg \<equiv> msg\<lparr>agent_message_content := [[]]\<rparr>"

lemma output_item_added_message:
  assumes "\<not> defer_streamed_turn_items cfg" "i = agent_message_id msg" "raw = assistant_output_text content"
  shows "stream_step cfg (turn_stream_new True turn_id) (added mid content phase msg) =
      (case seed_item_text (parsers_new True) i raw of None \<Rightarrow> None
       | Some (ps, seeded) \<Rightarrow> (case handle_plan_segments i (plan_mode_pending turn_id msg) (plan_segments seeded) of
           (st1, e) \<Rightarrow> Some (streaming (announced msg) st1 ps, e)))"
  using assms
  by (auto simp: output_item_added_def raw_assistant_output_text_from_item_def seed_turn_item_def announce_turn_item_def
      turn_stream_new_def plan_mode_pending_def plan_mode_new_def turn_item_id_def emit_streamed_in_plan_mode Let_def
      split: option.splits prod.splits)

lemma message_run_segments:
  assumes "\<not> defer_streamed_turn_items cfg" "i = agent_message_id msg" "raw = assistant_output_text content"
    and "assistant_new True = Some p"
    and "assistant_push_chunks p (message_chunks raw ds) = Some (q, out)"
    and "handle_plan_segments i (plan_mode_pending turn_id msg) (plan_segments out) = (st, evs)"
  shows "\<exists>ps. stream_run cfg (turn_stream_new True turn_id)
      (added mid content phase msg # map Output_Text_Delta ds) = Some (streaming (announced msg) st ps, evs) \<and>
    parser_of ps i = Some q"
proof -
  have p: "parser_of (parsers_new True) i = Some p" using assms(4) by (simp add: parser_of_def parsers_new_def)
  note added = output_item_added_message[OF assms(1-3), of turn_id mid phase]
  have i: "i = agent_message_id (announced msg)" using assms(2) by simp
  show ?thesis
  proof (cases "raw = []")
    case True
    then have "stream_step cfg (turn_stream_new True turn_id) (added mid content phase msg) =
        Some (streaming (announced msg) (plan_mode_pending turn_id msg) (parsers_new True), [])"
      unfolding added by (simp add: seed_item_text_def empty_assistant_chunk_def)
    then show ?thesis
      using text_deltas_run[where ds = ds and cfg = cfg, OF i p _ assms(6)] assms(5) True by (auto simp: message_chunks_def)
  next
    case False
    obtain p1 o1 o2 where push: "assistant_push_str p raw = Some (p1, o1)" "assistant_push_chunks p1 ds = Some (q, o2)"
      "out = assistant_append o1 o2"
      using assms(5) False by (auto simp: message_chunks_def split: option.splits)
    obtain st1 e1 e2 where h: "handle_plan_segments i (plan_mode_pending turn_id msg) (plan_segments o1) = (st1, e1)"
      "handle_plan_segments i st1 (plan_segments o2) = (st, e2)" "evs = e1 @ e2"
      using assms(6) push(3) by (auto simp: assistant_append_def handle_plan_segments_append split: prod.splits)
    obtain ps1 where ps1: "parse_delta (parsers_new True) i raw = Some (ps1, o1)" "parser_of ps1 i = Some p1"
      using parser_of_parse_delta[OF p push(1)] by blast
    have "stream_step cfg (turn_stream_new True turn_id) (added mid content phase msg) =
        Some (streaming (announced msg) st1 ps1, e1)"
      unfolding added using False ps1(1) h(1) by (simp add: seed_item_text_def)
    then show ?thesis
      using text_deltas_run[where cfg = cfg, OF i ps1(2) push(2) h(2)] h(3) by auto
  qed
qed

lemma fresh_views:
  assumes "i = agent_message_id msg" "item = Agent_Message_Item (msg\<lparr>agent_message_content := [[]]\<rparr>)"
  shows "message_view i item [] (plan_mode_pending turn_id msg) []"
    "plan_view (turn_id @ lit ''-plan'') [] (plan_mode_pending turn_id msg) []"
    "no_pending_plan (plan_mode_pending turn_id msg)"
  by (auto simp: assms message_view_def plan_view_def no_pending_plan_def plan_mode_pending_def plan_mode_new_def
      plan_item_new_def message_events_def plan_only_def intro: exI[of _ "[]"])

lemma flush_parser:
  assumes "parser_of ps i = Some q"
    and "handle_plan_segments i st (plan_segments (snd (assistant_finish q))) = (st1, tail)"
  shows "\<exists>ps1. flush_assistant_text_segments_for_item (Some st) ps i = (Some st1, ps1, tail)"
proof -
  obtain ps1 out where "finish_item ps i = (ps1, out)" "out = snd (assistant_finish q)"
    using finish_item_of[OF assms(1)] by (cases "finish_item ps i") simp
  then show ?thesis
    using assms(2) by (simp add: flush_assistant_text_segments_for_item_def emit_streamed_in_plan_mode)
qed

lemma plan_view_deltas:
  assumes "plan_view pid segs st evs"
  shows "\<exists>chunks. (plan_only evs = [] \<and> chunks = [] \<or>
      plan_only evs = Item_Started (Plan_Item pid []) # map (Plan_Delta pid) chunks) \<and>
    concat chunks = plan_deltas segs"
proof (cases "list_ex opens_plan segs")
  case True
  then show ?thesis using assms by (auto simp: plan_view_def)
next
  case False
  then have "plan_deltas segs = []" by (induction segs) (auto elim: opens_plan.elims)
  then show ?thesis using False assms by (auto simp: plan_view_def)
qed

lemma message_stream_views:
  assumes "\<not> defer_streamed_turn_items cfg" and i: "i = agent_message_id msg" and raw: "raw = assistant_output_text content"
  shows "\<exists>evs st0 ps0 st ps tail segs u cites.
    stream_run cfg (turn_stream_new True turn_id) (added mid content phase msg # map Output_Text_Delta ds) =
      Some (streaming (announced msg) st0 ps0, evs) \<and>
    flush_assistant_text_segments_for_item (Some st0) ps0 i = (Some st, ps, tail) \<and>
    message_view i (Agent_Message_Item (announced msg)) segs st (evs @ tail) \<and>
    plan_view (turn_id @ lit ''-plan'') segs st (evs @ tail) \<and> no_pending_plan st \<and>
    strip_citations (raw @ concat ds) = Some (u, cites) \<and>
    normals segs = strip_proposed_plan_blocks u \<and> plan_deltas segs = inside_text (read_text plan_specs u)"
proof -
  let ?cs = "message_chunks raw ds" and ?item = "Agent_Message_Item (announced msg)"
  have cs: "concat ?cs = raw @ concat ds" by (simp add: message_chunks_def)
  obtain total u cites where run: "assistant_run True ?cs = Some total"
    and strip: "strip_citations (raw @ concat ds) = Some (u, cites)"
    and view: "assistant_view total = (strip_proposed_plan_blocks u, cites, read_text plan_specs u)"
    using assistant_run_view[of True ?cs] cs by auto
  obtain p q out where p: "assistant_new True = Some p" "assistant_push_chunks p ?cs = Some (q, out)"
    "total = assistant_append out (snd (assistant_finish q))"
    using run by (auto simp: assistant_run_def split: option.splits)
  define segs where "segs = plan_segments total"
  obtain st evs where 1: "handle_plan_segments i (plan_mode_pending turn_id msg) (plan_segments out) = (st, evs)" by fastforce
  obtain st1 tail where 2: "handle_plan_segments i st (plan_segments (snd (assistant_finish q))) = (st1, tail)" by fastforce
  have all: "handle_plan_segments i (plan_mode_pending turn_id msg) segs = (st1, evs @ tail)"
    using 1 2 p(3) by (simp add: segs_def assistant_append_def handle_plan_segments_append)
  have views: "message_view i ?item segs st1 (evs @ tail)" "plan_view (turn_id @ lit ''-plan'') segs st1 (evs @ tail)"
    "no_pending_plan st1"
    using segments_views[OF all fresh_views(1)[OF i refl] refl _ fresh_views(2,3)[OF i refl]] i by simp_all
  have v: "normals segs = strip_proposed_plan_blocks u" "plan_deltas segs = inside_text (read_text plan_specs u)"
    using view shown_plan_events[of segs] inside_plan_events[of segs]
    by (simp_all add: assistant_view_def segs_def plan_functions_read_text)
  obtain ps where ts: "stream_run cfg (turn_stream_new True turn_id) (added mid content phase msg # map Output_Text_Delta ds) =
      Some (streaming (announced msg) st ps, evs)" "parser_of ps i = Some q"
    using message_run_segments[OF assms p(1,2) 1] by blast
  obtain ps1 where "flush_assistant_text_segments_for_item (Some st) ps i = (Some st1, ps1, tail)"
    using flush_parser[OF ts(2) 2] by blast
  then show ?thesis using ts(1) views v strip by blast
qed


definition hello_message :: agent_message_item where
  "hello_message = \<lparr>agent_message_id = lit ''m'', agent_message_content = [], agent_message_phase = None,
     agent_message_citation = None\<rparr>"


section \<open>The completed plan\<close>

lemma strip_with_citations:
  assumes "citations_apart xs" "\<not> contains_str CITATION_OPEN v"
  shows "strip_citations (with_citations xs v) = Some (concat (map fst xs) @ v, map snd xs)"
  unfolding strip_citations_run run_citations_flushed flushed_citations[OF assms(1) flushed_visible[OF assms(2)]]
  by (simp add: citation_chunk_def)

lemma emit_message_plan_only:
  assumes "no_pending_plan st" "emit_agent_message_in_plan_mode st msg = (st1, es)"
  shows "plan_only es = []"
proof -
  have started: "about_plan (Item_Started item) \<longleftrightarrow> is_plan_item item" for item by (cases item) simp_all
  show ?thesis
    using assms
    by (auto simp: emit_agent_message_in_plan_mode_def maybe_emit_pending_agent_message_start_def plan_only_def
        no_pending_plan_def started Let_def split: if_splits option.splits prod.splits)
qed

text \<open>
  While streaming, citations are removed before the text is searched for a plan; the completed plan is
  taken from the raw message, and its citations are removed afterwards. A citation in front of the
  opening tag makes the two disagree.
\<close>

definition cited_plan_body :: str where
  "cited_plan_body = lit ''<proposed_plan>'' @ [newline] @ lit ''X'' @ [newline] @ lit ''</proposed_plan>''"

definition cited_plan :: str where
  "cited_plan = with_citations [([], lit ''c'')] cited_plan_body"

lemma strip_cited_plan: "strip_citations cited_plan = Some (cited_plan_body, [lit ''c''])"
proof -
  have "\<not> contains_str CITATION_OPEN cited_plan_body"
    by (simp add: cited_plan_body_def CITATION_OPEN_def text_eval)
  moreover have "citations_apart [([], lit ''c'')]"
    by (simp add: citations_apart_def CITATION_OPEN_def CITATION_CLOSE_def text_eval)
  ultimately show ?thesis unfolding cited_plan_def by (subst strip_with_citations) simp_all
qed

lemmas read_eval = read_text_def read_line_def lookup_plan_tag line_slug_def OPEN_TAG_def CLOSE_TAG_def text_events_def text_eval

lemma inside_cited_plan: "inside_text (read_text plan_specs cited_plan_body) = lit ''X'' @ [newline]"
  by (simp add: read_eval cited_plan_body_def inside_text_def)

lemma extract_cited_plan: "extract_proposed_plan_text cited_plan = None"
  unfolding plan_functions_read_text cited_plan_def cited_plan_body_def
  by (simp add: read_eval CITATION_OPEN_def CITATION_CLOSE_def)


end
