(* ===== verification/Utf8_Stream.thy ===== *)
theory Utf8_Stream
  imports Inline_Hidden_Tag Utf8_Text
begin

text \<open>
  The adapter that feeds bytes to a text parser (\<open>utils/stream-parser/src/utf8_stream.rs\<close>): bytes of
  a character that is not complete yet are kept for the next chunk. The adapter is a client of the
  interface \<open>stream_text_parser\<close>; its lemmas are proved once for every parser that keeps the
  interface and used for the citation parser, as in the tests of the crate.
\<close>

section \<open>Decoding with errors\<close>

text \<open>
  \<open>std::str::from_utf8\<close>: the text, or how many bytes are valid and how many bytes are wrong there;
  \<open>None\<close> for the latter is input that ends inside a character.
\<close>

record utf8_error =
  valid_up_to :: nat
  error_len :: "nat option"

definition decode_error_len :: "byte list \<Rightarrow> nat \<Rightarrow> nat option" where
  "decode_error_len bs n =
     (if length bs \<le> n \<and> 0xC2 \<le> safe_get bs 0 \<and> safe_get bs 0 < 0xF5 then None else Some n)"

function from_utf8 :: "byte list \<Rightarrow> (str, utf8_error) result" where
  "from_utf8 bs =
     (if bs = [] then Ok []
      else case decode_step bs of
             (Some c, n) \<Rightarrow>
               (case from_utf8 (drop n bs) of
                  Ok s \<Rightarrow> Ok (c # s)
                | Err e \<Rightarrow> Err (e\<lparr>valid_up_to := n + valid_up_to e\<rparr>))
           | (None, n) \<Rightarrow> Err \<lparr>valid_up_to = 0, error_len = decode_error_len bs n\<rparr>)"
  by auto

termination
  by (relation "measure length") (auto dest: decode_step_progress[OF sym])

declare from_utf8.simps [simp del]

section \<open>The adapter\<close>

datatype utf8_stream_parser_error = InvalidUtf8 nat nat | IncompleteUtf8AtEof

record 'p utf8_stream_parser =
  utf8_inner :: 'p
  pending_utf8 :: "byte list"

definition utf8_new :: "'p \<Rightarrow> 'p utf8_stream_parser" where
  "utf8_new inner = \<lparr>utf8_inner = inner, pending_utf8 = []\<rparr>"

text \<open>\<open>None\<close> is a push of the inner parser that does not return.\<close>

definition push_inner ::
  "('p \<Rightarrow> str \<Rightarrow> ('p \<times> 'e stream_text_chunk) option) \<Rightarrow> 'p utf8_stream_parser \<Rightarrow> str \<Rightarrow> byte list \<Rightarrow>
   ('p utf8_stream_parser \<times> ('e stream_text_chunk, utf8_stream_parser_error) result) option" where
  "push_inner push p t rest =
     map_option (\<lambda>(q, out). (\<lparr>utf8_inner = q, pending_utf8 = rest\<rparr>, Ok out)) (push (utf8_inner p) t)"

definition push_bytes ::
  "('p \<Rightarrow> str \<Rightarrow> ('p \<times> 'e stream_text_chunk) option) \<Rightarrow> 'p utf8_stream_parser \<Rightarrow> byte list \<Rightarrow>
   ('p utf8_stream_parser \<times> ('e stream_text_chunk, utf8_stream_parser_error) result) option" where
  "push_bytes push p0 chunk =
     (let old_len = length (pending_utf8 p0);
          p = p0\<lparr>pending_utf8 := pending_utf8 p0 @ chunk\<rparr>;
          rolled_back = p\<lparr>pending_utf8 := take old_len (pending_utf8 p)\<rparr>
      in case from_utf8 (pending_utf8 p) of
           Ok t \<Rightarrow> push_inner push p t []
         | Err err \<Rightarrow>
             (case error_len err of
                Some n \<Rightarrow> Some (rolled_back, Err (InvalidUtf8 (valid_up_to err) n))
              | None \<Rightarrow>
                  if valid_up_to err = 0 then Some (p, Ok empty_text_chunk)
                  else (case from_utf8 (take (valid_up_to err) (pending_utf8 p)) of
                          Ok t \<Rightarrow> push_inner push p t (drop (valid_up_to err) (pending_utf8 p))
                        | Err prefix_err \<Rightarrow>
                            Some (rolled_back,
                              Err (InvalidUtf8 (valid_up_to prefix_err)
                                (case error_len prefix_err of None \<Rightarrow> 0 | Some n \<Rightarrow> n))))))"

definition utf8_finish ::
  "('p \<Rightarrow> str \<Rightarrow> ('p \<times> 'e stream_text_chunk) option) \<Rightarrow> ('p \<Rightarrow> 'p \<times> 'e stream_text_chunk) \<Rightarrow>
   'p utf8_stream_parser \<Rightarrow>
   ('p utf8_stream_parser \<times> ('e stream_text_chunk, utf8_stream_parser_error) result) option" where
  "utf8_finish push flush p =
     (if pending_utf8 p = []
      then (case flush (utf8_inner p) of (q, tail) \<Rightarrow> Some (p\<lparr>utf8_inner := q\<rparr>, Ok (chunk_append empty_text_chunk tail)))
      else case from_utf8 (pending_utf8 p) of
             Err err \<Rightarrow>
               Some (p, Err (case error_len err of
                               Some n \<Rightarrow> InvalidUtf8 (valid_up_to err) n
                             | None \<Rightarrow> IncompleteUtf8AtEof))
           | Ok t \<Rightarrow>
               map_option (\<lambda>(q, out). case flush q of (r, tail) \<Rightarrow>
                   (\<lparr>utf8_inner = r, pending_utf8 = []\<rparr>, Ok (chunk_append out tail)))
                 (push (utf8_inner p) t))"

definition into_inner :: "'p utf8_stream_parser \<Rightarrow> ('p, utf8_stream_parser_error) result" where
  "into_inner p =
     (if pending_utf8 p = [] then Ok (utf8_inner p)
      else case from_utf8 (pending_utf8 p) of
             Ok _ \<Rightarrow> Ok (utf8_inner p)
           | Err err \<Rightarrow>
               Err (case error_len err of
                      Some n \<Rightarrow> InvalidUtf8 (valid_up_to err) n
                    | None \<Rightarrow> IncompleteUtf8AtEof))"

definition into_inner_lossy :: "'p utf8_stream_parser \<Rightarrow> 'p" where
  "into_inner_lossy p = utf8_inner p"

section \<open>Characters cut between chunks\<close>

text \<open>The first bytes of a character, not all of them.\<close>

definition cut_character :: "byte list \<Rightarrow> bool" where
  "cut_character t \<longleftrightarrow> (\<exists>c k. is_scalar c \<and> 0 < k \<and> k < length (utf8_encode c) \<and> t = take k (utf8_encode c))"

lemma safe_get_past [simp]:
  "safe_get [a] (Suc 0) = 0" "safe_get [a] 2 = 0" "safe_get [a] 3 = 0"
  "safe_get [a, b] 2 = 0" "safe_get [a, b] 3 = 0" "safe_get [a, b, c] 3 = 0"
  by (simp_all add: safe_get_def)

lemma decode_cut_bytes:
  "2 \<le> x \<Longrightarrow> x < 32 \<Longrightarrow> decode_step [byte_of (0xC0 + x)] = (None, 1)"
  "x < 16 \<Longrightarrow> decode_step [byte_of (0xE0 + x)] = (None, 1)"
  "x < 16 \<Longrightarrow> y < 64 \<Longrightarrow> (x = 0 \<longrightarrow> 32 \<le> y) \<Longrightarrow> (x = 13 \<longrightarrow> y < 32) \<Longrightarrow>
    decode_step [byte_of (0xE0 + x), byte_of (0x80 + y)] = (None, 2)"
  "x < 5 \<Longrightarrow> decode_step [byte_of (0xF0 + x)] = (None, 1)"
  "x < 5 \<Longrightarrow> y < 64 \<Longrightarrow> (x = 0 \<longrightarrow> 16 \<le> y) \<Longrightarrow> (x = 4 \<longrightarrow> y < 16) \<Longrightarrow>
    decode_step [byte_of (0xF0 + x), byte_of (0x80 + y)] = (None, 2)"
  "x < 5 \<Longrightarrow> y < 64 \<Longrightarrow> z < 64 \<Longrightarrow> (x = 0 \<longrightarrow> 16 \<le> y) \<Longrightarrow> (x = 4 \<longrightarrow> y < 16) \<Longrightarrow>
    decode_step [byte_of (0xF0 + x), byte_of (0x80 + y), byte_of (0x80 + z)] = (None, 3)"
  by (simp_all add: decode_step_def is_continuation_def second_byte_ok_def Let_def)

text \<open>A cut character is reported as input that ends too early.\<close>

definition ends_early :: "byte list \<Rightarrow> bool" where
  "ends_early t \<longleftrightarrow> t \<noteq> [] \<and> decode_step t = (None, length t) \<and> 0xC2 \<le> safe_get t 0 \<and> safe_get t 0 < 0xF5"

lemma cut_2:
  assumes "0x80 \<le> c" "c < 0x800" "0 < k" "k < 2"
  shows "ends_early (take k (utf8_encode c))"
proof -
  have "2 \<le> c div 64" "c div 64 < 32" using assms by linarith+
  moreover have "k = Suc 0" using assms by simp
  ultimately show ?thesis
    using assms(1,2) decode_cut_bytes(1)[of "c div 64"] unfolding \<open>k = Suc 0\<close>
    by (simp add: ends_early_def utf8_encode_def)
qed

lemma cut_3:
  assumes "0x800 \<le> c" "c < 0x10000" "is_scalar c" "0 < k" "k < 3"
  shows "ends_early (take k (utf8_encode c))"
proof -
  define x y z where "x = c div 4096" and "y = c div 64 mod 64" and "z = c mod 64"
  have c: "c = x * 4096 + y * 64 + z" and range: "x < 16" "y < 64" "z < 64"
    using assms base_64_digits(1)[of c] by (simp_all add: x_def y_def z_def)
  have second: "x = 0 \<longrightarrow> 32 \<le> y" "x = 13 \<longrightarrow> y < 32"
    using assms range unfolding c is_scalar_def by auto
  have enc: "utf8_encode c = [byte_of (0xE0 + x), byte_of (0x80 + y), byte_of (0x80 + z)]"
    using assms(1,2) by (simp add: utf8_encode_def x_def y_def z_def)
  have "k = Suc 0 \<or> k = Suc (Suc 0)" using assms by auto
  then show ?thesis
    using range(1) decode_cut_bytes(2)[OF range(1)] decode_cut_bytes(3)[OF range(1,2) second]
    unfolding enc by (auto simp: ends_early_def)
qed

lemma cut_4:
  assumes "0x10000 \<le> c" "c < 0x110000" "0 < k" "k < 4"
  shows "ends_early (take k (utf8_encode c))"
proof -
  define x y z w where "x = c div 262144" and "y = c div 4096 mod 64" and "z = c div 64 mod 64" and "w = c mod 64"
  have c: "c = x * 262144 + y * 4096 + z * 64 + w" and range: "x < 5" "y < 64" "z < 64" "w < 64"
    using assms base_64_digits(2)[of c] by (simp_all add: x_def y_def z_def w_def)
  have second: "x = 0 \<longrightarrow> 16 \<le> y" "x = 4 \<longrightarrow> y < 16"
    using assms range unfolding c by auto
  have enc: "utf8_encode c = [byte_of (0xF0 + x), byte_of (0x80 + y), byte_of (0x80 + z), byte_of (0x80 + w)]"
    using assms(1,2) by (simp add: utf8_encode_def x_def y_def z_def w_def)
  have "k = Suc 0 \<or> k = Suc (Suc 0) \<or> k = Suc (Suc (Suc 0))" using assms by auto
  then show ?thesis
    using range(1) decode_cut_bytes(4)[OF range(1)] decode_cut_bytes(5)[OF range(1,2) second]
      decode_cut_bytes(6)[OF range(1-3) second]
    unfolding enc by (auto simp: ends_early_def numeral_eq_Suc)
qed

lemma cut_character_ends_early:
  assumes "cut_character t"
  shows "ends_early t"
proof -
  obtain c k where c: "is_scalar c" "0 < k" "k < utf8_width c" "t = take k (utf8_encode c)"
    using assms by (auto simp: cut_character_def length_utf8_encode)
  have "c < 0x110000" using c(1) by (auto simp: is_scalar_def)
  then show ?thesis
    using c cut_2[of c k] cut_3[of c k] cut_4[of c k] by (auto simp: utf8_width_def split: if_splits)
qed

lemma from_utf8_character:
  assumes "is_scalar c"
  shows "from_utf8 (utf8_encode c @ u) =
    (case from_utf8 u of
       Ok s \<Rightarrow> Ok (c # s)
     | Err e \<Rightarrow> Err (e\<lparr>valid_up_to := length (utf8_encode c) + valid_up_to e\<rparr>))"
  by (subst from_utf8.simps) (simp add: decode_encode[OF assms])

lemma from_utf8_text:
  "list_all is_scalar s \<Longrightarrow> from_utf8 (utf8_encode_str s) = Ok s"
  by (induction s) (simp_all add: utf8_encode_str_def from_utf8_character from_utf8.simps[of "[]"])

lemma from_utf8_cut:
  assumes "cut_character t"
  shows "list_all is_scalar s \<Longrightarrow> from_utf8 (utf8_encode_str s @ t) =
    Err \<lparr>valid_up_to = length (utf8_encode_str s), error_len = None\<rparr>"
proof (induction s)
  case Nil
  show ?case
    using cut_character_ends_early[OF assms]
    by (subst from_utf8.simps) (simp add: utf8_encode_str_def ends_early_def decode_error_len_def)
qed (simp add: utf8_encode_str_def from_utf8_character)

text \<open>Every beginning of an encoded text is an encoded text and perhaps a cut character.\<close>

lemma encoded_prefix:
  assumes "list_all is_scalar s" "utf8_encode_str s = b @ r"
  shows "\<exists>s1 s2 t. s = s1 @ s2 \<and> b = utf8_encode_str s1 @ t \<and> (t = [] \<or> cut_character t)"
  using assms
proof (induction s arbitrary: b)
  case Nil
  then show ?case by (simp add: utf8_encode_str_def)
next
  case (Cons c s)
  have eq: "utf8_encode c @ utf8_encode_str s = b @ r" using Cons.prems(2) by (simp add: utf8_encode_str_def)
  show ?case
  proof (cases "length b < length (utf8_encode c)")
    case True
    have "take (length b) (utf8_encode c @ utf8_encode_str s) = b" using eq by simp
    then have "b = take (length b) (utf8_encode c)" using True by simp
    moreover have "b = [] \<or> 0 < length b" by simp
    ultimately have "b = [] \<or> cut_character b" using True Cons.prems(1) by (auto simp: cut_character_def)
    then show ?thesis by (intro exI[of _ "[]"] exI[of _ "c # s"] exI[of _ b]) (simp add: utf8_encode_str_def)
  next
    case False
    then obtain b' where b': "b = utf8_encode c @ b'" "utf8_encode_str s = b' @ r"
      using eq by (auto simp: append_eq_append_conv2)
    obtain s1 s2 t where "s = s1 @ s2" "b' = utf8_encode_str s1 @ t" "t = [] \<or> cut_character t"
      using Cons.IH[OF _ b'(2)] Cons.prems(1) by auto
    then show ?thesis
      using b'(1) by (intro exI[of _ "c # s1"] exI[of _ s2] exI[of _ t]) (simp add: utf8_encode_str_def)
  qed
qed

section \<open>Any cut of the bytes\<close>

text \<open>A stream of byte chunks, stopping at the first error, and the final flush.\<close>

fun push_byte_chunks ::
  "('p \<Rightarrow> str \<Rightarrow> ('p \<times> 'e stream_text_chunk) option) \<Rightarrow> 'p utf8_stream_parser \<Rightarrow> byte list list \<Rightarrow>
   ('p utf8_stream_parser \<times> ('e stream_text_chunk, utf8_stream_parser_error) result) option" where
  "push_byte_chunks push p [] = Some (p, Ok empty_text_chunk)"
| "push_byte_chunks push p (b # bs) =
     (case push_bytes push p b of
        None \<Rightarrow> None
      | Some (q, Err e) \<Rightarrow> Some (q, Err e)
      | Some (q, Ok out) \<Rightarrow>
          (case push_byte_chunks push q bs of
             None \<Rightarrow> None
           | Some (r, Err e) \<Rightarrow> Some (r, Err e)
           | Some (r, Ok rest) \<Rightarrow> Some (r, Ok (chunk_append out rest))))"

definition run_bytes ::
  "('p \<Rightarrow> str \<Rightarrow> ('p \<times> 'e stream_text_chunk) option) \<Rightarrow> ('p \<Rightarrow> 'p \<times> 'e stream_text_chunk) \<Rightarrow>
   'p \<Rightarrow> byte list list \<Rightarrow> ('e stream_text_chunk, utf8_stream_parser_error) result option" where
  "run_bytes push flush inner bs =
     (case push_byte_chunks push (utf8_new inner) bs of
        None \<Rightarrow> None
      | Some (q, Err e) \<Rightarrow> Some (Err e)
      | Some (q, Ok out) \<Rightarrow>
          (case utf8_finish push flush q of
             None \<Rightarrow> None
           | Some (r, Err e) \<Rightarrow> Some (Err e)
           | Some (r, Ok tail) \<Rightarrow> Some (Ok (chunk_append out tail))))"

lemma utf8_encode_str_Nil [simp]: "utf8_encode_str s = [] \<longleftrightarrow> s = []"
  by (cases s) (simp_all add: utf8_encode_str_def)

context stream_text_parser
begin

text \<open>A push hands the complete characters to the inner parser and keeps the cut one.\<close>

lemma push_bytes_step:
  assumes "ready (utf8_inner p)" "list_all is_scalar s" "t = [] \<or> cut_character t"
    and "pending_utf8 p @ b = utf8_encode_str s @ t" "push_str (utf8_inner p) s = Some (q, out)"
  shows "push_bytes push_str p b = Some (\<lparr>utf8_inner = q, pending_utf8 = t\<rparr>, Ok out)"
proof (cases "t = []")
  case True
  then show ?thesis
    using assms from_utf8_text[OF assms(2)] by (simp add: push_bytes_def push_inner_def)
next
  case False
  then have err: "from_utf8 (pending_utf8 p @ b) = Err \<lparr>valid_up_to = length (utf8_encode_str s), error_len = None\<rparr>"
    using assms(3,4) from_utf8_cut[of t s] assms(2) by simp
  show ?thesis
  proof (cases "s = []")
    case True
    then have "q = utf8_inner p" "out = empty_text_chunk" "pending_utf8 p @ b = t"
      using assms push_nothing[OF assms(1)] by (auto simp: utf8_encode_str_def)
    then show ?thesis
      using err True by (simp add: push_bytes_def utf8_encode_str_def)
  next
    case False
    then show ?thesis
      using err assms(4,5) from_utf8_text[OF assms(2)] by (simp add: push_bytes_def push_inner_def)
  qed
qed

lemma byte_chunks_agree:
  assumes "ready (utf8_inner p)" "list_all is_scalar s" "pending_utf8 p = [] \<or> cut_character (pending_utf8 p)"
    and "pending_utf8 p @ concat bs = utf8_encode_str s"
  shows "\<exists>q out whole. push_byte_chunks push_str p bs = Some (\<lparr>utf8_inner = q, pending_utf8 = []\<rparr>, Ok out) \<and>
    push_str (utf8_inner p) s = Some (q, whole) \<and> observed pieces out = observed pieces whole \<and> ready q"
  using assms
proof (induction bs arbitrary: p s)
  case Nil
  have "\<not> cut_character (utf8_encode_str s)"
  proof
    assume "cut_character (utf8_encode_str s)"
    from from_utf8_cut[OF this, of "[]"] show False
      using from_utf8_text[OF Nil.prems(2)] by (simp add: utf8_encode_str_def)
  qed
  then have "pending_utf8 p = []" "s = []" using Nil.prems(3,4) by auto
  then show ?case using push_nothing[OF Nil.prems(1)] Nil.prems(1) by (cases p) simp
next
  case (Cons b bs)
  have eq: "utf8_encode_str s = (pending_utf8 p @ b) @ concat bs" using Cons.prems(4) by simp
  obtain s1 s2 t where s: "s = s1 @ s2" "pending_utf8 p @ b = utf8_encode_str s1 @ t" "t = [] \<or> cut_character t"
    using encoded_prefix[OF Cons.prems(2) eq] by blast
  have scal: "list_all is_scalar s1" "list_all is_scalar s2" using Cons.prems(2) s(1) by simp_all
  obtain q o1 where q: "push_str (utf8_inner p) s1 = Some (q, o1)" "ready q" using push_obtain[OF Cons.prems(1)] .
  have rest: "t @ concat bs = utf8_encode_str s2" using eq s(1,2) by (simp add: utf8_encode_str_def)
  obtain r out whole where r: "push_byte_chunks push_str \<lparr>utf8_inner = q, pending_utf8 = t\<rparr> bs =
      Some (\<lparr>utf8_inner = r, pending_utf8 = []\<rparr>, Ok out)" "push_str q s2 = Some (r, whole)"
    "observed pieces out = observed pieces whole" "ready r"
    using Cons.IH[of "\<lparr>utf8_inner = q, pending_utf8 = t\<rparr>" s2] q(2) scal(2) s(3) rest by auto
  obtain full where "push_str (utf8_inner p) (s1 @ s2) = Some (r, full)"
    "observed pieces full = observed pieces (chunk_append o1 whole)"
    using push_append[OF Cons.prems(1) q(1) r(2)] by blast
  then show ?case
    using push_bytes_step[OF Cons.prems(1) scal(1) s(3,2) q(1)] r s(1) observed_append_cong[OF refl r(3), of o1]
    by simp
qed

lemma run_bytes_split:
  assumes "ready inner" "list_all is_scalar s" "concat bs = utf8_encode_str s"
  shows "\<exists>out whole. run_bytes push_str finish inner bs = Some (Ok out) \<and>
    run_chunks push_str finish inner [s] = Some whole \<and> observed pieces out = observed pieces whole"
proof -
  obtain q out whole where q: "push_byte_chunks push_str (utf8_new inner) bs =
      Some (\<lparr>utf8_inner = q, pending_utf8 = []\<rparr>, Ok out)" "push_str inner s = Some (q, whole)"
    and obs: "observed pieces out = observed pieces whole"
    using byte_chunks_agree[of "utf8_new inner" s bs] assms by (auto simp: utf8_new_def)
  obtain r tail where "finish q = (r, tail)" by fastforce
  then show ?thesis
    using q observed_append_cong[OF obs refl, of tail] by (simp add: run_bytes_def utf8_finish_def run_chunks_def)
qed

text \<open>A rejected chunk leaves the adapter as it was.\<close>

lemma rejected_chunk_rolls_back:
  assumes "push_bytes push_str p b = Some (q, Err e)"
  shows "q = p"
  using assms
  by (auto simp: push_bytes_def push_inner_def Let_def split: result.splits option.splits if_splits)

end

text \<open>
  C29: the bytes of a text reach the citation parser whole, wherever the byte stream is cut, also
  inside characters and delimiters: no error is reported and the result is that of the text.
\<close>

theorem citation_bytes_any_cut:
  assumes "list_all is_scalar s" "concat bs = utf8_encode_str s"
  shows "\<exists>out. run_bytes citation_push_str citation_finish citation_parser bs = Some (Ok out) \<and>
    strip_citations s = Some (visible_text out, extracted out)"
  using citations.run_bytes_split[OF citation_parser_ready assms]
  by (auto simp: observed_singletons strip_citations_run)

theorem citation_bytes_any_cut_witness:
  "\<exists>out. run_bytes citation_push_str citation_finish citation_parser [[65, 0xC3], [0xA9, 60]] = Some (Ok out) \<and>
    strip_citations [65, 233, 60] = Some (visible_text out, extracted out)"
  using citation_bytes_any_cut[of "[65, 233, 60]" "[[65, 0xC3], [0xA9, 60]]"]
  by (simp add: is_scalar_def utf8_encode_str_def utf8_encode_def byte_of_def)

text \<open>The byte \<open>0xC3\<close> is kept; a next byte that cannot follow it is reported and taken back.\<close>

lemma invalid_byte_reported:
  "push_bytes citation_push_str \<lparr>utf8_inner = citation_parser, pending_utf8 = [0xC3]\<rparr> [0x28] =
     Some (\<lparr>utf8_inner = citation_parser, pending_utf8 = [0xC3]\<rparr>, Err (InvalidUtf8 0 1))"
  by (simp add: push_bytes_def from_utf8.simps[of "[0xC3, 0x28]"] decode_step_def is_continuation_def decode_error_len_def)

end
