(* ===== verification/Shell_Script.thy ===== *)
theory Shell_Script
  imports Exec_Policy_Rules Absolute_Path "HOL-Library.Multiset"
begin

text \<open>
  Reading the script of a \<open>bash -lc\<close> command (\<open>shell-command/src/bash.rs\<close>) and recognising the
  shell (\<open>detect_shell_type\<close> of \<open>shell_detect.rs\<close>). The syntax tree comes from the tree-sitter library: its
  parser is a parameter \<open>parse\<close>, and a node is what its accessors return (kind, whether it is named,
  start position, source text, children). The walks over the tree keep an explicit stack, as the code
  does. The lemmas show that a script is accepted only if every node of its tree is allowed, and that the
  commands are those of the tree in source order.
\<close>

section \<open>Shells\<close>

datatype shell_type = Zsh | Bash | PowerShell | Sh | Cmd

text \<open>\<open>Path::file_stem\<close>: the file name up to its last dot, if the dot is not its first character.\<close>

definition path_file_stem :: "str \<Rightarrow> str option" where
  "path_file_stem p =
     (case path_file_name p of
        None \<Rightarrow> None
      | Some name \<Rightarrow>
          (case rsplit_once 46 name of
             None \<Rightarrow> Some name
           | Some (before, after) \<Rightarrow> if before = [] then Some name else Some before))"

lemma split_on_part_length: "w \<in> set (split_on d s) \<Longrightarrow> length w \<le> length s"
proof (induction s arbitrary: w)
  case (Cons c cs)
  then show ?case
    by (cases "split_on d cs") (auto split: if_splits intro: le_SucI)
qed simp

lemma path_file_name_part:
  assumes "path_file_name p = Some name"
  shows "name \<in> set (split_on slash p)"
proof -
  obtain cs where "path_components p = rev cs @ [Normal name]"
    using assms by (auto simp: path_file_name_def rev_swap split: list.splits component.splits)
  then have "Normal name \<in> set (path_components p)" by simp
  then show ?thesis
    by (auto simp: path_components_def component_of_def split: if_splits)
qed

lemma rsplit_once_length: "rsplit_once d s = Some (a, b) \<Longrightarrow> length a \<le> length s"
proof -
  assume "rsplit_once d s = Some (a, b)"
  then have "a = rev (tl (dropWhile (\<lambda>c. c \<noteq> d) (rev s)))"
    by (auto simp: rsplit_once_def split_once_def split: if_splits)
  then show ?thesis
    using length_dropWhile_le[of "\<lambda>c. c \<noteq> d" "rev s"] by simp
qed

lemma path_file_stem_length: "path_file_stem p = Some stem \<Longrightarrow> length stem \<le> length p"
  using split_on_part_length[OF path_file_name_part]
  by (fastforce simp: path_file_stem_def split: option.splits if_splits dest: rsplit_once_length)

lemma split_on_whole:
  assumes "w \<in> set (split_on d s)" "length w = length s"
  shows "w = s"
  using assms
proof (induction s arbitrary: w)
  case (Cons c cs)
  obtain v vs where v: "split_on d cs = v # vs" by (cases "split_on d cs") auto
  have short: "u \<in> set (split_on d cs) \<Longrightarrow> length u \<noteq> Suc (length cs)" for u
    using split_on_part_length[of u d cs] by auto
  show ?case
    using Cons.prems Cons.IH[of v] v short by (auto split: if_splits)
qed simp

lemma path_file_stem_shorter:
  assumes "path_file_stem p = Some stem" "path_components stem \<noteq> path_components p"
  shows "length stem < length p"
proof -
  obtain name where name: "path_file_name p = Some name" "length stem \<le> length name"
    "stem = name \<or> (\<exists>b. rsplit_once 46 name = Some (stem, b))"
    using assms(1) by (auto simp: path_file_stem_def split: option.splits if_splits dest: rsplit_once_length)
  have part: "name \<in> set (split_on slash p)" using path_file_name_part[OF name(1)] .
  have strict: "length stem < length name" if "rsplit_once 46 name = Some (stem, b)" for b
  proof -
    have "46 \<in> set (rev name)" "stem = rev (tl (dropWhile (\<lambda>c. c \<noteq> 46) (rev name)))"
      using that by (auto simp: rsplit_once_def split_once_def split: if_splits)
    moreover have "dropWhile (\<lambda>c. c \<noteq> 46) (rev name) \<noteq> []" using calculation(1) by (auto simp: dropWhile_eq_Nil_conv)
    ultimately show ?thesis
      using length_dropWhile_le[of "\<lambda>c. c \<noteq> 46" "rev name"] by (cases "dropWhile (\<lambda>c. c \<noteq> 46) (rev name)") auto
  qed
  show ?thesis
  proof (rule ccontr)
    assume "\<not> length stem < length p"
    then have "length name = length p" "length stem = length name"
      using name(2) split_on_part_length[OF part] by auto
    then have "stem = p" using name(3) strict split_on_whole[OF part] by auto
    then show False using assms(2) by simp
  qed
qed

function detect_shell_type :: "str \<Rightarrow> shell_type option" where
  "detect_shell_type p =
     (if p = lit ''zsh'' then Some Zsh
      else if p = lit ''sh'' then Some Sh
      else if p = lit ''cmd'' then Some Cmd
      else if p = lit ''bash'' then Some Bash
      else if p = lit ''pwsh'' then Some PowerShell
      else if p = lit ''powershell'' then Some PowerShell
      else (case path_file_stem p of
              None \<Rightarrow> None
            | Some stem \<Rightarrow>
                if path_components stem \<noteq> path_components p then detect_shell_type stem else None))"
  by auto

termination
  by (relation "measure length") (auto dest: path_file_stem_shorter)

declare detect_shell_type.simps [simp del]

section \<open>Syntax trees\<close>

datatype syntax_node =
  Node (node_kind: str) (is_named: bool) (start_byte: nat) (utf8_text: "str option") (node_children: "syntax_node list")

record syntax_tree =
  root_node :: syntax_node
  root_has_error :: bool

definition named_children :: "syntax_node \<Rightarrow> syntax_node list" where
  "named_children node = filter is_named (node_children node)"

text \<open>Every node of a tree.\<close>

fun nodes_of :: "syntax_node \<Rightarrow> syntax_node list" where
  "nodes_of (Node k n b t cs) = Node k n b t cs # concat (map nodes_of cs)"

fun named_nodes_of :: "syntax_node \<Rightarrow> syntax_node list" where
  "named_nodes_of (Node k n b t cs) = Node k n b t cs # concat (map named_nodes_of (filter is_named cs))"

definition stack_size :: "syntax_node list \<Rightarrow> nat" where
  "stack_size stack = sum_list (map (\<lambda>n. length (nodes_of n)) stack)"

lemma length_nodes_of: "length (nodes_of n) = Suc (stack_size (node_children n))"
  by (cases n) (simp add: stack_size_def length_concat comp_def)

lemma stack_size_Nil [simp]: "stack_size [] = 0"
  by (simp add: stack_size_def)

lemma stack_size_Cons [simp]: "stack_size (n # stack) = Suc (stack_size (node_children n)) + stack_size stack"
  using length_nodes_of[of n] by (simp add: stack_size_def)

lemma stack_size_append [simp]: "stack_size (xs @ ys) = stack_size xs + stack_size ys"
  by (simp add: stack_size_def)

lemma stack_size_rev [simp]: "stack_size (rev xs) = stack_size xs"
  by (simp add: stack_size_def rev_map[symmetric])

lemma stack_size_filter: "stack_size (filter P cs) \<le> stack_size cs"
  by (induction cs) auto

section \<open>Scripts of plain commands\<close>

definition ALLOWED_KINDS :: "str list" where
  "ALLOWED_KINDS = map lit [''program'', ''list'', ''pipeline'', ''command'', ''command_name'', ''word'', ''string'',
     ''string_content'', ''raw_string'', ''number'', ''concatenation'']"

definition ALLOWED_PUNCT_TOKENS :: "str list" where
  "ALLOWED_PUNCT_TOKENS = [lit ''&&'', lit ''||'', lit '';'', lit ''|'', [34], [39]]"

definition node_allowed :: "syntax_node \<Rightarrow> bool" where
  "node_allowed node =
     (let kind = node_kind node
      in if is_named node then kind \<in> set ALLOWED_KINDS
         else if list_ex (\<lambda>c. c \<in> set (lit ''&;|'')) kind \<and> kind \<notin> set ALLOWED_PUNCT_TOKENS then False
         else kind \<in> set ALLOWED_PUNCT_TOKENS \<or> trim kind = [])"

text \<open>The walk: the stack's top is its head, so children are pushed in reverse.\<close>

function walk_commands :: "syntax_node list \<Rightarrow> syntax_node list \<Rightarrow> syntax_node list option" where
  "walk_commands [] command_nodes = Some command_nodes"
| "walk_commands (node # stack) command_nodes =
     (if \<not> node_allowed node then None
      else walk_commands (rev (node_children node) @ stack)
             (if is_named node \<and> node_kind node = lit ''command'' then command_nodes @ [node] else command_nodes))"
  by pat_completeness auto

termination
  by (relation "measure (\<lambda>(stack, _). stack_size stack)") auto

definition parse_double_quoted_string :: "syntax_node \<Rightarrow> str option" where
  "parse_double_quoted_string node =
     (if node_kind node \<noteq> lit ''string'' then None
      else if \<not> list_all (\<lambda>part. node_kind part = lit ''string_content'') (named_children node) then None
      else case utf8_text node of
             None \<Rightarrow> None
           | Some raw \<Rightarrow>
               (case strip_prefix [34] raw of None \<Rightarrow> None | Some t \<Rightarrow> strip_suffix [34] t))"

definition parse_raw_string :: "syntax_node \<Rightarrow> str option" where
  "parse_raw_string node =
     (if node_kind node \<noteq> lit ''raw_string'' then None
      else case utf8_text node of
             None \<Rightarrow> None
           | Some raw \<Rightarrow>
               (case strip_prefix [39] raw of None \<Rightarrow> None | Some t \<Rightarrow> strip_suffix [39] t))"

text \<open>One part of a concatenated argument.\<close>

definition concatenation_part :: "syntax_node \<Rightarrow> str option" where
  "concatenation_part part =
     (if node_kind part = lit ''word'' \<or> node_kind part = lit ''number'' then utf8_text part
      else if node_kind part = lit ''string'' then parse_double_quoted_string part
      else if node_kind part = lit ''raw_string'' then parse_raw_string part
      else None)"

fun collect_options :: "'a option list \<Rightarrow> 'a list option" where
  "collect_options [] = Some []"
| "collect_options (None # xs) = None"
| "collect_options (Some x # xs) = map_option ((#) x) (collect_options xs)"

definition command_word :: "syntax_node \<Rightarrow> str option" where
  "command_word child =
     (if node_kind child = lit ''command_name''
      then (case named_children child of
              [] \<Rightarrow> None
            | word_node # _ \<Rightarrow> if node_kind word_node \<noteq> lit ''word'' then None else utf8_text word_node)
      else if node_kind child = lit ''word'' \<or> node_kind child = lit ''number'' then utf8_text child
      else if node_kind child = lit ''string'' then parse_double_quoted_string child
      else if node_kind child = lit ''raw_string'' then parse_raw_string child
      else if node_kind child = lit ''concatenation''
      then (case collect_options (map concatenation_part (named_children child)) of
              None \<Rightarrow> None
            | Some parts \<Rightarrow> if concat parts = [] then None else Some (concat parts))
      else None)"

definition parse_plain_command_from_node :: "syntax_node \<Rightarrow> str list option" where
  "parse_plain_command_from_node cmd =
     (if node_kind cmd \<noteq> lit ''command'' then None
      else collect_options (map command_word (named_children cmd)))"

definition try_parse_word_only_commands_sequence :: "syntax_tree \<Rightarrow> str list list option" where
  "try_parse_word_only_commands_sequence tree =
     (if root_has_error tree then None
      else case walk_commands [root_node tree] [] of
             None \<Rightarrow> None
           | Some command_nodes \<Rightarrow>
               collect_options (map parse_plain_command_from_node (sort_key start_byte command_nodes)))"

definition extract_bash_command :: "str list \<Rightarrow> (str \<times> str) option" where
  "extract_bash_command command =
     (case command of
        [shell, flag, script] \<Rightarrow>
          if \<not> (flag = lit ''-lc'' \<or> flag = lit ''-c'') \<or> detect_shell_type shell \<notin> {Some Zsh, Some Bash, Some Sh}
          then None else Some (shell, script)
      | _ \<Rightarrow> None)"

definition parse_shell_lc_plain_commands :: "(str \<Rightarrow> syntax_tree option) \<Rightarrow> str list \<Rightarrow> str list list option" where
  "parse_shell_lc_plain_commands parse command =
     (case extract_bash_command command of
        None \<Rightarrow> None
      | Some (_, script) \<Rightarrow>
          (case parse script of None \<Rightarrow> None | Some tree \<Rightarrow> try_parse_word_only_commands_sequence tree))"

section \<open>Commands with a here-document\<close>

definition is_literal_word_or_number :: "syntax_node \<Rightarrow> bool" where
  "is_literal_word_or_number node \<longleftrightarrow>
     (node_kind node = lit ''word'' \<or> node_kind node = lit ''number'') \<and> named_children node = []"

definition is_allowed_heredoc_attachment_kind :: "str \<Rightarrow> bool" where
  "is_allowed_heredoc_attachment_kind kind \<longleftrightarrow>
     kind \<in> set (map lit [''heredoc_body'', ''simple_heredoc_body'', ''heredoc_redirect'', ''herestring_redirect'',
       ''redirected_statement''])"

text \<open>What one child adds to the words: nothing for an attachment, \<open>None\<close> rejects the command.\<close>

definition heredoc_word :: "syntax_node \<Rightarrow> str list option" where
  "heredoc_word child =
     (if node_kind child = lit ''command_name''
      then (case named_children child of
              [] \<Rightarrow> None
            | word_node # _ \<Rightarrow>
                if \<not> (node_kind word_node = lit ''word'' \<or> node_kind word_node = lit ''number'') \<or>
                   \<not> is_literal_word_or_number word_node
                then None else map_option (\<lambda>t. [t]) (utf8_text word_node))
      else if node_kind child = lit ''word'' \<or> node_kind child = lit ''number''
      then (if \<not> is_literal_word_or_number child then None else map_option (\<lambda>t. [t]) (utf8_text child))
      else if node_kind child = lit ''comment'' \<or> is_allowed_heredoc_attachment_kind (node_kind child) then Some []
      else None)"

definition parse_heredoc_command_words :: "syntax_node \<Rightarrow> str list option" where
  "parse_heredoc_command_words cmd =
     (if node_kind cmd \<noteq> lit ''command'' then None
      else case collect_options (map heredoc_word (named_children cmd)) of
             None \<Rightarrow> None
           | Some parts \<Rightarrow> if concat parts = [] then None else Some (concat parts))"

function find_single_command_loop :: "syntax_node list \<Rightarrow> syntax_node option \<Rightarrow> syntax_node option" where
  "find_single_command_loop [] single_command = single_command"
| "find_single_command_loop (node # stack) single_command =
     (if node_kind node = lit ''command'' \<and> single_command \<noteq> None then None
      else find_single_command_loop (rev (named_children node) @ stack)
             (if node_kind node = lit ''command'' then Some node else single_command))"
  by pat_completeness auto

termination
  by (relation "measure (\<lambda>(stack, _). stack_size stack)")
    (auto simp: named_children_def less_Suc_eq_le stack_size_filter)

definition find_single_command_node :: "syntax_node \<Rightarrow> syntax_node option" where
  "find_single_command_node root = find_single_command_loop [root] None"

function has_named_descendant_loop :: "str \<Rightarrow> syntax_node list \<Rightarrow> bool" where
  "has_named_descendant_loop kind [] = False"
| "has_named_descendant_loop kind (current # stack) =
     (if node_kind current = kind then True
      else has_named_descendant_loop kind (rev (named_children current) @ stack))"
  by pat_completeness auto

termination
  by (relation "measure (\<lambda>(_, stack). stack_size stack)")
    (auto simp: named_children_def less_Suc_eq_le stack_size_filter)

definition has_named_descendant_kind :: "syntax_node \<Rightarrow> str \<Rightarrow> bool" where
  "has_named_descendant_kind node kind = has_named_descendant_loop kind [node]"

definition parse_shell_lc_single_command_prefix :: "(str \<Rightarrow> syntax_tree option) \<Rightarrow> str list \<Rightarrow> str list option" where
  "parse_shell_lc_single_command_prefix parse command =
     (case extract_bash_command command of
        None \<Rightarrow> None
      | Some (_, script) \<Rightarrow>
          (case parse script of
             None \<Rightarrow> None
           | Some tree \<Rightarrow>
               if root_has_error tree then None
               else if \<not> has_named_descendant_kind (root_node tree) (lit ''heredoc_redirect'') then None
               else if has_named_descendant_kind (root_node tree) (lit ''file_redirect'') then None
               else (case find_single_command_node (root_node tree) of
                       None \<Rightarrow> None
                     | Some command_node \<Rightarrow> parse_heredoc_command_words command_node)))"

section \<open>What the walks find\<close>

definition is_command_node :: "syntax_node \<Rightarrow> bool" where
  "is_command_node node \<longleftrightarrow> is_named node \<and> node_kind node = lit ''command''"

abbreviation all_nodes :: "syntax_node list \<Rightarrow> syntax_node list" where
  "all_nodes stack \<equiv> concat (map nodes_of stack)"

abbreviation all_named_nodes :: "syntax_node list \<Rightarrow> syntax_node list" where
  "all_named_nodes stack \<equiv> concat (map named_nodes_of stack)"

lemma nodes_of_unfold: "nodes_of n = n # all_nodes (node_children n)"
  by (cases n) simp

lemma named_nodes_of_unfold: "named_nodes_of n = n # all_named_nodes (named_children n)"
  by (cases n) (simp add: named_children_def)

lemma mset_all_nodes_rev: "mset (all_nodes (rev ns)) = mset (all_nodes ns)"
  by (induction ns) simp_all

lemma mset_all_named_nodes_rev: "mset (all_named_nodes (rev ns)) = mset (all_named_nodes ns)"
  by (induction ns) simp_all

text \<open>The walk succeeds exactly if every node is allowed, and collects every command once.\<close>

lemma walk_commands_outcome:
  "(if list_all node_allowed (all_nodes stack)
    then \<exists>found. walk_commands stack acc = Some found \<and>
           mset found = mset acc + mset (filter is_command_node (all_nodes stack))
    else walk_commands stack acc = None)"
proof (induction stack acc rule: walk_commands.induct)
  case (2 node stack acc)
  define acc1 where "acc1 = (if is_command_node node then acc @ [node] else acc)"
  have same: "list_all node_allowed (all_nodes (rev (node_children node))) =
      list_all node_allowed (all_nodes (node_children node))"
    by (simp add: list_all_iff)
  show ?case
  proof (cases "node_allowed node")
    case True
    have "mset acc1 + mset (filter is_command_node (all_nodes (rev (node_children node) @ stack))) =
        mset acc + mset (filter is_command_node (all_nodes (node # stack)))"
      using mset_all_nodes_rev[of "node_children node"] by (simp add: acc1_def nodes_of_unfold[of node])
    then show ?thesis
      using 2 True same
      by (auto simp: acc1_def is_command_node_def nodes_of_unfold[of node] split: if_splits)
  qed (simp add: nodes_of_unfold[of node])
qed simp

lemma find_single_command_outcome:
  "find_single_command_loop stack found =
     (case (found, filter (\<lambda>n. node_kind n = lit ''command'') (all_named_nodes stack)) of
        (f, []) \<Rightarrow> f | (None, [n]) \<Rightarrow> Some n | _ \<Rightarrow> None)"
proof (induction stack found rule: find_single_command_loop.induct)
  case (2 node stack found)
  let ?cmds = "filter (\<lambda>n. node_kind n = lit ''command'')"
  have perm: "mset (?cmds (all_named_nodes (rev (named_children node) @ stack))) =
      mset (?cmds (all_named_nodes (named_children node @ stack)))"
    using mset_all_named_nodes_rev[of "named_children node"] by (simp add: mset_filter)
  have small: "mset xs = mset ys \<Longrightarrow> (case (f, xs) of (f, []) \<Rightarrow> f | (None, [n]) \<Rightarrow> Some n | _ \<Rightarrow> None) =
      (case (f, ys) of (f, []) \<Rightarrow> f | (None, [n]) \<Rightarrow> Some n | _ \<Rightarrow> None)" for xs ys :: "syntax_node list" and f
    by (cases xs; cases ys; cases "tl xs"; cases "tl ys"; cases f) auto
  show ?case
  proof (cases "node_kind node = lit ''command''")
    case True
    then show ?thesis
      using 2 small[OF perm, of "Some node"]
      by (cases found) (auto simp: named_nodes_of_unfold[of node] split: list.splits)
  next
    case False
    then show ?thesis
      using 2 small[OF perm, of found] by (simp add: named_nodes_of_unfold[of node])
  qed
qed (simp split: option.splits)

lemma has_named_descendant_outcome:
  "has_named_descendant_loop kind stack \<longleftrightarrow> kind \<in> node_kind ` set (all_named_nodes stack)"
proof (induction kind stack rule: has_named_descendant_loop.induct)
  case (2 kind current stack)
  then show ?case by (auto simp: named_nodes_of_unfold[of current])
qed simp

lemma single_command_node:
  "find_single_command_node root = Some n \<longleftrightarrow>
   filter (\<lambda>n. node_kind n = lit ''command'') (named_nodes_of root) = [n]"
  by (auto simp: find_single_command_node_def find_single_command_outcome split: list.splits)

text \<open>
  C16: if the parser gives the commands of a script at increasing positions, as a syntax tree does, the
  script is accepted exactly if the tree has no error, every node of it is on the allow list and every
  command consists of literal words; and the result is then the words of its commands in source
  order.
\<close>

theorem plain_script_is_its_commands:
  assumes "sorted_wrt (<) (map start_byte (filter is_command_node (nodes_of (root_node tree))))"
  shows "try_parse_word_only_commands_sequence tree =
     (if root_has_error tree \<or> \<not> list_all node_allowed (nodes_of (root_node tree)) then None
      else collect_options (map parse_plain_command_from_node
             (filter is_command_node (nodes_of (root_node tree)))))"
proof (cases "list_all node_allowed (nodes_of (root_node tree))")
  case True
  let ?cmds = "filter is_command_node (nodes_of (root_node tree))"
  obtain found where found: "walk_commands [root_node tree] [] = Some found" "mset found = mset ?cmds"
    using walk_commands_outcome[of "[root_node tree]" "[]"] True by auto
  have "inj_on start_byte (set ?cmds)"
    using assms by (metis distinct_map strict_sorted_iff)
  moreover have "set found = set ?cmds" using found(2) by (metis set_mset_mset)
  ultimately have "sort_key start_byte found = ?cmds"
    using found(2) assms by (intro sort_key_inj_key_eq) (simp_all add: strict_sorted_iff)
  then show ?thesis using found(1) True by (simp add: try_parse_word_only_commands_sequence_def)
next
  case False
  then have "walk_commands [root_node tree] [] = None"
    using walk_commands_outcome[of "[root_node tree]" "[]"] by simp
  then show ?thesis using False by (simp add: try_parse_word_only_commands_sequence_def)
qed

text \<open>The tree of \<open>ls && pwd\<close>.\<close>

definition word_command :: "nat \<Rightarrow> str \<Rightarrow> syntax_node" where
  "word_command b w = Node (lit ''command'') True b (Some w)
     [Node (lit ''command_name'') True b (Some w) [Node (lit ''word'') True b (Some w) []]]"

definition ls_and_pwd :: syntax_tree where
  "ls_and_pwd = \<lparr>root_node = Node (lit ''program'') True 0 None
     [Node (lit ''list'') True 0 None
        [word_command 0 (lit ''ls''), Node (lit ''&&'') False 3 None [], word_command 6 (lit ''pwd'')]],
     root_has_error = False\<rparr>"

lemmas tree_eval = ls_and_pwd_def word_command_def is_command_node_def node_allowed_def ALLOWED_KINDS_def
  ALLOWED_PUNCT_TOKENS_def parse_plain_command_from_node_def command_word_def named_children_def lit_def

theorem plain_script_is_its_commands_witness:
  "sorted_wrt (<) (map start_byte (filter is_command_node (nodes_of (root_node ls_and_pwd)))) \<and>
   try_parse_word_only_commands_sequence ls_and_pwd = Some [[lit ''ls''], [lit ''pwd'']]"
  using plain_script_is_its_commands[of ls_and_pwd] by (simp add: tree_eval Let_def)

text \<open>
  A here-document command is only reduced to its words if it is the one command of the script, nothing
  is redirected to a file, and its words are literal.
\<close>

lemma heredoc_prefix_sound:
  assumes "parse_shell_lc_single_command_prefix parse command = Some words"
  obtains shell script tree cmd where "extract_bash_command command = Some (shell, script)"
    "parse script = Some tree" "\<not> root_has_error tree"
    "lit ''file_redirect'' \<notin> node_kind ` set (named_nodes_of (root_node tree))"
    "filter (\<lambda>n. node_kind n = lit ''command'') (named_nodes_of (root_node tree)) = [cmd]"
    "parse_heredoc_command_words cmd = Some words"
  using assms
  by (auto simp: parse_shell_lc_single_command_prefix_def has_named_descendant_kind_def has_named_descendant_outcome
      single_command_node split: option.splits if_splits)

end
