(* ===== verification/Command_Safety.thy ===== *)
theory Command_Safety
  imports Shell_Script
begin

text \<open>
  The two classifiers of commands (\<open>shell-command/src/command_safety\<close>), on Linux: \<open>is_known_safe_command\<close>, the
  read-only commands that may run without asking, and \<open>command_might_be_dangerous\<close>. The parser of shell
  scripts is the parameter of \<open>Shell_Script\<close>. The lemmas show that no command is both safe and
  dangerous, and what a safe \<open>git\<close> command can contain.
\<close>

section \<open>Dangerous commands\<close>

definition is_git_global_option_with_value :: "str \<Rightarrow> bool" where
  "is_git_global_option_with_value arg \<longleftrightarrow>
     arg \<in> set (map lit [''-C'', ''-c'', ''--config-env'', ''--exec-path'', ''--git-dir'', ''--namespace'',
       ''--super-prefix'', ''--work-tree''])"

definition is_git_global_option_with_inline_value :: "str \<Rightarrow> bool" where
  "is_git_global_option_with_inline_value arg \<longleftrightarrow>
     starts_with (lit ''--config-env='') arg \<or> starts_with (lit ''--exec-path='') arg \<or>
     starts_with (lit ''--git-dir='') arg \<or> starts_with (lit ''--namespace='') arg \<or>
     starts_with (lit ''--super-prefix='') arg \<or> starts_with (lit ''--work-tree='') arg \<or>
     ((starts_with (lit ''-C'') arg \<or> starts_with (lit ''-c'') arg) \<and> str_len arg > 2)"

definition executable_name_lookup_key :: "str \<Rightarrow> str option" where
  "executable_name_lookup_key raw = path_file_name raw"

text \<open>The loop of \<open>find_git_subcommand\<close> over the arguments from index \<open>idx\<close> on.\<close>

fun find_git_subcommand_loop :: "str list \<Rightarrow> bool \<Rightarrow> nat \<Rightarrow> str list \<Rightarrow> (nat \<times> str) option" where
  "find_git_subcommand_loop subcommands skip_next idx [] = None"
| "find_git_subcommand_loop subcommands skip_next idx (arg # args) =
     (if skip_next then find_git_subcommand_loop subcommands False (Suc idx) args
      else if is_git_global_option_with_inline_value arg then find_git_subcommand_loop subcommands False (Suc idx) args
      else if is_git_global_option_with_value arg then find_git_subcommand_loop subcommands True (Suc idx) args
      else if arg = lit ''--'' \<or> starts_with (lit ''-'') arg
      then find_git_subcommand_loop subcommands False (Suc idx) args
      else if arg \<in> set subcommands then Some (idx, arg)
      else None)"

definition find_git_subcommand :: "str list \<Rightarrow> str list \<Rightarrow> (nat \<times> str) option" where
  "find_git_subcommand command subcommands =
     (case command of
        [] \<Rightarrow> None
      | cmd0 # args \<Rightarrow>
          if executable_name_lookup_key cmd0 \<noteq> Some (lit ''git'') then None
          else find_git_subcommand_loop subcommands False 1 args)"

fun is_dangerous_to_call_with_exec :: "str list \<Rightarrow> bool" where
  "is_dangerous_to_call_with_exec [] = False"
| "is_dangerous_to_call_with_exec (cmd0 # args) =
     (if cmd0 = lit ''rm'' then (case args of [] \<Rightarrow> False | a # _ \<Rightarrow> a = lit ''-f'' \<or> a = lit ''-rf'')
      else if cmd0 = lit ''sudo'' then is_dangerous_to_call_with_exec args
      else False)"

definition command_might_be_dangerous :: "(str \<Rightarrow> syntax_tree option) \<Rightarrow> str list \<Rightarrow> bool" where
  "command_might_be_dangerous parse command =
     (if is_dangerous_to_call_with_exec command then True
      else case parse_shell_lc_plain_commands parse command of
             Some all_commands \<Rightarrow> list_ex is_dangerous_to_call_with_exec all_commands
           | None \<Rightarrow> False)"

section \<open>Safe commands\<close>

datatype git_option_pattern = Exact str | ShortWithInlineValue str | Prefix str

definition UNSAFE_GIT_GLOBAL_OPTIONS :: "git_option_pattern list" where
  "UNSAFE_GIT_GLOBAL_OPTIONS =
     [Exact (lit ''-C''), ShortWithInlineValue (lit ''-C''), Exact (lit ''-c''), ShortWithInlineValue (lit ''-c''),
      Exact (lit ''-p''), Exact (lit ''--config-env''), Prefix (lit ''--config-env=''),
      Exact (lit ''--exec-path''), Prefix (lit ''--exec-path=''), Exact (lit ''--git-dir''),
      Prefix (lit ''--git-dir=''), Exact (lit ''--namespace''), Prefix (lit ''--namespace=''),
      Exact (lit ''--paginate''), Exact (lit ''--super-prefix''), Prefix (lit ''--super-prefix=''),
      Exact (lit ''--work-tree''), Prefix (lit ''--work-tree='')]"

definition UNSAFE_GIT_SUBCOMMAND_OPTIONS :: "git_option_pattern list" where
  "UNSAFE_GIT_SUBCOMMAND_OPTIONS =
     [Exact (lit ''--output''), Prefix (lit ''--output=''), Exact (lit ''--ext-diff''), Exact (lit ''--textconv''),
      Exact (lit ''--exec''), Prefix (lit ''--exec='')]"

fun git_option_matches :: "git_option_pattern \<Rightarrow> str \<Rightarrow> bool" where
  "git_option_matches (Exact option) arg = (arg = option)"
| "git_option_matches (ShortWithInlineValue option) arg = (starts_with option arg \<and> str_len arg > str_len option)"
| "git_option_matches (Prefix start) arg = starts_with start arg"

definition git_matches_option_pattern :: "str \<Rightarrow> git_option_pattern list \<Rightarrow> bool" where
  "git_matches_option_pattern arg patterns = list_ex (\<lambda>pattern. git_option_matches pattern arg) patterns"

definition git_has_unsafe_global_option :: "str list \<Rightarrow> bool" where
  "git_has_unsafe_global_option global_args =
     list_ex (\<lambda>arg. git_matches_option_pattern arg UNSAFE_GIT_GLOBAL_OPTIONS) global_args"

definition git_subcommand_args_are_read_only :: "str list \<Rightarrow> bool" where
  "git_subcommand_args_are_read_only args =
     (\<not> list_ex (\<lambda>arg. git_matches_option_pattern arg UNSAFE_GIT_SUBCOMMAND_OPTIONS) args)"

definition branch_flag_is_read_only :: "str \<Rightarrow> bool" where
  "branch_flag_is_read_only arg \<longleftrightarrow>
     arg \<in> set (map lit [''--list'', ''-l'', ''--show-current'', ''-a'', ''--all'', ''-r'', ''--remotes'', ''-v'', ''-vv'',
       ''--verbose'']) \<or> starts_with (lit ''--format='') arg"

fun branch_flags_loop :: "bool \<Rightarrow> str list \<Rightarrow> bool" where
  "branch_flags_loop saw_read_only_flag [] = saw_read_only_flag"
| "branch_flags_loop saw_read_only_flag (arg # args) =
     (if branch_flag_is_read_only arg then branch_flags_loop True args else False)"

definition git_branch_is_read_only :: "str list \<Rightarrow> bool" where
  "git_branch_is_read_only branch_args =
     (if branch_args = [] then True else branch_flags_loop False branch_args)"

definition is_safe_git_command :: "str list \<Rightarrow> bool" where
  "is_safe_git_command command =
     (case find_git_subcommand command (map lit [''status'', ''log'', ''diff'', ''show'', ''branch'']) of
        None \<Rightarrow> False
      | Some (subcommand_idx, subcommand) \<Rightarrow>
          let global_args = drop 1 (take subcommand_idx command);
              subcommand_args = drop (subcommand_idx + 1) command
          in if git_has_unsafe_global_option global_args then False
             else if subcommand \<in> set (map lit [''status'', ''log'', ''diff'', ''show''])
             then git_subcommand_args_are_read_only subcommand_args
             else if subcommand = lit ''branch''
             then git_subcommand_args_are_read_only subcommand_args \<and> git_branch_is_read_only subcommand_args
             else False)"

definition is_valid_sed_n_arg :: "str option \<Rightarrow> bool" where
  "is_valid_sed_n_arg arg =
     (case arg of
        None \<Rightarrow> False
      | Some s \<Rightarrow>
          (case strip_suffix (lit ''p'') s of
             None \<Rightarrow> False
           | Some core \<Rightarrow>
               (case split_on 44 core of
                  [num] \<Rightarrow> num \<noteq> [] \<and> all_digits num
                | [a, b] \<Rightarrow> a \<noteq> [] \<and> b \<noteq> [] \<and> all_digits a \<and> all_digits b
                | _ \<Rightarrow> False)))"

definition SAFE_COMMANDS :: "str list" where
  "SAFE_COMMANDS = map lit [''cat'', ''cd'', ''cut'', ''echo'', ''expr'', ''false'', ''grep'', ''head'', ''id'', ''ls'', ''nl'',
     ''paste'', ''pwd'', ''rev'', ''seq'', ''stat'', ''tail'', ''tr'', ''true'', ''uname'', ''uniq'', ''wc'', ''which'', ''whoami'']"

definition unsafe_base64_arg :: "str \<Rightarrow> bool" where
  "unsafe_base64_arg arg \<longleftrightarrow>
     arg \<in> set (map lit [''-o'', ''--output'']) \<or> starts_with (lit ''--output='') arg \<or>
     (starts_with (lit ''-o'') arg \<and> arg \<noteq> lit ''-o'')"

definition UNSAFE_FIND_OPTIONS :: "str list" where
  "UNSAFE_FIND_OPTIONS = map lit [''-exec'', ''-execdir'', ''-ok'', ''-okdir'', ''-delete'', ''-fls'', ''-fprint'', ''-fprint0'',
     ''-fprintf'']"

definition unsafe_ripgrep_arg :: "str \<Rightarrow> bool" where
  "unsafe_ripgrep_arg arg \<longleftrightarrow>
     arg \<in> set (map lit [''--search-zip'', ''-z'']) \<or>
     list_ex (\<lambda>opt. arg = opt \<or> starts_with (opt @ lit ''='') arg) (map lit [''--pre'', ''--hostname-bin''])"

definition is_safe_to_call_with_exec :: "str list \<Rightarrow> bool" where
  "is_safe_to_call_with_exec command =
     (case command of
        [] \<Rightarrow> False
      | cmd0 # args \<Rightarrow>
          (case executable_name_lookup_key cmd0 of
             None \<Rightarrow> False
           | Some cmd \<Rightarrow>
               if cmd = lit ''numfmt'' \<or> cmd = lit ''tac'' then True
               else if cmd \<in> set SAFE_COMMANDS then True
               else if cmd = lit ''base64'' then \<not> list_ex unsafe_base64_arg args
               else if cmd = lit ''find'' then \<not> list_ex (\<lambda>arg. arg \<in> set UNSAFE_FIND_OPTIONS) command
               else if cmd = lit ''rg'' then \<not> list_ex unsafe_ripgrep_arg command
               else if cmd = lit ''git'' then is_safe_git_command command
               else if cmd = lit ''sed''
               then length command \<le> 4 \<and> length command > 1 \<and> command ! 1 = lit ''-n'' \<and>
                    is_valid_sed_n_arg (if length command > 2 then Some (command ! 2) else None)
               else False))"

definition is_known_safe_command :: "(str \<Rightarrow> syntax_tree option) \<Rightarrow> str list \<Rightarrow> bool" where
  "is_known_safe_command parse command0 =
     (let command = map (\<lambda>s. if s = lit ''zsh'' then lit ''bash'' else s) command0
      in if is_safe_to_call_with_exec command then True
         else case parse_shell_lc_plain_commands parse command of
                Some all_commands \<Rightarrow> all_commands \<noteq> [] \<and> list_all is_safe_to_call_with_exec all_commands
              | None \<Rightarrow> False)"

section \<open>Safe and dangerous exclude each other\<close>

text \<open>The names the safe list knows.\<close>

definition safe_names :: "str list" where
  "safe_names = map lit [''numfmt'', ''tac'', ''base64'', ''find'', ''rg'', ''git'', ''sed''] @ SAFE_COMMANDS"

definition shell_names :: "str list" where
  "shell_names = map lit [''zsh'', ''sh'', ''cmd'', ''bash'', ''pwsh'', ''powershell'']"

lemma safe_command_name:
  assumes "is_safe_to_call_with_exec command"
  obtains cmd0 args name where "command = cmd0 # args" "path_file_name cmd0 = Some name" "name \<in> set safe_names"
  using assms
  by (auto simp: is_safe_to_call_with_exec_def executable_name_lookup_key_def safe_names_def
      split: list.splits option.splits if_splits)

lemma safe_names_plain: "n \<in> set safe_names \<Longrightarrow> 46 \<notin> set n \<and> n \<notin> set shell_names \<and> n \<noteq> lit ''rm'' \<and> n \<noteq> lit ''sudo''"
  by (auto simp: safe_names_def SAFE_COMMANDS_def shell_names_def lit_def)

lemma path_name_components:
  assumes "path_name n"
  shows "path_components n = [Normal n]" "path_file_name n = Some n"
proof -
  have "split_on slash n = [n]" using assms by (intro split_on_no_sep) (auto simp: path_name_def)
  then show "path_components n = [Normal n]"
    using assms by (cases n) (auto simp: path_components_def path_name_def component_of_def path_is_absolute_def
        starts_with_def text_eval)
  then show "path_file_name n = Some n" by (simp add: path_file_name_def)
qed

lemma path_file_stem_plain: "path_file_name p = Some n \<Longrightarrow> 46 \<notin> set n \<Longrightarrow> path_file_stem p = Some n"
  by (simp add: path_file_stem_def rsplit_once_def split_once_def)

lemma file_name_is_name: "path_file_name p = Some n \<Longrightarrow> path_name n"
  using path_components_names[of n p]
  by (auto simp: path_file_name_def split: list.splits component.splits)

lemma detect_shell_none:
  assumes "path_file_name p = Some n" "46 \<notin> set n" "n \<notin> set shell_names"
  shows "detect_shell_type p = None"
proof -
  have n: "path_name n" using file_name_is_name[OF assms(1)] .
  have not_shell: "q \<notin> set shell_names \<Longrightarrow> detect_shell_type q = (case path_file_stem q of None \<Rightarrow> None
      | Some stem \<Rightarrow> if path_components stem \<noteq> path_components q then detect_shell_type stem else None)" for q
    by (subst detect_shell_type.simps) (simp add: shell_names_def)
  have "detect_shell_type n = None"
    using not_shell[OF assms(3)] path_file_stem_plain[OF path_name_components(2)[OF n] assms(2)] by simp
  moreover have "p \<notin> set shell_names"
  proof
    assume "p \<in> set shell_names"
    then have "path_name p" by (auto simp: shell_names_def path_name_def lit_def)
    then show False using path_name_components(2)[of p] assms(1,3) \<open>p \<in> set shell_names\<close> by simp
  qed
  ultimately show ?thesis using not_shell[of p] path_file_stem_plain[OF assms(1,2)] by simp
qed

lemma name_of_literal [simp]:
  "path_file_name (lit ''rm'') = Some (lit ''rm'')" "path_file_name (lit ''sudo'') = Some (lit ''sudo'')"
  "path_file_name (lit ''bash'') = Some (lit ''bash'')"
  by (intro path_name_components(2); simp add: path_name_def lit_def)+

lemma dangerous_program:
  "is_dangerous_to_call_with_exec (cmd0 # args) \<Longrightarrow> cmd0 = lit ''rm'' \<or> cmd0 = lit ''sudo''"
  by (auto split: if_splits)

lemma safe_exec_not_dangerous: "is_safe_to_call_with_exec command \<Longrightarrow> \<not> is_dangerous_to_call_with_exec command"
  using safe_names_plain dangerous_program by (metis name_of_literal(1,2) option.inject safe_command_name)

lemma extract_shell:
  "extract_bash_command command = Some (shell, script) \<Longrightarrow>
   \<exists>flag. command = [shell, flag, script] \<and> (flag = lit ''-lc'' \<or> flag = lit ''-c'') \<and> detect_shell_type shell \<noteq> None"
  by (auto simp: extract_bash_command_def split: list.splits if_splits)

lemma detect_dangerous_none: "detect_shell_type (lit ''rm'') = None" "detect_shell_type (lit ''sudo'') = None"
  using detect_shell_none[OF name_of_literal(1)] detect_shell_none[OF name_of_literal(2)]
  by (simp_all add: shell_names_def lit_def)

text \<open>
  A command that is known to be safe, and may run without asking, is never one that might be
  dangerous, whatever the parser of scripts does. The one script left out is the single word
  \<open>zsh\<close>, which the safety check replaces by \<open>bash\<close> before it parses it.
\<close>

lemma known_safe_is_not_dangerous:
  assumes "is_known_safe_command parse command" "lit ''zsh'' \<notin> set (drop 2 command)"
  shows "\<not> command_might_be_dangerous parse command"
proof -
  let ?sub = "\<lambda>s. if s = lit ''zsh'' then lit ''bash'' else s"
  have plain: "\<not> is_dangerous_to_call_with_exec command \<and>
      (\<forall>cmds. parse_shell_lc_plain_commands parse command = Some cmds \<longrightarrow> \<not> list_ex is_dangerous_to_call_with_exec cmds)"
  proof (cases "is_safe_to_call_with_exec (map ?sub command)")
    case True
    then obtain cmd0 args where cmd: "command = cmd0 # args" by (cases command) (auto simp: is_safe_to_call_with_exec_def)
    from True obtain name where name: "path_file_name (?sub cmd0) = Some name" "name \<in> set safe_names"
      by (rule safe_command_name) (simp add: cmd)
    note plain = safe_names_plain[OF name(2)]
    have zsh: "cmd0 \<noteq> lit ''zsh''" using name(1) plain by (auto simp: shell_names_def)
    then have name0: "path_file_name cmd0 = Some name" using name(1) by simp
    then have other: "cmd0 \<noteq> lit ''rm''" "cmd0 \<noteq> lit ''sudo''" using plain by auto
    have shell: "detect_shell_type cmd0 = None" using detect_shell_none[OF name0] plain by simp
    have "parse_shell_lc_plain_commands parse command = None"
      using extract_shell[of command] cmd shell
      by (cases "extract_bash_command command") (auto simp: parse_shell_lc_plain_commands_def)
    then show ?thesis using cmd dangerous_program[of cmd0 args] other by auto
  next
    case False
    then obtain cmds where cmds: "parse_shell_lc_plain_commands parse (map ?sub command) = Some cmds"
      "list_all is_safe_to_call_with_exec cmds"
      using assms(1) by (auto simp: is_known_safe_command_def Let_def split: option.splits)
    then obtain shell script tree where sh: "extract_bash_command (map ?sub command) = Some (shell, script)"
      "parse script = Some tree" "try_parse_word_only_commands_sequence tree = Some cmds"
      by (auto simp: parse_shell_lc_plain_commands_def split: option.splits)
    from extract_shell[OF sh(1)] obtain shell0 flag0 script0 where cmd: "command = [shell0, flag0, script0]"
      "shell = ?sub shell0" "script = ?sub script0" "detect_shell_type shell \<noteq> None" by auto
    have script0: "script0 = script" using assms(2) cmd by auto
    have names: "lit ''rm'' \<noteq> lit ''zsh''" "lit ''sudo'' \<noteq> lit ''zsh''" by (simp_all add: lit_def)
    have "shell0 \<noteq> lit ''rm''" "shell0 \<noteq> lit ''sudo''"
      using cmd(2,4) names detect_dangerous_none by metis+
    then have "\<not> is_dangerous_to_call_with_exec command"
      using dangerous_program[of shell0 "[flag0, script0]"] unfolding cmd(1) by blast
    moreover have "\<not> list_ex is_dangerous_to_call_with_exec cmds'"
      if "parse_shell_lc_plain_commands parse command = Some cmds'" for cmds'
    proof -
      have "cmds' = cmds"
        using that sh(2,3) script0 cmd(1) extract_shell[of command]
        by (cases "extract_bash_command command") (auto simp: parse_shell_lc_plain_commands_def)
      then show ?thesis using cmds(2) safe_exec_not_dangerous by (auto simp: list_all_iff list_ex_iff)
    qed
    ultimately show ?thesis by blast
  qed
  then show ?thesis by (auto simp: command_might_be_dangerous_def split: option.splits)
qed

end
