(* ===== verification/Exec_Approval.thy ===== *)
theory Exec_Approval
  imports Command_Safety Exec_Policy_Amend
begin

text \<open>
  From a command to the decision whether it runs (\<open>core/src/exec_policy.rs\<close> and the first part of
  \<open>core/src/tools/sandboxing.rs\<close>), on Linux: the commands of a shell script are checked against the exec
  policy, commands without a rule by the safety heuristics, and the result is to skip the approval,
  to ask, or to refuse. The definitions put together the components \<open>Shell_Script\<close>,
  \<open>Command_Safety\<close>, \<open>Exec_Policy\<close> and \<open>Exec_Policy_Amend\<close>.
\<close>

section \<open>Settings of the session\<close>

record granular_approval_config =
  sandbox_approval :: bool
  rules_approval :: bool
  skill_approval :: bool
  request_permissions :: bool
  mcp_elicitations :: bool

datatype ask_for_approval = UnlessTrusted | OnFailure | OnRequest | Granular granular_approval_config | Never

datatype sandbox_permissions = UseDefault | RequireEscalated | WithAdditionalPermissions

definition requires_escalated_permissions :: "sandbox_permissions \<Rightarrow> bool" where
  "requires_escalated_permissions sp \<longleftrightarrow> sp = RequireEscalated"

definition requests_sandbox_override :: "sandbox_permissions \<Rightarrow> bool" where
  "requests_sandbox_override sp \<longleftrightarrow> sp \<noteq> UseDefault"

datatype network_sandbox_policy = NetworkRestricted | NetworkEnabled

datatype file_system_access_mode = Read | Write | Deny

typedecl file_system_path

record file_system_sandbox_entry =
  entry_path :: file_system_path
  entry_access :: file_system_access_mode

datatype file_system_sandbox_kind = Restricted | Unrestricted | ExternalSandbox

record file_system_sandbox_policy =
  sandbox_kind :: file_system_sandbox_kind
  glob_scan_max_depth :: "nat option"
  sandbox_entries :: "file_system_sandbox_entry list"

datatype managed_file_system_permissions =
    RestrictedEntries "file_system_sandbox_entry list" "nat option"
  | UnrestrictedFileSystem

datatype permission_profile =
    Managed managed_file_system_permissions network_sandbox_policy
  | Disabled
  | External network_sandbox_policy

fun to_sandbox_policy :: "managed_file_system_permissions \<Rightarrow> file_system_sandbox_policy" where
  "to_sandbox_policy (RestrictedEntries entries depth) =
     \<lparr>sandbox_kind = Restricted, glob_scan_max_depth = depth, sandbox_entries = entries\<rparr>"
| "to_sandbox_policy UnrestrictedFileSystem =
     \<lparr>sandbox_kind = Unrestricted, glob_scan_max_depth = None, sandbox_entries = []\<rparr>"

fun profile_file_system_policy :: "permission_profile \<Rightarrow> file_system_sandbox_policy" where
  "profile_file_system_policy (Managed file_system _) = to_sandbox_policy file_system"
| "profile_file_system_policy Disabled =
     \<lparr>sandbox_kind = Unrestricted, glob_scan_max_depth = None, sandbox_entries = []\<rparr>"
| "profile_file_system_policy (External _) =
     \<lparr>sandbox_kind = ExternalSandbox, glob_scan_max_depth = None, sandbox_entries = []\<rparr>"

definition has_denied_read_restrictions :: "file_system_sandbox_policy \<Rightarrow> bool" where
  "has_denied_read_restrictions fsp \<longleftrightarrow>
     sandbox_kind fsp = Restricted \<and> list_ex (\<lambda>entry. entry_access entry = Deny) (sandbox_entries fsp)"

section \<open>The requirement\<close>

record exec_policy_amendment =
  amendment_command :: "str list"

datatype exec_approval_requirement =
    Skip bool "exec_policy_amendment option"
  | NeedsApproval "str option" "exec_policy_amendment option"
  | ForbiddenCommand str

definition PROMPT_CONFLICT_REASON :: str where
  "PROMPT_CONFLICT_REASON = lit ''approval required by policy, but AskForApproval is set to Never''"

definition REJECT_SANDBOX_APPROVAL_REASON :: str where
  "REJECT_SANDBOX_APPROVAL_REASON =
     lit ''approval required by policy, but AskForApproval::Granular.sandbox_approval is false''"

definition REJECT_RULES_APPROVAL_REASON :: str where
  "REJECT_RULES_APPROVAL_REASON =
     lit ''approval required by policy rule, but AskForApproval::Granular.rules is false''"

fun is_policy_match :: "rule_match \<Rightarrow> bool" where
  "is_policy_match (PrefixRuleMatch _ _ _ _) = True"
| "is_policy_match (HeuristicsRuleMatch _ _) = False"

definition prompt_is_rejected_by_policy :: "ask_for_approval \<Rightarrow> bool \<Rightarrow> str option" where
  "prompt_is_rejected_by_policy approval_policy prompt_is_rule =
     (case approval_policy of
        Never \<Rightarrow> Some PROMPT_CONFLICT_REASON
      | OnFailure \<Rightarrow> None
      | OnRequest \<Rightarrow> None
      | UnlessTrusted \<Rightarrow> None
      | Granular config \<Rightarrow>
          if prompt_is_rule
          then (if \<not> rules_approval config then Some REJECT_RULES_APPROVAL_REASON else None)
          else if \<not> sandbox_approval config then Some REJECT_SANDBOX_APPROVAL_REASON else None)"

section \<open>Commands without a rule\<close>

record unmatched_command_context =
  ctx_approval_policy :: ask_for_approval
  ctx_permission_profile :: permission_profile
  ctx_sandbox_permissions :: sandbox_permissions
  ctx_used_complex_parsing :: bool

definition render_decision_for_unmatched_command ::
  "(str \<Rightarrow> syntax_tree option) \<Rightarrow> str list \<Rightarrow> unmatched_command_context \<Rightarrow> decision" where
  "render_decision_for_unmatched_command parse command ctx =
     (let approval_policy = ctx_approval_policy ctx; profile = ctx_permission_profile ctx;
          restricted = (if requests_sandbox_override (ctx_sandbox_permissions ctx) then Prompt else Allow);
          by_kind = (case sandbox_kind (profile_file_system_policy profile) of
              Unrestricted \<Rightarrow> Allow | ExternalSandbox \<Rightarrow> Allow | Restricted \<Rightarrow> restricted)
      in if is_known_safe_command parse command \<and> \<not> ctx_used_complex_parsing ctx \<and> approval_policy = UnlessTrusted
         then Allow
         else if command_might_be_dangerous parse command
         then (case approval_policy of
                 Never \<Rightarrow> (case profile of Managed _ _ \<Rightarrow> Forbidden | _ \<Rightarrow> Allow)
               | _ \<Rightarrow> Prompt)
         else (case approval_policy of
                 Never \<Rightarrow> Allow
               | OnFailure \<Rightarrow> Allow
               | UnlessTrusted \<Rightarrow> Prompt
               | OnRequest \<Rightarrow> by_kind
               | Granular _ \<Rightarrow> by_kind))"

record exec_policy_commands =
  policy_commands :: "str list list"
  used_complex_parsing :: bool

definition commands_for_exec_policy :: "(str \<Rightarrow> syntax_tree option) \<Rightarrow> str list \<Rightarrow> exec_policy_commands" where
  "commands_for_exec_policy parse command =
     (case parse_shell_lc_plain_commands parse command of
        Some (c # cs) \<Rightarrow> \<lparr>policy_commands = c # cs, used_complex_parsing = False\<rparr>
      | _ \<Rightarrow>
          (case parse_shell_lc_single_command_prefix parse command of
             Some single_command \<Rightarrow> \<lparr>policy_commands = [single_command], used_complex_parsing = True\<rparr>
           | None \<Rightarrow> \<lparr>policy_commands = [command], used_complex_parsing = False\<rparr>))"

section \<open>Proposed amendments\<close>

definition BANNED_PREFIX_SUGGESTIONS :: "str list list" where
  "BANNED_PREFIX_SUGGESTIONS = map (map lit)
     [[''python3''], [''python3'', ''-''], [''python3'', ''-c''], [''python''], [''python'', ''-''], [''python'', ''-c''], [''py''],
      [''py'', ''-3''], [''pythonw''], [''pyw''], [''pypy''], [''pypy3''], [''git''], [''bash''], [''bash'', ''-lc''], [''sh''],
      [''sh'', ''-c''], [''sh'', ''-lc''], [''zsh''], [''zsh'', ''-lc''], [''/bin/zsh''], [''/bin/zsh'', ''-lc''], [''/bin/bash''],
      [''/bin/bash'', ''-lc''], [''pwsh''], [''pwsh'', ''-Command''], [''pwsh'', ''-c''], [''powershell''],
      [''powershell'', ''-Command''], [''powershell'', ''-c''], [''powershell.exe''], [''powershell.exe'', ''-Command''],
      [''powershell.exe'', ''-c''], [''env''], [''sudo''], [''node''], [''node'', ''-e''], [''perl''], [''perl'', ''-e''], [''ruby''],
      [''ruby'', ''-e''], [''php''], [''php'', ''-r''], [''lua''], [''lua'', ''-e''], [''osascript'']]"

text \<open>The first heuristic match with the decision \<open>d\<close>, as an amendment.\<close>

fun first_heuristics_command :: "decision \<Rightarrow> rule_match list \<Rightarrow> exec_policy_amendment option" where
  "first_heuristics_command d [] = None"
| "first_heuristics_command d (HeuristicsRuleMatch command d' # ms) =
     (if d' = d then Some \<lparr>amendment_command = command\<rparr> else first_heuristics_command d ms)"
| "first_heuristics_command d (PrefixRuleMatch _ _ _ _ # ms) = first_heuristics_command d ms"

definition try_derive_execpolicy_amendment_for_prompt_rules :: "rule_match list \<Rightarrow> exec_policy_amendment option" where
  "try_derive_execpolicy_amendment_for_prompt_rules matched_rules =
     (if list_ex (\<lambda>m. is_policy_match m \<and> match_decision m = Prompt) matched_rules then None
      else first_heuristics_command Prompt matched_rules)"

definition try_derive_execpolicy_amendment_for_allow_rules :: "rule_match list \<Rightarrow> exec_policy_amendment option" where
  "try_derive_execpolicy_amendment_for_allow_rules matched_rules =
     (if list_ex is_policy_match matched_rules then None else first_heuristics_command Allow matched_rules)"

definition prefix_rule_would_approve_all_commands ::
  "path_env \<Rightarrow> policy \<Rightarrow> str list \<Rightarrow> str list list \<Rightarrow> (str list \<Rightarrow> decision) \<Rightarrow> match_options \<Rightarrow> bool" where
  "prefix_rule_would_approve_all_commands env exec_policy prefix_rule commands fallback options =
     (case add_prefix_rule exec_policy prefix_rule Allow of
        Err _ \<Rightarrow> False
      | Ok p \<Rightarrow>
          list_all (\<lambda>command. map_option eval_decision (check_with_options env p command fallback options) = Some Allow)
            commands)"

definition derive_requested_execpolicy_amendment_from_prefix_rule ::
  "path_env \<Rightarrow> str list option \<Rightarrow> rule_match list \<Rightarrow> policy \<Rightarrow> str list list \<Rightarrow> (str list \<Rightarrow> decision) \<Rightarrow> match_options \<Rightarrow>
   exec_policy_amendment option" where
  "derive_requested_execpolicy_amendment_from_prefix_rule env requested matched_rules exec_policy commands fallback options =
     (case requested of
        None \<Rightarrow> None
      | Some prefix_rule \<Rightarrow>
          if prefix_rule = [] then None
          else if prefix_rule \<in> set BANNED_PREFIX_SUGGESTIONS then None
          else if list_ex is_policy_match matched_rules then None
          else if prefix_rule_would_approve_all_commands env exec_policy prefix_rule commands fallback options
          then Some \<lparr>amendment_command = prefix_rule\<rparr>
          else None)"

section \<open>Reasons\<close>

text \<open>\<open>Iterator::max_by_key\<close>: the last of the greatest elements.\<close>

definition max_by_key :: "('a \<Rightarrow> nat) \<Rightarrow> 'a list \<Rightarrow> 'a option" where
  "max_by_key key xs =
     (case xs of [] \<Rightarrow> None | y # ys \<Rightarrow> Some (foldl (\<lambda>m z. if key m \<le> key z then z else m) y ys))"

definition render_shlex_command :: "policy_lib \<Rightarrow> str list \<Rightarrow> str" where
  "render_shlex_command lib args =
     (case shlex_try_join lib args of Some s \<Rightarrow> s | None \<Rightarrow> join (lit '' '') args)"

fun rule_reason :: "decision \<Rightarrow> rule_match \<Rightarrow> (str list \<times> str option) option" where
  "rule_reason d (PrefixRuleMatch matched_prefix d' _ justification) =
     (if d' = d then Some (matched_prefix, justification) else None)"
| "rule_reason d (HeuristicsRuleMatch _ _) = None"

definition derive_prompt_reason :: "policy_lib \<Rightarrow> str list \<Rightarrow> evaluation \<Rightarrow> str option" where
  "derive_prompt_reason lib command_args ev =
     (let command = render_shlex_command lib command_args
      in case max_by_key (\<lambda>(matched_prefix, _). length matched_prefix)
                (filter_map (rule_reason Prompt) (eval_matched_rules ev)) of
           Some (_, Some justification) \<Rightarrow>
             Some (lit ''`'' @ command @ lit ''` requires approval: '' @ justification)
         | Some (_, None) \<Rightarrow> Some (lit ''`'' @ command @ lit ''` requires approval by policy'')
         | None \<Rightarrow> None)"

definition derive_forbidden_reason :: "policy_lib \<Rightarrow> str list \<Rightarrow> evaluation \<Rightarrow> str" where
  "derive_forbidden_reason lib command_args ev =
     (let command = render_shlex_command lib command_args
      in case max_by_key (\<lambda>(matched_prefix, _). length matched_prefix)
                (filter_map (rule_reason Forbidden) (eval_matched_rules ev)) of
           Some (_, Some justification) \<Rightarrow> lit ''`'' @ command @ lit ''` rejected: '' @ justification
         | Some (matched_prefix, None) \<Rightarrow>
             lit ''`'' @ command @ lit ''` rejected: policy forbids commands starting with `'' @
             render_shlex_command lib matched_prefix @ lit ''`''
         | None \<Rightarrow> lit ''`'' @ command @ lit ''` rejected: blocked by policy'')"

section \<open>The decision\<close>

record exec_approval_request =
  req_command :: "str list"
  req_approval_policy :: ask_for_approval
  req_permission_profile :: permission_profile
  req_sandbox_permissions :: sandbox_permissions
  req_prefix_rule :: "str list option"

text \<open>The heuristics for one request: the closure \<open>exec_policy_fallback\<close>.\<close>

definition exec_policy_fallback ::
  "(str \<Rightarrow> syntax_tree option) \<Rightarrow> exec_approval_request \<Rightarrow> bool \<Rightarrow> str list \<Rightarrow> decision" where
  "exec_policy_fallback parse req complex cmd =
     render_decision_for_unmatched_command parse cmd
       \<lparr>ctx_approval_policy = req_approval_policy req, ctx_permission_profile = req_permission_profile req,
        ctx_sandbox_permissions = req_sandbox_permissions req, ctx_used_complex_parsing = complex\<rparr>"

text \<open>\<open>None\<close> is an evaluation of no match at all, which panics.\<close>

definition create_exec_approval_requirement_for_command ::
  "policy_lib \<Rightarrow> path_env \<Rightarrow> (str \<Rightarrow> syntax_tree option) \<Rightarrow> policy \<Rightarrow> exec_approval_request \<Rightarrow>
   exec_approval_requirement option" where
  "create_exec_approval_requirement_for_command lib env parse exec_policy req =
     (let cmds = commands_for_exec_policy parse (req_command req);
          commands = policy_commands cmds;
          auto_amendment_allowed = (\<not> used_complex_parsing cmds);
          fallback = exec_policy_fallback parse req (used_complex_parsing cmds)
      in case check_multiple_with_options env exec_policy commands fallback resolving of
           None \<Rightarrow> None
         | Some ev \<Rightarrow>
             let matched_rules = eval_matched_rules ev;
                 requested_amendment =
                   (if auto_amendment_allowed
                    then derive_requested_execpolicy_amendment_from_prefix_rule env (req_prefix_rule req) matched_rules
                           exec_policy commands fallback resolving
                    else None)
             in Some (case eval_decision ev of
                  Forbidden \<Rightarrow> ForbiddenCommand (derive_forbidden_reason lib (req_command req) ev)
                | Prompt \<Rightarrow>
                    (let prompt_is_rule = list_ex (\<lambda>m. is_policy_match m \<and> match_decision m = Prompt) matched_rules
                     in case prompt_is_rejected_by_policy (req_approval_policy req) prompt_is_rule of
                          Some reason \<Rightarrow> ForbiddenCommand reason
                        | None \<Rightarrow>
                            NeedsApproval (derive_prompt_reason lib (req_command req) ev)
                              (case requested_amendment of
                                 Some amendment \<Rightarrow> Some amendment
                               | None \<Rightarrow>
                                   if auto_amendment_allowed
                                   then try_derive_execpolicy_amendment_for_prompt_rules matched_rules
                                   else None))
                | Allow \<Rightarrow>
                    Skip (list_all (\<lambda>command. list_ex (\<lambda>m. is_policy_match m \<and> match_decision m = Allow)
                            (matches_for_command_with_options env exec_policy command None resolving)) commands)
                         (if auto_amendment_allowed
                          then try_derive_execpolicy_amendment_for_allow_rules matched_rules
                          else None)))"

definition default_exec_approval_requirement ::
  "ask_for_approval \<Rightarrow> file_system_sandbox_policy \<Rightarrow> exec_approval_requirement" where
  "default_exec_approval_requirement approval_policy fsp =
     (let needs_approval = (case approval_policy of
            Never \<Rightarrow> False | OnFailure \<Rightarrow> False
          | OnRequest \<Rightarrow> sandbox_kind fsp = Restricted
          | Granular _ \<Rightarrow> sandbox_kind fsp = Restricted
          | UnlessTrusted \<Rightarrow> True)
      in if needs_approval \<and> (case approval_policy of Granular config \<Rightarrow> \<not> sandbox_approval config | _ \<Rightarrow> False)
         then ForbiddenCommand (lit ''approval policy disallowed sandbox approval prompt'')
         else if needs_approval then NeedsApproval None None
         else Skip False None)"

datatype sandbox_override = NoOverride | BypassSandboxFirstAttempt

definition unsandboxed_execution_allowed :: "file_system_sandbox_policy \<Rightarrow> bool" where
  "unsandboxed_execution_allowed fsp \<longleftrightarrow> \<not> has_denied_read_restrictions fsp"

definition sandbox_override_for_first_attempt ::
  "sandbox_permissions \<Rightarrow> exec_approval_requirement \<Rightarrow> file_system_sandbox_policy \<Rightarrow> sandbox_override" where
  "sandbox_override_for_first_attempt sp requirement fsp =
     (if \<not> unsandboxed_execution_allowed fsp then NoOverride
      else if (case requirement of Skip True _ \<Rightarrow> True | _ \<Rightarrow> False) then BypassSandboxFirstAttempt
      else if requires_escalated_permissions sp then BypassSandboxFirstAttempt
      else NoOverride)"

definition sandbox_permissions_preserving_denied_reads ::
  "sandbox_permissions \<Rightarrow> file_system_sandbox_policy \<Rightarrow> sandbox_permissions" where
  "sandbox_permissions_preserving_denied_reads sp fsp =
     (if requires_escalated_permissions sp \<and> \<not> unsandboxed_execution_allowed fsp then UseDefault else sp)"

section \<open>Updating the policy\<close>

text \<open>
  \<open>append_amendment_and_update\<close> and \<open>append_network_rule_and_update\<close> under the update lock: the policy file and
  the policy in memory. A closed lock and a blocking task that panics are not modelled.
\<close>

datatype exec_policy_update_error = AppendRule str amend_error | AddRule policy_error

definition default_policy_path :: "str \<Rightarrow> str" where
  "default_policy_path codex_home = path_join (path_join codex_home (lit ''rules'')) (lit ''default.rules'')"

definition append_amendment_and_update ::
  "'f policy_file_ops \<Rightarrow> (str \<Rightarrow> (str, str) result) \<Rightarrow> path_env \<Rightarrow> str \<Rightarrow> exec_policy_amendment \<Rightarrow> 'f \<Rightarrow> policy \<Rightarrow>
   'f \<times> policy \<times> (unit, exec_policy_update_error) result" where
  "append_amendment_and_update ops to_json env codex_home amendment s current =
     (let policy_path = default_policy_path codex_home; prefix_tokens = amendment_command amendment
      in case blocking_append_allow_prefix_rule ops to_json policy_path prefix_tokens s of
           (s1, Err source) \<Rightarrow> (s1, current, Err (AppendRule policy_path source))
         | (s1, Ok _) \<Rightarrow>
             let already_allowed =
                   (case check_multiple_with_options env current [prefix_tokens] (\<lambda>_. Forbidden) resolving of
                      None \<Rightarrow> False
                    | Some ev \<Rightarrow> eval_decision ev = Allow \<and>
                        list_ex (\<lambda>m. is_policy_match m \<and> match_decision m = Allow) (eval_matched_rules ev))
             in if already_allowed then (s1, current, Ok ())
                else (case add_prefix_rule current prefix_tokens Allow of
                        Err e \<Rightarrow> (s1, current, Err (AddRule e))
                      | Ok updated \<Rightarrow> (s1, updated, Ok ())))"

definition append_network_rule_and_update ::
  "(policy_error \<Rightarrow> str) \<Rightarrow> 'f policy_file_ops \<Rightarrow> (str \<Rightarrow> (str, str) result) \<Rightarrow> str \<Rightarrow> str \<Rightarrow> network_rule_protocol \<Rightarrow>
   decision \<Rightarrow> str option \<Rightarrow> 'f \<Rightarrow> policy \<Rightarrow> 'f \<times> policy \<times> (unit, exec_policy_update_error) result" where
  "append_network_rule_and_update to_message ops to_json codex_home host protocol d justification s current =
     (let policy_path = default_policy_path codex_home
      in case blocking_append_network_rule to_message ops to_json policy_path host protocol d justification s of
           (s1, Err source) \<Rightarrow> (s1, current, Err (AppendRule policy_path source))
         | (s1, Ok _) \<Rightarrow>
             (case add_network_rule current host protocol d justification of
                Err e \<Rightarrow> (s1, current, Err (AddRule e))
              | Ok updated \<Rightarrow> (s1, updated, Ok ())))"

section \<open>Matches of rules and heuristics\<close>

text \<open>The rules that match a command, without a fallback.\<close>

abbreviation hits :: "path_env \<Rightarrow> policy \<Rightarrow> str list \<Rightarrow> rule_match list" where
  "hits env p cmd \<equiv> matches_for_command_with_options env p cmd None resolving"

lemma matches_with_fallback:
  "matches_for_command_with_options env p cmd (Some f) resolving =
     (if hits env p cmd = [] then [HeuristicsRuleMatch cmd (f cmd)] else hits env p cmd)"
  by (auto simp: matches_for_command_with_options_def Let_def split: list.splits option.splits)

lemma rule_match_is_policy: "rule_matches r cmd = Some m \<Longrightarrow> is_policy_match m"
  by (auto simp: rule_matches_def)

lemma with_resolved_is_policy [simp]: "is_policy_match (with_resolved_program m program) = is_policy_match m"
  by (cases m) simp_all

lemma exact_hits_policy: "m \<in> set (exact_hits p cmd) \<Longrightarrow> is_policy_match m"
  by (auto simp: exact_hits_eq prefix_rules.rule_hits_def set_filter_map rule_match_is_policy split: if_splits)

lemma host_hits_policy: "m \<in> set (match_host_executable_rules env p cmd) \<Longrightarrow> is_policy_match m"
  by (auto simp: match_host_executable_rules_def set_filter_map rule_match_is_policy
      split: list.splits result.splits option.splits if_splits)

lemma hits_eq:
  "hits env p cmd = (if exact_hits p cmd \<noteq> [] then exact_hits p cmd else match_host_executable_rules env p cmd)"
  by (auto simp: matches_for_command_with_options_def exact_hits_def Let_def resolving_def
      split: option.splits list.splits)

lemma hits_policy: "m \<in> set (hits env p cmd) \<Longrightarrow> is_policy_match m"
  by (auto simp: hits_eq exact_hits_policy host_hits_policy split: if_splits)

lemma commands_nonempty: "policy_commands (commands_for_exec_policy parse command) \<noteq> []"
  by (auto simp: commands_for_exec_policy_def split: option.splits list.splits)

text \<open>The evaluation of a request: it exists, and its decision is that of the strictest match.\<close>

lemma request_evaluated:
  assumes "commands \<noteq> []"
  obtains ev where "check_multiple_with_options env p commands f resolving = Some ev"
    "eval_matched_rules ev = concat (map (\<lambda>c. matches_for_command_with_options env p c (Some f) resolving) commands)"
    "eval_decision ev \<in> match_decision ` set (eval_matched_rules ev)"
    "\<forall>m\<in>set (eval_matched_rules ev). match_decision m \<le> eval_decision ev"
proof -
  let ?ms = "concat (map (\<lambda>c. matches_for_command_with_options env p c (Some f) resolving) commands)"
  have "?ms \<noteq> []"
    using assms matches_with_fallback_nonempty by (cases commands) auto
  then obtain ev where ev: "from_matches ?ms = Some ev" using from_matches_None by blast
  from ev[unfolded from_matches_Some] have "eval_matched_rules ev = ?ms"
    "eval_decision ev \<in> match_decision ` set ?ms" "\<forall>m\<in>set ?ms. match_decision m \<le> eval_decision ev" by auto
  then show ?thesis using that[of ev] ev by (simp add: check_multiple_with_options_def)
qed

lemma decision_cases: "d \<le> (e :: decision) \<longleftrightarrow> e = Forbidden \<or> d = Allow \<or> d = e"
  by (cases d; cases e) (simp_all add: less_eq_decision_def)

section \<open>What the decision promises\<close>

text \<open>The requirement as a function of the evaluation, for the three decisions.\<close>

definition requirement_of ::
  "policy_lib \<Rightarrow> path_env \<Rightarrow> (str \<Rightarrow> syntax_tree option) \<Rightarrow> policy \<Rightarrow> exec_approval_request \<Rightarrow> evaluation \<Rightarrow>
   exec_approval_requirement \<Rightarrow> bool" where
  "requirement_of lib env parse p req ev r \<longleftrightarrow>
     check_multiple_with_options env p (policy_commands (commands_for_exec_policy parse (req_command req)))
       (exec_policy_fallback parse req (used_complex_parsing (commands_for_exec_policy parse (req_command req))))
       resolving = Some ev \<and>
     create_exec_approval_requirement_for_command lib env parse p req = Some r"

lemma requirement_exists:
  obtains ev r where "requirement_of lib env parse p req ev r"
    "eval_matched_rules ev = concat (map (\<lambda>c. matches_for_command_with_options env p c
       (Some (exec_policy_fallback parse req (used_complex_parsing (commands_for_exec_policy parse (req_command req)))))
       resolving) (policy_commands (commands_for_exec_policy parse (req_command req))))"
    "eval_decision ev \<in> match_decision ` set (eval_matched_rules ev)"
    "\<forall>m\<in>set (eval_matched_rules ev). match_decision m \<le> eval_decision ev"
  by (rule request_evaluated[OF commands_nonempty[of parse "req_command req"], of env p
        "exec_policy_fallback parse req (used_complex_parsing (commands_for_exec_policy parse (req_command req)))"])
    (auto simp: requirement_of_def create_exec_approval_requirement_for_command_def Let_def)

lemma requirement_forbidden:
  "requirement_of lib env parse p req ev r \<Longrightarrow> eval_decision ev = Forbidden \<Longrightarrow> \<exists>reason. r = ForbiddenCommand reason"
  by (auto simp: requirement_of_def create_exec_approval_requirement_for_command_def Let_def)

lemma requirement_prompt:
  "requirement_of lib env parse p req ev r \<Longrightarrow> eval_decision ev = Prompt \<Longrightarrow>
   (\<exists>reason. r = ForbiddenCommand reason) \<or>
   (\<exists>reason amendment. r = NeedsApproval reason amendment \<and> req_approval_policy req \<noteq> Never)"
  by (auto simp: requirement_of_def create_exec_approval_requirement_for_command_def Let_def
      prompt_is_rejected_by_policy_def split: option.splits)

lemma requirement_allow:
  "requirement_of lib env parse p req ev r \<Longrightarrow> eval_decision ev = Allow \<Longrightarrow>
   \<exists>amendment. r = Skip (list_all (\<lambda>c. list_ex (\<lambda>m. is_policy_match m \<and> match_decision m = Allow) (hits env p c))
     (policy_commands (commands_for_exec_policy parse (req_command req)))) amendment"
  by (auto simp: requirement_of_def create_exec_approval_requirement_for_command_def Let_def)

lemma requirement_unique:
  "requirement_of lib env parse p req ev r \<Longrightarrow>
   create_exec_approval_requirement_for_command lib env parse p req = Some r' \<Longrightarrow> r' = r"
  by (simp add: requirement_of_def)

lemma requirement_decision:
  assumes "requirement_of lib env parse p req ev r"
  shows "(\<exists>b a. r = Skip b a) \<longleftrightarrow> eval_decision ev = Allow"
  using requirement_forbidden[OF assms] requirement_prompt[OF assms] requirement_allow[OF assms]
  by (cases "eval_decision ev") auto

lemma heuristics_allow:
  assumes "exec_policy_fallback parse req complex c = Allow"
  shows "(command_might_be_dangerous parse c \<and> lit ''zsh'' \<notin> set (drop 2 c) \<longrightarrow>
      req_approval_policy req = Never \<and> (\<forall>fs net. req_permission_profile req \<noteq> Managed fs net)) \<and>
    (req_approval_policy req = UnlessTrusted \<longrightarrow> is_known_safe_command parse c)"
  using assms known_safe_is_not_dangerous[of parse c]
  by (auto simp: exec_policy_fallback_def render_decision_for_unmatched_command_def Let_def
      split: if_splits ask_for_approval.splits permission_profile.splits)


definition plain_lib :: policy_lib where
  "plain_lib = \<lparr>shlex_split = (\<lambda>_. None), shlex_try_join = (\<lambda>_. None), show_rule = (\<lambda>_. []), show_rule_match = (\<lambda>_. [])\<rparr>"

definition request_for :: "str list \<Rightarrow> ask_for_approval \<Rightarrow> exec_approval_request" where
  "request_for command policy =
     \<lparr>req_command = command, req_approval_policy = policy, req_permission_profile = Managed UnrestrictedFileSystem NetworkEnabled,
      req_sandbox_permissions = UseDefault, req_prefix_rule = None\<rparr>"


text \<open>
  C15: a forbidding rule cannot be evaded by the shell: if one of the commands that a request is split
  into matches a rule that forbids it, the request is refused, whatever the approval policy, the
  sandbox and the other commands are.
\<close>

theorem forbidden_rule_refuses:
  assumes "c \<in> set (policy_commands (commands_for_exec_policy parse (req_command req)))"
    and "m \<in> set (matches_for_command_with_options env p c None resolving)" "match_decision m = Forbidden"
  shows "\<exists>reason. create_exec_approval_requirement_for_command lib env parse p req = Some (ForbiddenCommand reason)"
proof -
  let ?f = "exec_policy_fallback parse req (used_complex_parsing (commands_for_exec_policy parse (req_command req)))"
  obtain ev r where r: "requirement_of lib env parse p req ev r"
    "eval_matched_rules ev = concat (map (\<lambda>c. matches_for_command_with_options env p c (Some ?f) resolving)
       (policy_commands (commands_for_exec_policy parse (req_command req))))"
    "\<forall>m\<in>set (eval_matched_rules ev). match_decision m \<le> eval_decision ev"
    by (rule requirement_exists)
  have "m \<in> set (matches_for_command_with_options env p c (Some ?f) resolving)"
    using assms(2) by (auto simp: matches_with_fallback)
  then have "m \<in> set (eval_matched_rules ev)" using assms(1) by (auto simp: r(2))
  then have "eval_decision ev = Forbidden" using r(3) assms(3) decision_cases[of Forbidden] by fastforce
  then show ?thesis using requirement_forbidden[OF r(1)] r(1) by (auto simp: requirement_of_def)
qed

lemma ls_and_pwd_commands: "try_parse_word_only_commands_sequence ls_and_pwd = Some [[lit ''ls''], [lit ''pwd'']]"
  by (simp add: try_parse_word_only_commands_sequence_def tree_eval Let_def)

lemma bash_script_commands:
  "commands_for_exec_policy (\<lambda>_. Some ls_and_pwd) [lit ''bash'', lit ''-lc'', script] =
     \<lparr>policy_commands = [[lit ''ls''], [lit ''pwd'']], used_complex_parsing = False\<rparr>"
proof -
  have "detect_shell_type (lit ''bash'') = Some Bash" by (subst detect_shell_type.simps) (simp add: lit_def)
  then show ?thesis
    by (simp add: commands_for_exec_policy_def parse_shell_lc_plain_commands_def extract_bash_command_def
        ls_and_pwd_commands)
qed

lemma sample_hits: "toks \<noteq> [] \<Longrightarrow> hits env (sample_policy toks d) toks = [PrefixRuleMatch toks d None None]"
  by (simp add: hits_eq sample_policy_hits)

theorem forbidden_rule_refuses_witness:
  "\<exists>reason. create_exec_approval_requirement_for_command plain_lib sample_env (\<lambda>_. Some ls_and_pwd)
      (sample_policy [lit ''pwd''] Forbidden)
      (request_for [lit ''bash'', lit ''-lc'', lit ''ls && pwd''] OnRequest) = Some (ForbiddenCommand reason)"
  by (rule forbidden_rule_refuses[of "[lit ''pwd'']" _ _ "PrefixRuleMatch [lit ''pwd''] Forbidden None None"])
    (simp_all add: request_for_def bash_script_commands sample_hits)


lemma skipped_sample:
  "create_exec_approval_requirement_for_command plain_lib sample_env (\<lambda>_. None) (sample_policy [lit ''ls''] Allow)
     (request_for [lit ''ls''] OnRequest) = Some (Skip True None)"
  by (simp add: create_exec_approval_requirement_for_command_def request_for_def commands_for_exec_policy_def
      parse_shell_lc_plain_commands_def parse_shell_lc_single_command_prefix_def extract_bash_command_def
      check_multiple_with_options_def matches_with_fallback sample_hits from_matches_def Let_def
      try_derive_execpolicy_amendment_for_allow_rules_def)


text \<open>The first attempt leaves the sandbox only on request or by rules, and never if reads are denied.\<close>

lemma bypassed_sandbox_is_justified:
  assumes "create_exec_approval_requirement_for_command lib env parse p req = Some r"
    and "sandbox_override_for_first_attempt (req_sandbox_permissions req) r fsp = BypassSandboxFirstAttempt"
  shows "\<not> has_denied_read_restrictions fsp \<and>
    (req_sandbox_permissions req = RequireEscalated \<or>
     (\<forall>c\<in>set (policy_commands (commands_for_exec_policy parse (req_command req))).
        list_ex (\<lambda>m. match_decision m = Allow) (hits env p c)))"
proof -
  obtain ev r' where r': "requirement_of lib env parse p req ev r'" by (rule requirement_exists)
  then have r: "requirement_of lib env parse p req ev r" using requirement_unique[OF r' assms(1)] by simp
  have "\<forall>c\<in>set (policy_commands (commands_for_exec_policy parse (req_command req))).
      list_ex (\<lambda>m. match_decision m = Allow) (hits env p c)" if "r = Skip True am" for am
    using requirement_allow[OF r] requirement_decision[OF r] that by (auto simp: list_all_iff list_ex_iff)
  then show ?thesis
    using assms(2)
    by (auto simp: sandbox_override_for_first_attempt_def unsandboxed_execution_allowed_def
        requires_escalated_permissions_def split: if_splits exec_approval_requirement.splits bool.splits)
qed

section \<open>Accepting an amendment\<close>

text \<open>A bare program name is looked up under its own name.\<close>

lemma split_on_last: "d \<notin> set w \<Longrightarrow> split_on d (a @ d # w) = split_on d a @ [w]"
proof (induction a)
  case (Cons c a)
  then show ?case by (cases "split_on d a") auto
qed (simp add: split_on_no_sep)

lemma path_join_components:
  assumes "path_name n"
  shows "path_components (path_join base n) \<noteq> [] \<and> last (path_components (path_join base n)) = Normal n"
proof -
  have n: "slash \<notin> set n" "n \<noteq> []" "n \<noteq> lit ''.''" "n \<noteq> lit ''..''" using assms by (auto simp: path_name_def)
  have rel: "\<not> path_is_absolute n" using n by (cases n) (auto simp: path_is_absolute_def starts_with_def)
  have "\<exists>ws. split_on slash (path_join base n) = ws @ [n]"
  proof (cases base rule: rev_cases)
    case Nil
    then show ?thesis using rel n split_on_no_sep[of slash n] by (simp add: path_join_def)
  next
    case (snoc b c)
    then show ?thesis using rel n split_on_last[of slash n b] split_on_last[of slash n base] by (auto simp: path_join_def)
  qed
  then obtain ws where "split_on slash (path_join base n) = ws @ [n]" by blast
  then show ?thesis using n by (simp add: path_components_def component_of_def)
qed

lemma bare_name_file_name:
  assumes "path_name n" "\<not> starts_with (lit ''~'') n" "path_is_absolute cwd"
    and "from_absolute_path home (Ok cwd :: (str, str) result) n = Ok program"
  shows "path_file_name program = Some n"
proof -
  have expand: "maybe_expand_home_directory home n = n"
    using assms(2) by (auto simp: maybe_expand_home_directory_def starts_with_def split: option.splits)
  have rel: "\<not> path_is_absolute n"
    using assms(1) by (cases n) (auto simp: path_is_absolute_def starts_with_def path_name_def)
  have base: "path_is_absolute (path_join cwd n)"
    using assms(3) rel by (auto simp: path_join_def path_is_absolute_def starts_with_iff)
  have program: "program = normalize_path (path_join cwd n)"
    using assms(4) rel by (simp add: from_absolute_path_def expand absolutize_def absolutize_from_def path_with_base_def)
  have comps: "path_components (path_join cwd n) \<noteq> [] \<and> last (path_components (path_join cwd n)) = Normal n"
    using path_join_components[OF assms(1), of cwd] by simp
  obtain cs where cs: "path_components (path_join cwd n) = RootDir # cs" "\<forall>c\<in>set cs. c \<noteq> RootDir"
    using base by (rule path_components_absolute)
  then obtain ds where ds: "cs = ds @ [Normal n]" using comps by (cases cs rule: rev_cases) auto
  obtain root names where f: "foldl normalize_step (True, []) ds = (root, names)" by fastforce
  have "root = True" using foldl_normalize_root[of ds True "[]"] cs(2) ds f by simp
  moreover have "list_all path_name (names @ [n])"
    using foldl_normalize_names[of "[]" ds True] path_components_names[of _ "path_join cwd n"] cs(1) ds f assms(1) by auto
  ultimately have "path_components program = RootDir # map Normal (names @ [n])"
    using components_normal[of "names @ [n]"] cs(1) ds f by (simp add: program normalize_path_def)
  then show ?thesis by (simp add: path_file_name_def)
qed

definition host_excluded :: "policy \<Rightarrow> str \<Rightarrow> str \<Rightarrow> bool" where
  "host_excluded p n program \<longleftrightarrow>
     (case host_executables_by_name p n of Some paths \<Rightarrow> program \<notin> set paths | None \<Rightarrow> False)"

lemma host_hits_iff:
  "match_host_executable_rules env p cmd \<noteq> [] \<longleftrightarrow>
     (\<exists>first args program n. cmd = first # args \<and>
        from_absolute_path (env_home env) (env_current_dir env) first = Ok program \<and> path_file_name program = Some n \<and>
        \<not> host_excluded p n program \<and>
        prefix_rules.rule_hits (multimap_values (rules_by_program p) n) (n # args) \<noteq> [])"
  by (auto simp: match_host_executable_rules_def host_excluded_def executable_path_lookup_key_def
      executable_lookup_key_def multimap_values_def prefix_rules.rule_hits_def list_ex_iff
      split: list.splits result.splits option.splits)

lemma hits_extend: "hits env p cmd \<noteq> [] \<Longrightarrow> hits env p (cmd @ extra) \<noteq> []"
proof -
  assume h: "hits env p cmd \<noteq> []"
  show ?thesis
  proof (cases "exact_hits p cmd = []")
    case False
    then have "cmd \<noteq> []" by (auto simp: exact_hits_eq)
    then have "exact_hits p (cmd @ extra) \<noteq> []" using exact_hits_extend[of cmd p extra] False by force
    then show ?thesis by (simp add: hits_eq)
  next
    case True
    then have "match_host_executable_rules env p cmd \<noteq> []" using h by (simp add: hits_eq)
    then obtain first args program n where *: "cmd = first # args"
      "from_absolute_path (env_home env) (env_current_dir env) first = Ok program" "path_file_name program = Some n"
      "\<not> host_excluded p n program" "prefix_rules.rule_hits (multimap_values (rules_by_program p) n) (n # args) \<noteq> []"
      unfolding host_hits_iff by blast
    have "prefix_rules.rule_hits (multimap_values (rules_by_program p) n) (n # args @ extra) \<noteq> []"
      using *(5) prefix_rules.rule_hits_extend[of "multimap_values (rules_by_program p) n" "n # args" extra] by force
    then have "match_host_executable_rules env p (cmd @ extra) \<noteq> []" unfolding host_hits_iff using * by auto
    then show ?thesis by (simp add: hits_eq)
  qed
qed

lemma added_rule:
  assumes "add_prefix_rule p toks Allow = Ok q"
  shows "toks \<noteq> []" "host_excluded q = host_excluded p"
    "prefix_rules.rule_hits (multimap_values (rules_by_program q) n) cmd =
       prefix_rules.rule_hits (multimap_values (rules_by_program p) n) cmd @
       (if n = hd toks \<and> prefix toks cmd then [PrefixRuleMatch toks Allow None None] else [])"
  using assms
  by (cases toks; auto simp: add_prefix_rule_def host_excluded_def fun_eq_iff multimap_values_insert
      prefix_rules.rule_hits_def rule_matches_single Let_def)+

text \<open>A command that only the new rule matches was matched before if the rule's own tokens were.\<close>

lemma new_hit_was_old:
  assumes q: "add_prefix_rule p toks Allow = Ok q" and new: "hits env q c \<noteq> []" and old: "hits env p toks \<noteq> []"
    and "\<not> starts_with (lit ''~'') (hd toks)" "env_current_dir env = Ok cwd" "path_is_absolute cwd"
  shows "hits env p c \<noteq> []"
proof (rule ccontr)
  assume none: "\<not> hits env p c \<noteq> []"
  obtain t ts where toks: "toks = t # ts" using added_rule(1)[OF q] by (cases toks) auto
  note excl = added_rule(2)[OF q] and rules = added_rule(3)[OF q, unfolded toks, simplified, folded toks]
  have exact_none: "exact_hits p c = []" and host_none: "match_host_executable_rules env p c = []"
    using none by (auto simp: hits_eq split: if_splits)
  have no_prefix: "\<not> prefix toks c" using hits_extend[OF old] none by (auto simp: prefix_def)
  then have "exact_hits q c = []" using exact_none rules by (auto simp: exact_hits_eq split: if_splits)
  then have "match_host_executable_rules env q c \<noteq> []" using new by (simp add: hits_eq)
  then obtain first args program n where host: "c = first # args"
    "from_absolute_path (env_home env) (env_current_dir env) first = Ok program" "path_file_name program = Some n"
    "\<not> host_excluded p n program" "prefix_rules.rule_hits (multimap_values (rules_by_program q) n) (n # args) \<noteq> []"
    unfolding host_hits_iff excl by blast
  have old_none: "prefix_rules.rule_hits (multimap_values (rules_by_program p) n) (n # args) = []"
    using host_none host(1-4) host_hits_iff[of env p c] by blast
  then have n: "n = t" "prefix toks (n # args)" using rules[of n "n # args"] host(5) by (auto split: if_splits)
  have "path_name t" using file_name_is_name[OF host(3)] n(1) by simp
  then have bare: "path_file_name program' = Some t" if "from_absolute_path (env_home env) (env_current_dir env) t = Ok program'"
    for program' using bare_name_file_name[of t cwd "env_home env" program'] assms(4-6) toks that by simp
  have "prefix_rules.rule_hits (multimap_values (rules_by_program p) t) toks \<noteq> []"
  proof (cases "exact_hits p toks = []")
    case False
    then show ?thesis by (simp add: exact_hits_eq toks)
  next
    case True
    then have "match_host_executable_rules env p toks \<noteq> []" using old by (simp add: hits_eq)
    then show ?thesis unfolding host_hits_iff using bare by (auto simp: toks)
  qed
  moreover obtain extra where "n # args = toks @ extra" using n(2) by (auto simp: prefix_def)
  ultimately show False
    using old_none prefix_rules.rule_hits_extend[of "multimap_values (rules_by_program p) t" toks extra] n(1) by force
qed

text \<open>The amendment that the caller's \<open>prefix_rule\<close> gives: the local \<open>requested_amendment\<close> of the code.\<close>

definition requested_amendment_for ::
  "path_env \<Rightarrow> (str \<Rightarrow> syntax_tree option) \<Rightarrow> policy \<Rightarrow> exec_approval_request \<Rightarrow> exec_policy_amendment option" where
  "requested_amendment_for env parse p req =
     (let cmds = commands_for_exec_policy parse (req_command req);
          fallback = exec_policy_fallback parse req (used_complex_parsing cmds)
      in case check_multiple_with_options env p (policy_commands cmds) fallback resolving of
           None \<Rightarrow> None
         | Some ev \<Rightarrow>
             if used_complex_parsing cmds then None
             else derive_requested_execpolicy_amendment_from_prefix_rule env (req_prefix_rule req)
                    (eval_matched_rules ev) p (policy_commands cmds) fallback resolving)"

lemma would_approve_all:
  assumes "add_prefix_rule p toks Allow = Ok q" "prefix_rule_would_approve_all_commands env p toks commands f resolving"
    and "c \<in> set commands" "m \<in> set (matches_for_command_with_options env q c (Some f) resolving)"
  shows "match_decision m = Allow"
proof -
  have "map_option eval_decision (check_with_options env q c f resolving) = Some Allow"
    using assms(1-3) by (auto simp: prefix_rule_would_approve_all_commands_def list_all_iff)
  then obtain ev where "from_matches (matches_for_command_with_options env q c (Some f) resolving) = Some ev"
    "eval_decision ev = Allow" by (auto simp: check_with_options_def)
  then show ?thesis using assms(4) decision_cases[of "match_decision m" Allow] by (auto simp: from_matches_Some)
qed

text \<open>The amendment was computed for this very request, and no rule matched it before.\<close>

lemma requested_amendment_facts:
  assumes "requested_amendment_for env parse p req = Some a"
  shows "prefix_rule_would_approve_all_commands env p (amendment_command a)
      (policy_commands (commands_for_exec_policy parse (req_command req)))
      (exec_policy_fallback parse req (used_complex_parsing (commands_for_exec_policy parse (req_command req)))) resolving"
    "c \<in> set (policy_commands (commands_for_exec_policy parse (req_command req))) \<Longrightarrow> hits env p c = []"
proof -
  let ?cmds = "policy_commands (commands_for_exec_policy parse (req_command req))"
  let ?f = "exec_policy_fallback parse req (used_complex_parsing (commands_for_exec_policy parse (req_command req)))"
  obtain ev where ev: "check_multiple_with_options env p ?cmds ?f resolving = Some ev"
    "eval_matched_rules ev = concat (map (\<lambda>c. matches_for_command_with_options env p c (Some ?f) resolving) ?cmds)"
    by (rule request_evaluated[OF commands_nonempty[of parse "req_command req"], of env p ?f])
  then have d: "derive_requested_execpolicy_amendment_from_prefix_rule env (req_prefix_rule req) (eval_matched_rules ev)
      p ?cmds ?f resolving = Some a"
    using assms by (auto simp: requested_amendment_for_def Let_def split: if_splits)
  then show "prefix_rule_would_approve_all_commands env p (amendment_command a) ?cmds ?f resolving"
    by (auto simp: derive_requested_execpolicy_amendment_from_prefix_rule_def split: option.splits if_splits)
  have none: "\<not> list_ex is_policy_match (eval_matched_rules ev)"
    using d by (auto simp: derive_requested_execpolicy_amendment_from_prefix_rule_def split: option.splits if_splits)
  assume c: "c \<in> set ?cmds"
  show "hits env p c = []"
  proof (rule ccontr)
    assume h: "hits env p c \<noteq> []"
    then obtain m where m: "m \<in> set (hits env p c)" by (cases "hits env p c") auto
    then have "m \<in> set (eval_matched_rules ev)" using h c by (auto simp: ev(2) matches_with_fallback)
    then show False using none hits_policy[OF m] by (auto simp: list_ex_iff)
  qed
qed

lemma all_allowed_skips:
  assumes "\<And>c m. c \<in> set (policy_commands (commands_for_exec_policy parse (req_command req))) \<Longrightarrow>
      m \<in> set (matches_for_command_with_options env q c (Some (exec_policy_fallback parse req
        (used_complex_parsing (commands_for_exec_policy parse (req_command req))))) resolving) \<Longrightarrow> match_decision m = Allow"
  shows "\<exists>bypass am. create_exec_approval_requirement_for_command lib env parse q req = Some (Skip bypass am)"
proof -
  let ?f = "exec_policy_fallback parse req (used_complex_parsing (commands_for_exec_policy parse (req_command req)))"
  obtain ev r where r: "requirement_of lib env parse q req ev r"
    "eval_matched_rules ev = concat (map (\<lambda>c. matches_for_command_with_options env q c (Some ?f) resolving)
       (policy_commands (commands_for_exec_policy parse (req_command req))))"
    "eval_decision ev \<in> match_decision ` set (eval_matched_rules ev)"
    by (rule requirement_exists)
  have "eval_decision ev = Allow" using r(2,3) assms by auto
  then show ?thesis using requirement_decision[OF r(1)] r(1) by (auto simp: requirement_of_def)
qed

text \<open>
  C17: accepting a requested amendment is enough. Suppose a request has to be approved and the rule its
  caller suggested is proposed as an amendment. Once the amendment has been written to the policy
  file and taken into the policy, the same request runs without asking. The working directory is an
  absolute path, and the suggested program does not start with a tilde, which stands for the home
  directory.
\<close>

theorem accepted_amendment_is_enough:
  assumes asked: "create_exec_approval_requirement_for_command lib env parse p req = Some (NeedsApproval reason proposed)"
    and a: "requested_amendment_for env parse p req = Some a"
    and update: "append_amendment_and_update ops to_json env codex_home a s p = (s', q, Ok ())"
    and env: "env_current_dir env = Ok cwd" "path_is_absolute cwd" "\<not> starts_with (lit ''~'') (hd (amendment_command a))"
  shows "proposed = Some a \<and>
    (\<exists>bypass am. create_exec_approval_requirement_for_command lib env parse q req = Some (Skip bypass am))"
proof -
  let ?cmds = "policy_commands (commands_for_exec_policy parse (req_command req))"
  let ?f = "exec_policy_fallback parse req (used_complex_parsing (commands_for_exec_policy parse (req_command req)))"
  let ?toks = "amendment_command a"
  note facts = requested_amendment_facts[OF a]
  obtain q0 where q0: "add_prefix_rule p ?toks Allow = Ok q0"
    using facts(1) by (auto simp: prefix_rule_would_approve_all_commands_def split: result.splits)
  have approved: "match_decision m = Allow"
    if "c \<in> set ?cmds" "m \<in> set (matches_for_command_with_options env q0 c (Some ?f) resolving)" for c m
    using would_approve_all[OF q0 facts(1) that] .
  have prompts: "\<exists>c\<in>set ?cmds. ?f c \<noteq> Allow"
  proof (rule ccontr)
    assume "\<not> (\<exists>c\<in>set ?cmds. ?f c \<noteq> Allow)"
    then have "\<exists>bypass am. create_exec_approval_requirement_for_command lib env parse p req = Some (Skip bypass am)"
      using facts(2) by (intro all_allowed_skips) (auto simp: matches_with_fallback)
    then show False using asked by simp
  qed
  then obtain c where c: "c \<in> set ?cmds" "?f c \<noteq> Allow" by blast
  have new: "hits env q0 c \<noteq> []" using approved[OF c(1)] c(2) by (auto simp: matches_with_fallback)
  have "hits env p ?toks = []"
    using new_hit_was_old[OF q0 new _ env(3,1,2)] facts(2)[OF c(1)] by blast
  then have "q = q0"
    using update q0
    by (auto simp: append_amendment_and_update_def Let_def check_multiple_with_options_def matches_with_fallback
        from_matches_def split: prod.splits result.splits)
  moreover have "proposed = Some a"
    using asked a
    by (auto simp: create_exec_approval_requirement_for_command_def requested_amendment_for_def Let_def
        split: option.splits decision.splits if_splits)
  ultimately show ?thesis using all_allowed_skips[of parse req env q lib] approved by blast
qed

definition escalated_request :: exec_approval_request where
  "escalated_request =
     \<lparr>req_command = [lit ''foo'', lit ''x''], req_approval_policy = OnRequest,
      req_permission_profile = Managed (RestrictedEntries [] None) NetworkRestricted,
      req_sandbox_permissions = RequireEscalated, req_prefix_rule = Some [lit ''foo'']\<rparr>"

lemma no_rules: "hits env policy_empty c = []"
  by (cases c) (auto simp: hits_eq exact_hits_eq match_host_executable_rules_def policy_empty_def policy_new_def
      policy_from_parts_def multimap_values_def multimap_get_vec_def prefix_rules.rule_hits_def
      split: result.splits option.splits)

lemma escalated_commands:
  "commands_for_exec_policy (\<lambda>_. None) (req_command escalated_request) =
     \<lparr>policy_commands = [[lit ''foo'', lit ''x'']], used_complex_parsing = False\<rparr>"
  by (simp add: escalated_request_def commands_for_exec_policy_def parse_shell_lc_plain_commands_def
      parse_shell_lc_single_command_prefix_def extract_bash_command_def)

lemma escalated_prompts:
  "exec_policy_fallback (\<lambda>_. None) escalated_request False [lit ''foo'', lit ''x''] = Prompt"
  by (simp add: exec_policy_fallback_def render_decision_for_unmatched_command_def escalated_request_def
      command_might_be_dangerous_def parse_shell_lc_plain_commands_def extract_bash_command_def
      requests_sandbox_override_def lit_def)

lemma foo_rule: "add_prefix_rule policy_empty [lit ''foo''] Allow = Ok (sample_policy [lit ''foo''] Allow)"
  by (simp add: sample_policy_def add_prefix_rule_def Let_def)

lemma escalated_amendment:
  "requested_amendment_for sample_env (\<lambda>_. None) policy_empty escalated_request = Some \<lparr>amendment_command = [lit ''foo'']\<rparr>"
proof -
  have "hits sample_env (sample_policy [lit ''foo''] Allow) [lit ''foo'', lit ''x''] = [PrefixRuleMatch [lit ''foo''] Allow None None]"
    by (simp add: hits_eq sample_policy_hits)
  moreover have "[lit ''foo''] \<notin> set BANNED_PREFIX_SUGGESTIONS" by (simp add: BANNED_PREFIX_SUGGESTIONS_def lit_def)
  moreover have "req_prefix_rule escalated_request = Some [lit ''foo'']" by (simp add: escalated_request_def)
  ultimately show ?thesis
    by (simp add: requested_amendment_for_def escalated_commands check_multiple_with_options_def matches_with_fallback
        no_rules escalated_prompts from_matches_def derive_requested_execpolicy_amendment_from_prefix_rule_def
        prefix_rule_would_approve_all_commands_def foo_rule check_with_options_def Let_def)
qed

lemma escalated_asked:
  "\<exists>reason proposed. create_exec_approval_requirement_for_command plain_lib sample_env (\<lambda>_. None) policy_empty
     escalated_request = Some (NeedsApproval reason proposed)"
proof -
  have "req_approval_policy escalated_request = OnRequest" by (simp add: escalated_request_def)
  then show ?thesis
    by (simp add: create_exec_approval_requirement_for_command_def escalated_commands check_multiple_with_options_def
        matches_with_fallback no_rules escalated_prompts from_matches_def prompt_is_rejected_by_policy_def Let_def)
qed

lemma foo_amended:
  "\<exists>s. append_amendment_and_update text_file_ops quote_json sample_env (lit ''/h'') \<lparr>amendment_command = [lit ''foo'']\<rparr> []
     policy_empty = (s, sample_policy [lit ''foo''] Allow, Ok ())"
proof -
  have "\<exists>s. blocking_append_allow_prefix_rule text_file_ops quote_json (default_policy_path (lit ''/h'')) [lit ''foo''] [] = (s, Ok ())"
    by (simp add: blocking_append_allow_prefix_rule_def quote_json_def append_rule_line_def path_parent_def
        append_locked_line_def step_def text_file_ops_def allow_prefix_rule_line_def default_policy_path_def text_eval)
  then show ?thesis
    by (auto simp: append_amendment_and_update_def check_multiple_with_options_def matches_with_fallback no_rules
        from_matches_def foo_rule Let_def)
qed

theorem accepted_amendment_is_enough_witness:
  "\<exists>bypass am. create_exec_approval_requirement_for_command plain_lib sample_env (\<lambda>_. None)
     (sample_policy [lit ''foo''] Allow) escalated_request = Some (Skip bypass am)"
proof -
  obtain reason proposed where asked: "create_exec_approval_requirement_for_command plain_lib sample_env (\<lambda>_. None)
      policy_empty escalated_request = Some (NeedsApproval reason proposed)" using escalated_asked by blast
  obtain s where update: "append_amendment_and_update text_file_ops quote_json sample_env (lit ''/h'')
      \<lparr>amendment_command = [lit ''foo'']\<rparr> [] policy_empty = (s, sample_policy [lit ''foo''] Allow, Ok ())"
    using foo_amended by blast
  have "env_current_dir sample_env = Ok (lit ''/w'')" "path_is_absolute (lit ''/w'')" "\<not> starts_with (lit ''~'') (lit ''foo'')"
    by (simp_all add: sample_env_def text_eval)
  then show ?thesis
    using accepted_amendment_is_enough[OF asked escalated_amendment update] by simp
qed

end
