(* ===== verification/Spec2Isabelle.thy ===== *)
theory Spec2Isabelle
  imports Streaming_Roundtrip Patch_Invocation Exec_Policy_Amend Turn_Diff_Tracker Exec_Output_Watcher Context_History
    Plan_Mode_Messages Utf8_Stream Exec_Approval
begin

text \<open>
  Verification development for the Codex agent (\<^verbatim>\<open>src/codex-rs\<close>): the parts that decide what the agent does to
  files, which commands it may run, what it remembers and what its user sees.

  \<^bold>\<open>The program.\<close> The model answers in a stream of text and tool calls. Its text is shown as it
  arrives, without hidden markup. A patch is parsed, shown for approval, applied and entered into the
  diff of the turn. A shell command is split into plain commands, checked against the exec policy and
  the safety heuristics, run, and its output buffered and reported. Everything is recorded in a
  history, which is repaired, truncated and sent back to the model.

  \<^bold>\<open>Conventions.\<close> \<open>Codex_Prelude\<close> holds the shared vocabulary: a string is a list of code points (\<open>str\<close>), a
  \<open>Result\<close> is \<open>result\<close>, a panic or a loop that does not end is \<open>None\<close>, a struct is a record and an enum a
  datatype. Definitions carry the names of the code. What the sources only call is a parameter: the
  file system, tree-sitter, the Starlark interpreter, shlex, JSON, SHA-1, the line diff, the clock;
  a theorem that relies on their behaviour states it as a hypothesis.

  \<^bold>\<open>Patches\<close> (\<^verbatim>\<open>apply-patch\<close>, \<^verbatim>\<open>utils/absolute-path\<close>, \<^verbatim>\<open>file-system\<close>, \<^verbatim>\<open>core/src/turn_diff_tracker.rs\<close>).
  \<^item> \<open>Seek_Sequence\<close>: the search for lines in four passes of decreasing strictness.
  \<^item> \<open>Patch_Parser\<close>, \<open>Patch_Roundtrip\<close>: the parser, and that it reads back every rendered patch.
  \<^item> \<open>Streaming_Parser\<close>, \<open>Streaming_Roundtrip\<close>: the incremental parser; its result does not depend on how the
    text is cut and agrees with the other parser.
  \<^item> \<open>Patch_Replacements\<close>: the edit of a file, as a splice of the matched regions.
  \<^item> \<open>Absolute_Path\<close>: resolution and normalisation of Unix paths.
  \<^item> \<open>Apply_Patch\<close>, \<open>Apply_Refinement\<close>: the application to a file system with its errors and the record of
    changes; it refines an abstract update of a map from paths to texts, and an exact record replays and
    reverts the patch.
  \<^item> \<open>Patch_Invocation\<close>: what is shown for approval is what is applied.
  \<^item> \<open>Turn_Diff_Tracker\<close>: the net diff of a turn follows the files.

  \<^bold>\<open>Commands\<close> (\<^verbatim>\<open>execpolicy\<close>, \<^verbatim>\<open>shell-command\<close>, \<^verbatim>\<open>core/src/exec_policy.rs\<close>, \<^verbatim>\<open>core/src/unified_exec\<close>).
  \<^item> \<open>Exec_Policy_Rules\<close>, \<open>Exec_Policy\<close>, \<open>Exec_Policy_Parser\<close>, \<open>Exec_Policy_Amend\<close>: rules, their matching, the
    policy files and their amendment; the strictest matching rule decides, and neither more arguments
    nor an overlay loosens a decision. The locale \<open>rule_contract\<close> states what a policy needs of a rule.
  \<^item> \<open>Shell_Script\<close>: the plain commands of a \<open>bash -lc\<close> script, taken from its syntax tree.
  \<^item> \<open>Command_Safety\<close>: the safe and the dangerous commands, which exclude each other.
  \<^item> \<open>Exec_Approval\<close>: these parts together. A request runs without asking only for a reason, a forbidding
    rule always refuses, the policy \<open>Never\<close> never asks, and an accepted amendment is enough.
  \<^item> \<open>Utf8_Text\<close>, \<open>Head_Tail_Buffer\<close>, \<open>Exec_Output_Watcher\<close>: decoding, the bounded output buffer, and the two
    tasks that report output, as a step relation over all their interleavings.

  \<^bold>\<open>Assistant text\<close> (\<^verbatim>\<open>utils/stream-parser\<close>, \<^verbatim>\<open>core/src/session/turn.rs\<close>).
  \<^item> \<open>Stream_Text\<close>: the trait \<open>StreamTextParser\<close> as the locale \<open>stream_text_parser\<close>, whose laws make the
    result independent of the chunks. It is interpreted for hidden tags, citations and plans.
  \<^item> \<open>Inline_Hidden_Tag\<close>, \<open>Tagged_Lines\<close>, \<open>Assistant_Text\<close>, \<open>Utf8_Stream\<close>: the parsers, related to
    declarative readings of the whole text.
  \<^item> \<open>Plan_Mode_Stream\<close>, \<open>Plan_Mode_Messages\<close>: the events a client receives; the life cycle of the plan
    item, and that the deltas of a message add up to its stripped text.

  \<^bold>\<open>History\<close> (\<^verbatim>\<open>protocol\<close>, \<^verbatim>\<open>context-fragments\<close>, \<^verbatim>\<open>utils/output-truncation\<close>, \<^verbatim>\<open>core/src/context_manager\<close>).
  \<^item> \<open>Response_Items\<close>, \<open>Text_Truncation\<close>, \<open>Contextual_Fragments\<close>, \<open>Token_Usage\<close>: the items, truncation to
    a budget, injected context, and token counters at the width of \<open>i64\<close>.
  \<^item> \<open>History_Normalize\<close>, \<open>Context_History\<close>: every call is paired with one output, recorded outputs are
    bounded, and a rollback drops whole turns.

  \<^bold>\<open>Loops and bounds.\<close> No model runs on fuel. Loops are structural or well-founded recursions, a
  \<open>while_option\<close> (the trimming of the buffer) or a partial function (the loop over hidden tags); that the
  last two return is proved, as part of the theorems on them.

  \<^bold>\<open>Not modelled.\<close> Windows and PowerShell code, which is compiled only there. Loading the exec policy
  from the layers of the configuration. The conversion of response items to turn items, tool calls and
  reasoning deltas while streaming, which enter as inputs of the steps. The session loop, the terminal
  and app-server interfaces, clients of remote services, authentication, databases, sandboxes and
  the network proxy: their work is input and output, serialization or calls of the operating system and
  of other libraries, of which the sources show no behaviour that could be proved.
\<close>

end
